(* ===== verification/Prelude.thy ===== *)
theory Prelude
  imports "HOL-Library.Word" "HOL-Library.AList" "HOL-Library.Multiset"
begin

text \<open>
  Shared vocabulary of the development: the machine integers of the Rust sources as
  \<^theory_text>\<open>word\<close> types, \<open>Result\<close> values as sums, hash maps as association lists with
  distinct keys (the iteration order of a \<open>HashMap\<close> or \<open>DashMap\<close> is never observed by
  the modelled code), little-endian byte conversions, and the generic lemmas on lists,
  association lists and words that the component theories use.

  Integer arithmetic follows the release profile (the only one the README builds and
  installs): \<open>+\<close>, \<open>-\<close> and \<open>*\<close> on unsigned integers wrap around at their width.
\<close>

unbundle bit_operations_syntax

section \<open>Types\<close>

type_synonym u8 = "8 word"
type_synonym u16 = "16 word"
type_synonym u32 = "32 word"
type_synonym u64 = "64 word"
type_synonym usize = "64 word"
type_synonym i32 = "32 word"
type_synonym i64 = "64 word"

text \<open>\<open>Result<T, E>\<close>: \<open>Err\<close> is the left and \<open>Ok\<close> the right injection.\<close>

abbreviation Ok :: "'a \<Rightarrow> 'e + 'a" where "Ok \<equiv> Inr"
abbreviation Err :: "'e \<Rightarrow> 'e + 'a" where "Err \<equiv> Inl"

abbreviation is_ok :: "'e + 'a \<Rightarrow> bool" where "is_ok r \<equiv> \<not> isl r"

section \<open>Collections of simplification rules\<close>

named_theorems map_simps \<open>lookup, membership and counting in association lists\<close>
named_theorems page_simps \<open>byte lists, pages and slots of the page store\<close>

section \<open>Lists\<close>

lemma foldl_pres:
  assumes "P a" and "\<And>a x. x \<in> set xs \<Longrightarrow> P a \<Longrightarrow> P (f a x)"
  shows "P (foldl f a xs)"
  using assms by (induction xs arbitrary: a) auto

lemma filter_length_le_imp_mem:
  "0 < length (filter P xs) \<Longrightarrow> \<exists>x \<in> set xs. P x"
  by (induction xs) (auto split: if_splits)

lemma filter_singleton_unique:
  assumes "length (filter P xs) = 1" "x \<in> set xs" "y \<in> set xs" "P x" "P y"
  shows "x = y"
proof -
  obtain z where z: "filter P xs = [z]"
    using assms(1) by (cases "filter P xs") auto
  have "x \<in> set (filter P xs)" "y \<in> set (filter P xs)"
    using assms by auto
  then show ?thesis by (simp add: z)
qed

section \<open>Association lists as hash maps\<close>

text \<open>
  \<open>get\<close> is \<open>map_of\<close>, \<open>insert\<close> is \<open>AList.update\<close>, \<open>remove\<close> is \<open>AList.delete\<close>,
  \<open>len\<close> is \<open>length\<close>. The number of entries whose value satisfies a predicate is
  \<open>count_vals\<close>; it is what reference counts are compared with.
\<close>

declare map_of_eq_Some_iff [simp del] Some_eq_map_of_iff [simp del]

definition count_vals :: "('v \<Rightarrow> bool) \<Rightarrow> ('k \<times> 'v) list \<Rightarrow> nat" where
  "count_vals P al = length (filter (\<lambda>(k, v). P v) al)"

lemma count_vals_simps [simp, map_simps]:
  "count_vals P [] = 0"
  "count_vals P (kv # al) = (if P (snd kv) then 1 else 0) + count_vals P al"
  by (auto simp: count_vals_def)

lemma count_vals_le: "count_vals P al \<le> length al"
  by (simp add: count_vals_def)

lemma count_vals_zero_iff: "count_vals P al = 0 \<longleftrightarrow> (\<forall>kv \<in> set al. \<not> P (snd kv))"
  by (induction al) auto

lemma count_vals_delete [map_simps]:
  assumes "distinct (map fst al)"
  shows "count_vals P (AList.delete k al) + (case map_of al k of None \<Rightarrow> 0 | Some v \<Rightarrow> if P v then 1 else 0)
    = count_vals P al"
  using assms
proof (induction al)
  case Nil
  then show ?case by simp
next
  case (Cons kv al)
  obtain k' v where kv: "kv = (k', v)" by (cases kv)
  show ?case
  proof (cases "k' = k")
    case True
    with Cons.prems kv have "k \<notin> fst ` set al" by auto
    then have "AList.delete k al = al" "map_of al k = None"
      by (auto simp: delete_id map_of_eq_None_iff)
    with True kv show ?thesis by simp
  next
    case False
    with Cons kv show ?thesis by (simp split: option.splits)
  qed
qed

lemma count_vals_update [map_simps]:
  assumes "distinct (map fst al)"
  shows "count_vals P (AList.update k v al)
      + (case map_of al k of None \<Rightarrow> 0 | Some v' \<Rightarrow> if P v' then 1 else 0)
    = count_vals P al + (if P v then 1 else 0)"
  using assms
proof (induction al)
  case Nil
  then show ?case by simp
next
  case (Cons kv al)
  obtain k' v' where kv: "kv = (k', v')" by (cases kv)
  show ?case
  proof (cases "k' = k")
    case True
    with Cons.prems kv have "map_of al k = None" by (simp add: map_of_eq_None_iff)
    with True kv show ?thesis by simp
  next
    case False
    with Cons kv show ?thesis by (simp split: option.splits)
  qed
qed

lemma map_of_update [simp, map_simps]:
  "map_of (AList.update k v al) k' = (if k' = k then Some v else map_of al k')"
  by (simp add: update_conv')

lemma map_of_delete [simp, map_simps]:
  "map_of (AList.delete k al) k' = (if k' = k then None else map_of al k')"
  by (simp add: delete_conv')

lemma distinct_update_keys [simp, map_simps]:
  "distinct (map fst al) \<Longrightarrow> distinct (map fst (AList.update k v al))"
  by (rule distinct_update)

lemma distinct_delete_keys [simp, map_simps]:
  "distinct (map fst al) \<Longrightarrow> distinct (map fst (AList.delete k al))"
  by (rule distinct_delete)

lemma update_keys [simp, map_simps]:
  "fst ` set (AList.update k v al) = insert k (fst ` set al)"
  by (induction al) auto

lemma length_update_le: "length (AList.update k v al) \<le> Suc (length al)"
  by (induction al) auto

lemma count_vals_mem:
  assumes "0 < count_vals P al" "distinct (map fst al)"
  obtains k v where "map_of al k = Some v" "P v"
proof -
  from assms(1) obtain kv where "kv \<in> set al" "P (snd kv)"
    using count_vals_zero_iff[of P al] by auto
  with assms(2) that show thesis by (cases kv) (auto intro: map_of_is_SomeI)
qed

lemma count_vals_pos:
  assumes "map_of al k = Some v" "P v"
  shows "0 < count_vals P al"
  using assms by (induction al) (auto split: if_splits)

lemma count_vals_unique:
  assumes "count_vals P al = 1" "map_of al k = Some v" "P v" "map_of al k' = Some v'" "P v'"
  shows "k = k'"
proof -
  have "(k, v) \<in> set al" "(k', v') \<in> set al"
    using assms by (auto dest: map_of_SomeD)
  with assms have "(k, v) = (k', v')"
    by (intro filter_singleton_unique[where P = "\<lambda>(k, v). P v" and xs = al])
       (auto simp: count_vals_def)
  then show ?thesis by simp
qed

section \<open>Repeating a state transition\<close>

text \<open>\<open>iter_op f n s\<close> runs \<open>f\<close> \<open>n\<close> times and collects what it returns.\<close>

fun iter_op :: "('s \<Rightarrow> 's \<times> 'r) \<Rightarrow> nat \<Rightarrow> 's \<Rightarrow> 's \<times> 'r list" where
  "iter_op f 0 s = (s, [])"
| "iter_op f (Suc n) s = (let (s1, r) = f s; (s2, rs) = iter_op f n s1 in (s2, r # rs))"

lemma iter_op_Suc:
  "fst (iter_op f (Suc n) s) = fst (iter_op f n (fst (f s)))"
  "snd (iter_op f (Suc n) s) = snd (f s) # snd (iter_op f n (fst (f s)))"
  by (simp_all add: case_prod_beta Let_def)

declare iter_op.simps(2) [simp del]

section \<open>Words\<close>

lemma unat_less_exp: "unat (w :: 'a::len word) < 2 ^ LENGTH('a)"
  by (rule unsigned_less)

lemma unat_u64_less: "unat (w :: u64) < 2 ^ 64"
  using unat_less_exp[of w] by simp

lemma unat_u32_less: "unat (w :: u32) < 2 ^ 32"
  using unat_less_exp[of w] by simp

lemma unat_plus1:
  assumes "unat (w :: 'a::len word) < unat (v :: 'a word)"
  shows "unat (w + 1) = unat w + 1"
proof -
  have "Suc (unat w) < 2 ^ LENGTH('a)"
    using assms unat_less_exp[of v] by linarith
  then show ?thesis by (simp add: unat_word_ariths)
qed

section \<open>Bytes\<close>

text \<open>\<open>to_le_bytes\<close> and \<open>from_le_bytes\<close> of the unsigned integers.\<close>

definition to_le_bytes :: "nat \<Rightarrow> 'a::len word \<Rightarrow> u8 list" where
  "to_le_bytes n w = map (\<lambda>i. ucast (drop_bit (8 * i) w)) [0..<n]"

fun u64_from_le_bytes :: "u8 list \<Rightarrow> u64" where
  "u64_from_le_bytes [] = 0"
| "u64_from_le_bytes (b # bs) = ucast b OR push_bit 8 (u64_from_le_bytes bs)"

lemma length_to_le_bytes [simp, page_simps]: "length (to_le_bytes n w) = n"
  by (simp add: to_le_bytes_def)

section \<open>Number of binary digits\<close>

fun bit_len :: "nat \<Rightarrow> nat" where
  "bit_len n = (if n = 0 then 0 else Suc (bit_len (n div 2)))"

declare bit_len.simps [simp del]

lemma bit_len_bound: "n < 2 ^ bit_len n"
proof (induction n rule: bit_len.induct)
  case (1 n)
  show ?case
  proof (cases "n = 0")
    case False
    with 1 have "n div 2 < 2 ^ bit_len (n div 2)" by simp
    then have "n < 2 * 2 ^ bit_len (n div 2)" by linarith
    with False show ?thesis by (subst bit_len.simps) simp
  qed simp
qed

lemma bit_len_le: "n < 2 ^ k \<Longrightarrow> bit_len n \<le> k"
proof (induction n arbitrary: k rule: bit_len.induct)
  case (1 n)
  show ?case
  proof (cases "n = 0")
    case True
    then show ?thesis by (subst bit_len.simps) simp
  next
    case False
    with 1(2) obtain k' where k: "k = Suc k'" by (cases k) auto
    with 1(2) have "n div 2 < 2 ^ k'" by auto
    with False 1(1) have "bit_len (n div 2) \<le> k'" by simp
    with False k show ?thesis by (subst bit_len.simps) simp
  qed
qed

lemma bit_len_lower: "0 < n \<Longrightarrow> 2 ^ (bit_len n - 1) \<le> n"
proof (induction n rule: bit_len.induct)
  case (1 n)
  show ?case
  proof (cases "n = 1")
    case True
    then show ?thesis by (simp add: bit_len.simps)
  next
    case False
    with 1 have "0 < n div 2" "2 ^ (bit_len (n div 2) - 1) \<le> n div 2" by auto
    moreover from this have "0 < bit_len (n div 2)" by (subst bit_len.simps) auto
    ultimately have "(2::nat) ^ bit_len (n div 2) \<le> 2 * (n div 2)"
      by (metis Suc_diff_1 mult_le_mono2 power_Suc)
    with 1(2) show ?thesis by (subst bit_len.simps) simp
  qed
qed

lemma card_set_mset_le: "card (set_mset M) \<le> size M"
  by (induction M) (auto simp: card_insert_if)

end
