(* ===== verification/Fingerprint.thy ===== *)
theory Fingerprint
  imports Prelude
begin

text \<open>
  Model of \<open>crates/swap-proxy/src/fingerprint.rs\<close>: the 128-bit page fingerprint, the
  64-byte collision guard and the Bloom-filter indices. The hash \<open>xxh3_128\<close> is a
  third-party crate and stays a parameter of \<open>fingerprint_page\<close>.
\<close>

section \<open>Pages and fingerprints\<close>

definition PAGE_SIZE :: nat where
  "PAGE_SIZE = 4096"

type_synonym page = "u8 list"
type_synonym fingerprint = "u8 list"
type_synonym hash = "u8 list \<Rightarrow> 128 word"

definition fingerprint_page :: "hash \<Rightarrow> u8 list \<Rightarrow> fingerprint" where
  "fingerprint_page xxh3_128 data = to_le_bytes 16 (xxh3_128 data)"

definition verify_page_prefix :: "u8 list \<Rightarrow> u8 list \<Rightarrow> bool" where
  "verify_page_prefix stored_prefix new_data =
     (let prefix_len = min (min 64 (length stored_prefix)) (length new_data)
      in take prefix_len stored_prefix = take prefix_len new_data)"

definition page_prefix :: "u8 list \<Rightarrow> u8 list" where
  "page_prefix data =
     (let len = min (length data) 64 in take len data @ replicate (64 - len) 0)"

text \<open>
  Three indices below \<open>num_bits\<close>, from the two halves of the fingerprint and their
  wrapping sum. Rust's \<open>%\<close> panics on a zero divisor; every filter has at least 64 bits
  (\<open>wf_bloom\<close> in theory \<open>Dedup\<close>).
\<close>

definition bloom_indices :: "fingerprint \<Rightarrow> usize \<Rightarrow> usize list" where
  "bloom_indices fp num_bits =
     (let h1 = u64_from_le_bytes (take 8 fp);
          h2 = u64_from_le_bytes (take 8 (drop 8 fp));
          h3 = h1 + h2
      in [h1 mod num_bits, h2 mod num_bits, h3 mod num_bits])"

section \<open>Facts\<close>

lemma length_fingerprint_page [simp]: "length (fingerprint_page h data) = 16"
  by (simp add: fingerprint_page_def)

lemma length_page_prefix [simp]: "length (page_prefix data) = 64"
  by (simp add: page_prefix_def Let_def)

lemma page_prefix_long: "64 \<le> length data \<Longrightarrow> page_prefix data = take 64 data"
  by (simp add: page_prefix_def)

text \<open>The guard accepts exactly the pages that agree with the stored one on 64 bytes.\<close>

lemma verify_page_prefix_iff:
  assumes "64 \<le> length a" "64 \<le> length b"
  shows "verify_page_prefix (page_prefix a) b \<longleftrightarrow> take 64 a = take 64 b"
  using assms by (simp add: verify_page_prefix_def page_prefix_long)

lemma verify_page_prefix_same [simp]: "verify_page_prefix (page_prefix a) a"
  by (cases "64 \<le> length a") (auto simp: verify_page_prefix_def page_prefix_def min_def Let_def)

lemma unat_mod_less: "0 < unat n \<Longrightarrow> unat (x mod n :: u64) < unat n"
  by (simp add: unat_mod)

lemma bloom_indices_less:
  assumes "0 < unat num_bits" "i \<in> set (bloom_indices fp num_bits)"
  shows "unat i < unat num_bits"
  using assms by (auto simp: bloom_indices_def Let_def unat_mod)

end
