(* ===== verification/Backend.thy ===== *)
theory Backend
  imports Fingerprint
begin

text \<open>
  Model of \<open>crates/swap-proxy/src/backend.rs\<close>: the page store on a file or block device,
  the slot allocator and the translation table. The operating system decides whether a
  system call on the file succeeds; its decisions are the list \<open>io_plan\<close> of the file,
  consumed one per call (an exhausted plan means success), so every error branch of the
  code is reachable in the model.
\<close>

section \<open>Files\<close>

text \<open>\<open>IoFail n\<close>: the call fails; a failing \<open>write_all\<close> may have written \<open>n\<close> bytes.\<close>

datatype io_outcome = IoOk | IoFail nat

record disk_file =
  content :: "u8 list"
  file_pos :: nat
  io_plan :: "io_outcome list"

datatype backend_error = OutOfRange u64 u64 | IoError | StoreFull

definition next_outcome :: "disk_file \<Rightarrow> disk_file \<times> io_outcome" where
  "next_outcome f = (case io_plan f of [] \<Rightarrow> (f, IoOk) | x # xs \<Rightarrow> (f\<lparr>io_plan := xs\<rparr>, x))"

definition overwrite :: "u8 list \<Rightarrow> nat \<Rightarrow> u8 list \<Rightarrow> u8 list" where
  "overwrite c pos data =
     take pos (c @ replicate (pos - length c) 0) @ data @ drop (pos + length data) c"

definition file_seek :: "disk_file \<Rightarrow> nat \<Rightarrow> disk_file \<times> (backend_error + unit)" where
  "file_seek f offset =
     (case next_outcome f of
        (f', IoOk) \<Rightarrow> (f'\<lparr>file_pos := offset\<rparr>, Ok ())
      | (f', IoFail _) \<Rightarrow> (f', Err IoError))"

definition file_put :: "disk_file \<Rightarrow> u8 list \<Rightarrow> disk_file" where
  "file_put f data = (if data = [] then f else
     f\<lparr>content := overwrite (content f) (file_pos f) data,
       file_pos := file_pos f + length data\<rparr>)"

definition file_write_all :: "disk_file \<Rightarrow> u8 list \<Rightarrow> disk_file \<times> (backend_error + unit)" where
  "file_write_all f data =
     (case next_outcome f of
        (f', IoOk) \<Rightarrow> (file_put f' data, Ok ())
      | (f', IoFail n) \<Rightarrow> (file_put f' (take n data), Err IoError))"

definition file_read_exact :: "disk_file \<Rightarrow> nat \<Rightarrow> disk_file \<times> (backend_error + u8 list)" where
  "file_read_exact f n =
     (case next_outcome f of
        (f', IoOk) \<Rightarrow>
          if file_pos f' + n \<le> length (content f')
          then (f'\<lparr>file_pos := file_pos f' + n\<rparr>, Ok (take n (drop (file_pos f') (content f'))))
          else (f'\<lparr>file_pos := max (file_pos f') (length (content f'))\<rparr>, Err IoError)
      | (f', IoFail _) \<Rightarrow> (f', Err IoError))"

definition file_set_len :: "disk_file \<Rightarrow> nat \<Rightarrow> disk_file \<times> (backend_error + unit)" where
  "file_set_len f n =
     (case next_outcome f of
        (f', IoOk) \<Rightarrow>
          (f'\<lparr>content := take n (content f') @ replicate (n - length (content f')) 0\<rparr>, Ok ())
      | (f', IoFail _) \<Rightarrow> (f', Err IoError))"

section \<open>Page store\<close>

record page_store =
  ps_file :: disk_file
  total_slots :: u64
  pages_written :: u64
  pages_read :: u64

record backend_stats =
  bs_pages_written :: u64
  bs_pages_read :: u64
  bs_bytes_written :: u64
  bs_bytes_read :: u64
  bs_slots_allocated :: u64
  bs_slots_freed :: u64

definition page_store_on :: "disk_file \<Rightarrow> u64 \<Rightarrow> page_store" where
  "page_store_on f slots = \<lparr>ps_file = f, total_slots = slots, pages_written = 0, pages_read = 0\<rparr>"

text \<open>
  \<open>opened\<close> is what \<open>OpenOptions::open\<close> returned: no file, or the file and its content;
  \<open>create_file\<close> truncates it (\<open>truncate(true)\<close>) and preallocates the slots.
\<close>

definition page_store_open :: "disk_file option \<Rightarrow> u64 \<Rightarrow> backend_error + page_store" where
  "page_store_open opened slots =
     (case opened of None \<Rightarrow> Err IoError | Some f \<Rightarrow> Ok (page_store_on f slots))"

definition page_store_create :: "disk_file option \<Rightarrow> u64 \<Rightarrow> backend_error + page_store" where
  "page_store_create opened slots =
     (case opened of
        None \<Rightarrow> Err IoError
      | Some f \<Rightarrow>
          let total_size = slots * word_of_nat PAGE_SIZE
          in case file_set_len (f\<lparr>content := []\<rparr>) (unat total_size) of
               (f', Inr _) \<Rightarrow> Ok (page_store_on f' slots)
             | (_, Inl e) \<Rightarrow> Err e)"

text \<open>The pad-or-truncate step of \<open>write_page\<close>: exactly one page reaches the file.\<close>

definition write_page_bytes :: "disk_file \<Rightarrow> u8 list \<Rightarrow> disk_file \<times> (backend_error + unit)" where
  "write_page_bytes f data =
     (if PAGE_SIZE \<le> length data then file_write_all f (take PAGE_SIZE data)
      else case file_write_all f data of
             (f', Inl e) \<Rightarrow> (f', Err e)
           | (f', Inr _) \<Rightarrow> file_write_all f' (replicate (PAGE_SIZE - length data) 0))"

definition write_page :: "page_store \<Rightarrow> u64 \<Rightarrow> u8 list \<Rightarrow> page_store \<times> (backend_error + unit)" where
  "write_page ps slot data =
     (if total_slots ps \<le> slot then (ps, Err (OutOfRange slot (total_slots ps)))
      else let offset = slot * word_of_nat PAGE_SIZE
      in case file_seek (ps_file ps) (unat offset) of
           (f1, Inl e) \<Rightarrow> (ps\<lparr>ps_file := f1\<rparr>, Err e)
         | (f1, Inr _) \<Rightarrow>
             (case write_page_bytes f1 data of
                (f2, Inl e) \<Rightarrow> (ps\<lparr>ps_file := f2\<rparr>, Err e)
              | (f2, Inr _) \<Rightarrow>
                  (ps\<lparr>ps_file := f2, pages_written := pages_written ps + 1\<rparr>, Ok ())))"

definition read_page :: "page_store \<Rightarrow> u64 \<Rightarrow> page_store \<times> (backend_error + u8 list)" where
  "read_page ps slot =
     (if total_slots ps \<le> slot then (ps, Err (OutOfRange slot (total_slots ps)))
      else let offset = slot * word_of_nat PAGE_SIZE
      in case file_seek (ps_file ps) (unat offset) of
           (f1, Inl e) \<Rightarrow> (ps\<lparr>ps_file := f1\<rparr>, Err e)
         | (f1, Inr _) \<Rightarrow>
             (case file_read_exact f1 PAGE_SIZE of
                (f2, Inl e) \<Rightarrow> (ps\<lparr>ps_file := f2\<rparr>, Err e)
              | (f2, Inr buf) \<Rightarrow>
                  (ps\<lparr>ps_file := f2, pages_read := pages_read ps + 1\<rparr>, Ok buf)))"

definition store_stats :: "page_store \<Rightarrow> backend_stats" where
  "store_stats ps =
     \<lparr>bs_pages_written = pages_written ps, bs_pages_read = pages_read ps, bs_bytes_written = 0,
      bs_bytes_read = 0, bs_slots_allocated = total_slots ps, bs_slots_freed = 0\<rparr>"

section \<open>Slot allocator\<close>

text \<open>The \<open>SegQueue\<close> is first-in first-out: \<open>pop\<close> takes the head, \<open>push\<close> appends.\<close>

record slot_allocator =
  free_slots :: "u64 list"
  next_slot :: u64
  max_slots :: u64

definition slot_allocator_new :: "u64 \<Rightarrow> slot_allocator" where
  "slot_allocator_new m = \<lparr>free_slots = [], next_slot = 0, max_slots = m\<rparr>"

definition allocate :: "slot_allocator \<Rightarrow> slot_allocator \<times> u64 option" where
  "allocate sa =
     (case free_slots sa of
        slot # rest \<Rightarrow> (sa\<lparr>free_slots := rest\<rparr>, Some slot)
      | [] \<Rightarrow>
          let slot = next_slot sa; sa1 = sa\<lparr>next_slot := next_slot sa + 1\<rparr>
          in if max_slots sa1 \<le> slot
             then (sa1\<lparr>next_slot := next_slot sa1 - 1\<rparr>, None)
             else (sa1, Some slot))"

definition free_slot_of :: "slot_allocator \<Rightarrow> u64 \<Rightarrow> slot_allocator" where
  "free_slot_of sa slot =
     (if slot < max_slots sa then sa\<lparr>free_slots := free_slots sa @ [slot]\<rparr> else sa)"

section \<open>Translation table\<close>

datatype mapping_kind = Direct | Deduplicated fingerprint

record translation_entry =
  kind :: mapping_kind
  backend_slot :: u64

type_synonym translation_table = "(u64 \<times> translation_entry) list"

definition entry_direct :: "u64 \<Rightarrow> translation_entry" where
  "entry_direct slot = \<lparr>kind = Direct, backend_slot = slot\<rparr>"

definition entry_deduplicated :: "fingerprint \<Rightarrow> u64 \<Rightarrow> translation_entry" where
  "entry_deduplicated fp slot = \<lparr>kind = Deduplicated fp, backend_slot = slot\<rparr>"

definition translation_new :: translation_table where
  "translation_new = []"

definition translation_insert ::
    "translation_table \<Rightarrow> u64 \<Rightarrow> translation_entry \<Rightarrow> translation_table \<times> translation_entry option" where
  "translation_insert tt off ent = (AList.update off ent tt, map_of tt off)"

definition translation_lookup :: "translation_table \<Rightarrow> u64 \<Rightarrow> translation_entry option" where
  "translation_lookup tt off = map_of tt off"

definition translation_remove ::
    "translation_table \<Rightarrow> u64 \<Rightarrow> translation_table \<times> translation_entry option" where
  "translation_remove tt off = (AList.delete off tt, map_of tt off)"

definition translation_len :: "translation_table \<Rightarrow> nat" where
  "translation_len tt = length tt"

end
