(* ===== verification/Dedup.thy ===== *)
theory Dedup
  imports Fingerprint
begin

text \<open>
  Model of \<open>crates/swap-proxy/src/dedup.rs\<close>: the Bloom filter and the reference-counted
  deduplication table with LRU eviction of metadata. The \<open>DashMap\<close> is an association
  list with distinct keys; each method is one atomic transition of the table (the methods
  interleave only at the level of the engine). Atomic counters are words that wrap.
\<close>

section \<open>Bloom filter\<close>

record bloom_filter =
  bloom_bits :: "u64 list"
  bloom_num_bits :: usize

text \<open>\<open>usize::next_power_of_two\<close>: on overflow the release build returns 0.\<close>

definition next_power_of_two :: "usize \<Rightarrow> usize" where
  "next_power_of_two w = (if unat w \<le> 1 then 1 else word_of_nat (2 ^ bit_len (unat w - 1)))"

definition bloom_new :: "usize \<Rightarrow> bloom_filter" where
  "bloom_new capacity =
     (let num_bits = max (next_power_of_two (capacity * 10)) 64;
          num_words = num_bits div 64
      in \<lparr>bloom_bits = replicate (unat num_words) 0, bloom_num_bits = num_bits\<rparr>)"

definition bloom_set :: "u64 list \<Rightarrow> usize \<Rightarrow> u64 list" where
  "bloom_set bs idx =
     (let word = unat (idx div 64); bit = unat (idx mod 64)
      in bs[word := bs ! word OR push_bit bit 1])"

definition bloom_test :: "u64 list \<Rightarrow> usize \<Rightarrow> bool" where
  "bloom_test bs idx =
     (let word = unat (idx div 64); bit = unat (idx mod 64)
      in bs ! word AND push_bit bit 1 \<noteq> 0)"

definition bloom_insert :: "bloom_filter \<Rightarrow> fingerprint \<Rightarrow> bloom_filter" where
  "bloom_insert b fp =
     b\<lparr>bloom_bits := foldl bloom_set (bloom_bits b) (bloom_indices fp (bloom_num_bits b))\<rparr>"

definition might_contain :: "bloom_filter \<Rightarrow> fingerprint \<Rightarrow> bool" where
  "might_contain b fp = list_all (bloom_test (bloom_bits b)) (bloom_indices fp (bloom_num_bits b))"

text \<open>
  Well-formed filters: at least one word, and exactly as many words as the bits need, so
  every index into \<open>bits\<close> is in range and no access panics.
\<close>

definition wf_bloom :: "bloom_filter \<Rightarrow> bool" where
  "wf_bloom b \<longleftrightarrow> 0 < unat (bloom_num_bits b) \<and> 64 dvd unat (bloom_num_bits b)
     \<and> length (bloom_bits b) = unat (bloom_num_bits b) div 64"

text \<open>The result is a power of two that fits, or 0 when \<open>2 ^ 64\<close> would be needed.\<close>

lemma next_power_of_two_cases:
  obtains k where "k < 64" "unat (next_power_of_two w) = 2 ^ k" | "next_power_of_two w = 0"
proof -
  have "unat w - 1 < 2 ^ 64"
    using unat_u64_less[of w] by linarith
  then have le: "bit_len (unat w - 1) \<le> 64" by (rule bit_len_le)
  show thesis
  proof (cases "unat w \<le> 1")
    case True
    then show thesis
      by (intro that(1)[of 0]) (auto simp: next_power_of_two_def)
  next
    case w: False
    show thesis
    proof (cases "bit_len (unat w - 1) = 64")
      case True
      have "(word_of_nat (2 ^ 64) :: usize) = 0"
        by (simp add: word_eq_iff_unsigned)
      with True w show thesis
        by (intro that(2)) (simp add: next_power_of_two_def)
    next
      case False
      with le have k: "bit_len (unat w - 1) < 64" by simp
      then have "(2::nat) ^ bit_len (unat w - 1) < 2 ^ 64"
        by (intro power_strict_increasing) auto
      then have "unat (word_of_nat (2 ^ bit_len (unat w - 1)) :: usize) = 2 ^ bit_len (unat w - 1)"
        by (subst unat_of_nat) simp
      with w k show thesis
        by (intro that(1)[of "bit_len (unat w - 1)"])
           (simp_all only: next_power_of_two_def if_False)
    qed
  qed
qed

lemma wf_bloom_new: "wf_bloom (bloom_new capacity)"
proof -
  define nb where "nb = max (next_power_of_two (capacity * 10)) 64"
  have "0 < unat nb \<and> 64 dvd unat nb"
  proof (cases rule: next_power_of_two_cases[of "capacity * 10"])
    case (1 k)
    show ?thesis
    proof (cases "k < 6")
      case True
      then have "(2::nat) ^ k < 2 ^ 6" by (intro power_strict_increasing) auto
      with 1 have "nb = 64"
        by (auto simp: nb_def max_def word_le_nat_alt)
      then show ?thesis by simp
    next
      case False
      then have "(2::nat) ^ 6 dvd 2 ^ k"
        by (intro le_imp_power_dvd) simp
      moreover from this have "(2::nat) ^ 6 \<le> 2 ^ k"
        by (rule dvd_imp_le) simp
      ultimately have "64 dvd (2::nat) ^ k" "64 \<le> (2::nat) ^ k"
        by simp_all
      with 1 show ?thesis
        by (auto simp: nb_def max_def word_le_nat_alt)
    qed
  next
    case 2
    then show ?thesis by (simp add: nb_def)
  qed
  then show ?thesis
    by (simp add: wf_bloom_def bloom_new_def Let_def nb_def[symmetric] unat_div)
qed

lemma wf_bloom_index:
  assumes "wf_bloom b" "i \<in> set (bloom_indices fp (bloom_num_bits b))"
  shows "unat (i div 64) < length (bloom_bits b)"
proof -
  have "unat i < unat (bloom_num_bits b)"
    using assms by (intro bloom_indices_less) (auto simp: wf_bloom_def)
  moreover obtain q where "unat (bloom_num_bits b) = 64 * q"
    using assms(1) by (auto simp: wf_bloom_def elim: dvdE)
  ultimately show ?thesis
    using assms(1) by (auto simp: wf_bloom_def unat_div)
qed

lemma bloom_test_bit:
  "bloom_test bs idx \<longleftrightarrow> bit (bs ! unat (idx div 64)) (unat (idx mod 64))"
  by (simp add: bloom_test_def Let_def bit_iff_and_push_bit_not_eq_0)

lemma length_bloom_set [simp]: "length (bloom_set bs idx) = length bs"
  by (simp add: bloom_set_def Let_def)

lemma unat_mod_64: "unat (idx mod 64 :: usize) < 64"
  by (simp add: unat_mod)

lemma bloom_test_set:
  assumes "unat (idx div 64) < length bs" "unat (idx' div 64) < length bs"
  shows "bloom_test (bloom_set bs idx) idx' \<longleftrightarrow> bloom_test bs idx' \<or> idx' = idx"
proof -
  have same: "idx' = idx" if "idx' div 64 = idx div 64" "idx' mod 64 = idx mod 64"
    using that div_mult_mod_eq[of idx 64] div_mult_mod_eq[of idx' 64] by simp
  have mods: "unat (idx' mod 64) = unat (idx mod 64) \<longleftrightarrow> idx' mod 64 = idx mod 64"
    "unat (idx' div 64) = unat (idx div 64) \<longleftrightarrow> idx' div 64 = idx div 64"
    "unat (idx div 64) = unat (idx' div 64) \<longleftrightarrow> idx' div 64 = idx div 64"
    by (auto simp: word_unat_eq_iff)
  show ?thesis
    using assms unat_mod_64[of idx] unat_mod_64[of idx'] same
    by (auto simp: bloom_test_bit bloom_set_def Let_def nth_list_update bit_or_iff
        bit_exp_iff mods)
qed

lemma bloom_test_foldl:
  assumes "\<forall>i \<in> set is. unat (i div 64) < length bs" "unat (idx div 64) < length bs"
  shows "bloom_test (foldl bloom_set bs is) idx \<longleftrightarrow> bloom_test bs idx \<or> idx \<in> set is"
  using assms by (induction "is" arbitrary: bs) (auto simp: bloom_test_set)

lemma length_foldl_bloom_set [simp]: "length (foldl bloom_set bs is) = length bs"
  by (induction "is" arbitrary: bs) auto

lemma wf_bloom_insert [simp]: "wf_bloom b \<Longrightarrow> wf_bloom (bloom_insert b fp)"
  by (simp add: wf_bloom_def bloom_insert_def)

text \<open>No false negatives, and insertion never forgets another fingerprint.\<close>

lemma might_contain_insert:
  assumes "wf_bloom b"
  shows "might_contain b fp' \<or> fp' = fp \<Longrightarrow> might_contain (bloom_insert b fp) fp'"
  using assms wf_bloom_index[OF assms]
  by (auto simp: might_contain_def list_all_iff bloom_insert_def bloom_test_foldl)

section \<open>The deduplication table\<close>

record dedup_entry =
  ref_count :: u32
  backend_offset :: u64
  entry_prefix :: "u8 list"

record dedup_table =
  dt_map :: "(fingerprint \<times> dedup_entry) list"
  dt_bloom :: bloom_filter
  max_entries :: u64
  lru :: "(fingerprint \<times> u64) list"
  unique_pages :: u64
  duplicate_hits :: u64
  bloom_false_positives :: u64
  evictions :: u64
  dt_tick :: u64

record dedup_stats =
  ds_unique_pages :: u64
  ds_duplicate_hits :: u64
  ds_bloom_false_positives :: u64
  ds_evictions :: u64
  ds_table_entries :: nat

datatype lookup_result = Miss | Duplicate u64

datatype reference_removal = StillReferenced | Removed u64 | NotTracked

definition dedup_new :: "u64 \<Rightarrow> usize \<Rightarrow> dedup_table" where
  "dedup_new maxe bloom_capacity =
     \<lparr>dt_map = [], dt_bloom = bloom_new bloom_capacity, max_entries = maxe, lru = [],
      unique_pages = 0, duplicate_hits = 0, bloom_false_positives = 0, evictions = 0,
      dt_tick = 0\<rparr>"

definition dedup_lookup :: "dedup_table \<Rightarrow> fingerprint \<Rightarrow> u8 list \<Rightarrow> dedup_table \<times> lookup_result" where
  "dedup_lookup t fp page_data =
     (if \<not> might_contain (dt_bloom t) fp then (t, Miss)
      else case map_of (dt_map t) fp of
        Some entry \<Rightarrow>
          if verify_page_prefix (entry_prefix entry) page_data
          then (t\<lparr>duplicate_hits := duplicate_hits t + 1\<rparr>, Duplicate (backend_offset entry))
          else (t\<lparr>bloom_false_positives := bloom_false_positives t + 1\<rparr>, Miss)
      | None \<Rightarrow> (t\<lparr>bloom_false_positives := bloom_false_positives t + 1\<rparr>, Miss))"

definition lru_retain :: "fingerprint \<Rightarrow> (fingerprint \<times> u64) list \<Rightarrow> (fingerprint \<times> u64) list" where
  "lru_retain fp xs = filter (\<lambda>(f, _). f \<noteq> fp) xs"

text \<open>
  \<open>evict_lru_metadata\<close>: the LRU list is sorted by tick in place, then the first candidate
  with a single reference loses its metadata.
\<close>

fun evict_loop :: "fingerprint list \<Rightarrow> dedup_table \<Rightarrow> bool \<times> dedup_table" where
  "evict_loop [] t = (False, t)"
| "evict_loop (fp # fps) t =
     (case map_of (dt_map t) fp of
        Some entry \<Rightarrow>
          if ref_count entry \<le> 1
          then (True, t\<lparr>dt_map := AList.delete fp (dt_map t),
                         evictions := evictions t + 1,
                         lru := lru_retain fp (lru t)\<rparr>)
          else evict_loop fps t
      | None \<Rightarrow> evict_loop fps t)"

definition evict_lru_metadata :: "dedup_table \<Rightarrow> bool \<times> dedup_table" where
  "evict_lru_metadata t =
     (if lru t = [] then (False, t)
      else let sorted = sort_key snd (lru t)
           in evict_loop (map fst sorted) (t\<lparr>lru := sorted\<rparr>))"

definition dedup_track :: "dedup_table \<Rightarrow> fingerprint \<Rightarrow> u8 list \<Rightarrow> u64 \<Rightarrow> dedup_table" where
  "dedup_track t fp page_data offset =
     t\<lparr>dt_map := AList.update fp
            \<lparr>ref_count = 1, backend_offset = offset, entry_prefix = page_prefix page_data\<rparr> (dt_map t),
       dt_bloom := bloom_insert (dt_bloom t) fp,
       unique_pages := unique_pages t + 1,
       lru := lru t @ [(fp, dt_tick t)],
       dt_tick := dt_tick t + 1\<rparr>"

definition dedup_insert ::
    "dedup_table \<Rightarrow> fingerprint \<Rightarrow> u8 list \<Rightarrow> u64 \<Rightarrow> dedup_table \<times> bool" where
  "dedup_insert t fp page_data offset =
     (if map_of (dt_map t) fp \<noteq> None then (t, False)
      else if unat (max_entries t) \<le> length (dt_map t)
      then case evict_lru_metadata t of
             (False, t') \<Rightarrow> (t', False)
           | (True, t') \<Rightarrow> (dedup_track t' fp page_data offset, True)
      else (dedup_track t fp page_data offset, True))"

fun lru_touch :: "fingerprint \<Rightarrow> u64 \<Rightarrow> (fingerprint \<times> u64) list \<Rightarrow> (fingerprint \<times> u64) list" where
  "lru_touch fp now [] = []"
| "lru_touch fp now ((f, t) # xs) = (if f = fp then (f, now) # xs else (f, t) # lru_touch fp now xs)"

definition dedup_add_reference :: "dedup_table \<Rightarrow> fingerprint \<Rightarrow> dedup_table \<times> bool" where
  "dedup_add_reference t fp =
     (case map_of (dt_map t) fp of
        Some entry \<Rightarrow>
          (t\<lparr>dt_map := AList.update fp (entry\<lparr>ref_count := ref_count entry + 1\<rparr>) (dt_map t),
             dt_tick := dt_tick t + 1,
             lru := lru_touch fp (dt_tick t) (lru t)\<rparr>, True)
      | None \<Rightarrow> (t, False))"

definition dedup_remove_reference :: "dedup_table \<Rightarrow> fingerprint \<Rightarrow> dedup_table \<times> reference_removal" where
  "dedup_remove_reference t fp =
     (case map_of (dt_map t) fp of
        Some entry \<Rightarrow>
          if ref_count entry \<le> 1
          then (t\<lparr>dt_map := AList.delete fp (dt_map t),
                  lru := lru_retain fp (lru t)\<rparr>,
                Removed (backend_offset entry))
          else (t\<lparr>dt_map := AList.update fp (entry\<lparr>ref_count := ref_count entry - 1\<rparr>) (dt_map t)\<rparr>,
                StillReferenced)
      | None \<Rightarrow> (t, NotTracked))"

definition dedup_stats_of :: "dedup_table \<Rightarrow> dedup_stats" where
  "dedup_stats_of t =
     \<lparr>ds_unique_pages = unique_pages t, ds_duplicate_hits = duplicate_hits t,
      ds_bloom_false_positives = bloom_false_positives t, ds_evictions = evictions t,
      ds_table_entries = length (dt_map t)\<rparr>"

end
