(* ===== verification/Engine.thy ===== *)
theory Engine
  imports Backend Dedup
begin

text \<open>
  Model of the storage engine in \<open>crates/swap-proxy/src/main.rs\<close> (\<open>ProxyStats\<close>,
  \<open>ProxyEngine\<close>, \<open>normalize_page\<close>): page writes with fingerprinting and deduplication,
  page reads and discards over the page store, the slot allocator, the translation table
  and the deduplication table. The state is passed explicitly; a fallible method returns
  the new state together with its \<open>Result\<close>, since a failing method may already have
  changed the state. The hash function \<open>h\<close> (crate \<open>xxhash-rust\<close>) is a parameter.
\<close>

record proxy_stats =
  total_writes :: u64
  unique_writes :: u64
  duplicate_writes :: u64
  total_reads :: u64
  discards :: u64

record proxy_engine =
  dedup_tab :: dedup_table
  pstore :: page_store
  translation :: translation_table
  slot_alloc :: slot_allocator
  pstats :: proxy_stats
  passthrough :: bool

definition proxy_stats_new :: proxy_stats where
  "proxy_stats_new =
     \<lparr>total_writes = 0, unique_writes = 0, duplicate_writes = 0, total_reads = 0, discards = 0\<rparr>"

text \<open>
  \<open>exists\<close> is \<open>store_path.exists()\<close>, \<open>dir_ok\<close> the outcome of \<open>create_dir_all\<close> and
  \<open>opened\<close> what the operating system returns for the file.
\<close>

definition slots_of_gb :: "u64 \<Rightarrow> u64" where
  "slots_of_gb size_gb = (size_gb * 1024 * 1024 * 1024) div word_of_nat PAGE_SIZE"

definition engine_new ::
    "bool \<Rightarrow> bool \<Rightarrow> disk_file option \<Rightarrow> u64 \<Rightarrow> u64 \<Rightarrow> usize \<Rightarrow> backend_error + proxy_engine" where
  "engine_new exists dir_ok opened size_gb maxe bloom_capacity =
     (let total = slots_of_gb size_gb;
          store = (if exists then page_store_open opened total
                   else if dir_ok then page_store_create opened total
                   else Err IoError)
      in case store of
           Inl e \<Rightarrow> Err e
         | Inr s \<Rightarrow> Ok \<lparr>dedup_tab = dedup_new maxe bloom_capacity, pstore = s,
                        translation = translation_new, slot_alloc = slot_allocator_new total,
                        pstats = proxy_stats_new, passthrough = True\<rparr>)"

definition allocate_slot :: "proxy_engine \<Rightarrow> proxy_engine \<times> (backend_error + u64)" where
  "allocate_slot e =
     (case allocate (slot_alloc e) of
        (sa, Some slot) \<Rightarrow> (e\<lparr>slot_alloc := sa\<rparr>, Ok slot)
      | (sa, None) \<Rightarrow> (e\<lparr>slot_alloc := sa\<rparr>, Err StoreFull))"

definition free_slot :: "proxy_engine \<Rightarrow> u64 \<Rightarrow> proxy_engine" where
  "free_slot e slot = e\<lparr>slot_alloc := free_slot_of (slot_alloc e) slot\<rparr>"

definition release_mapping :: "proxy_engine \<Rightarrow> translation_entry \<Rightarrow> proxy_engine" where
  "release_mapping e ent =
     (case kind ent of
        Direct \<Rightarrow> free_slot e (backend_slot ent)
      | Deduplicated fp \<Rightarrow>
          (case dedup_remove_reference (dedup_tab e) fp of
             (t, StillReferenced) \<Rightarrow> e\<lparr>dedup_tab := t\<rparr>
           | (t, Removed off) \<Rightarrow> free_slot (e\<lparr>dedup_tab := t\<rparr>) off
           | (t, NotTracked) \<Rightarrow> free_slot (e\<lparr>dedup_tab := t\<rparr>) (backend_slot ent)))"

definition replace_mapping :: "proxy_engine \<Rightarrow> u64 \<Rightarrow> translation_entry \<Rightarrow> proxy_engine" where
  "replace_mapping e off ent =
     (case translation_insert (translation e) off ent of
        (tt, None) \<Rightarrow> e\<lparr>translation := tt\<rparr>
      | (tt, Some old) \<Rightarrow> release_mapping (e\<lparr>translation := tt\<rparr>) old)"

definition write_page_to_slot ::
    "proxy_engine \<Rightarrow> u64 \<Rightarrow> page \<Rightarrow> proxy_engine \<times> (backend_error + unit)" where
  "write_page_to_slot e slot pg =
     (case write_page (pstore e) slot pg of (s, r) \<Rightarrow> (e\<lparr>pstore := s\<rparr>, r))"

definition count_unique :: "proxy_engine \<Rightarrow> proxy_engine" where
  "count_unique e = e\<lparr>pstats := (pstats e)\<lparr>unique_writes := unique_writes (pstats e) + 1\<rparr>\<rparr>"

definition write_direct ::
    "proxy_engine \<Rightarrow> u64 \<Rightarrow> page \<Rightarrow> proxy_engine \<times> (backend_error + unit)" where
  "write_direct e off pg =
     (case allocate_slot e of
        (e1, Inl err) \<Rightarrow> (e1, Err err)
      | (e1, Inr slot) \<Rightarrow>
          (case write_page_to_slot e1 slot pg of
             (e2, Inl err) \<Rightarrow> (free_slot e2 slot, Err err)
           | (e2, Inr _) \<Rightarrow> (replace_mapping (count_unique e2) off (entry_direct slot), Ok ())))"

definition write_unique_or_direct ::
    "proxy_engine \<Rightarrow> u64 \<Rightarrow> fingerprint \<Rightarrow> page \<Rightarrow> proxy_engine \<times> (backend_error + unit)" where
  "write_unique_or_direct e off fp pg =
     (case allocate_slot e of
        (e1, Inl err) \<Rightarrow> (e1, Err err)
      | (e1, Inr slot) \<Rightarrow>
          (case write_page_to_slot e1 slot pg of
             (e2, Inl err) \<Rightarrow> (free_slot e2 slot, Err err)
           | (e2, Inr _) \<Rightarrow>
               (let (t, inserted) = dedup_insert (dedup_tab e2) fp pg slot;
                    ent = (if inserted then entry_deduplicated fp slot else entry_direct slot)
                in (replace_mapping (count_unique (e2\<lparr>dedup_tab := t\<rparr>)) off ent, Ok ()))))"

definition normalize_page :: "u8 list \<Rightarrow> page" where
  "normalize_page data =
     (let page = replicate PAGE_SIZE 0; len = min (length data) PAGE_SIZE
      in take len data @ drop len page)"

text \<open>The \<open>Duplicate\<close> branch of \<open>handle_write\<close>: read back, compare, add a reference.\<close>

definition write_duplicate ::
    "proxy_engine \<Rightarrow> u64 \<Rightarrow> fingerprint \<Rightarrow> page \<Rightarrow> u64 \<Rightarrow> proxy_engine \<times> (backend_error + unit)" where
  "write_duplicate e off fp pg slot =
     (case read_page (pstore e) slot of
        (s, Inl err) \<Rightarrow> (e\<lparr>pstore := s\<rparr>, Err err)
      | (s, Inr stored_page) \<Rightarrow>
          (let e1 = e\<lparr>pstore := s\<rparr>
           in if stored_page = pg
              then case dedup_add_reference (dedup_tab e1) fp of
                     (t, True) \<Rightarrow>
                       (replace_mapping
                          (e1\<lparr>dedup_tab := t,
                              pstats := (pstats e1)\<lparr>duplicate_writes := duplicate_writes (pstats e1) + 1\<rparr>\<rparr>)
                          off (entry_deduplicated fp slot), Ok ())
                   | (t, False) \<Rightarrow> write_unique_or_direct (e1\<lparr>dedup_tab := t\<rparr>) off fp pg
              else write_unique_or_direct e1 off fp pg))"

definition handle_write ::
    "hash \<Rightarrow> proxy_engine \<Rightarrow> u64 \<Rightarrow> u8 list \<Rightarrow> proxy_engine \<times> (backend_error + unit)" where
  "handle_write h e off data =
     (let e0 = e\<lparr>pstats := (pstats e)\<lparr>total_writes := total_writes (pstats e) + 1\<rparr>\<rparr>;
          pg = normalize_page data
      in if passthrough e0 then write_direct e0 off pg
      else let fp = fingerprint_page h pg
      in case dedup_lookup (dedup_tab e0) fp pg of
           (t, Duplicate slot) \<Rightarrow> write_duplicate (e0\<lparr>dedup_tab := t\<rparr>) off fp pg slot
         | (t, Miss) \<Rightarrow> write_unique_or_direct (e0\<lparr>dedup_tab := t\<rparr>) off fp pg)"

definition handle_read :: "proxy_engine \<Rightarrow> u64 \<Rightarrow> proxy_engine \<times> (backend_error + page)" where
  "handle_read e off =
     (let e0 = e\<lparr>pstats := (pstats e)\<lparr>total_reads := total_reads (pstats e) + 1\<rparr>\<rparr>
      in case translation_lookup (translation e0) off of
           None \<Rightarrow> (e0, Ok (replicate PAGE_SIZE 0))
         | Some ent \<Rightarrow>
             (case read_page (pstore e0) (backend_slot ent) of (s, r) \<Rightarrow> (e0\<lparr>pstore := s\<rparr>, r)))"

definition handle_discard :: "proxy_engine \<Rightarrow> u64 \<Rightarrow> proxy_engine" where
  "handle_discard e off =
     (let e0 = e\<lparr>pstats := (pstats e)\<lparr>discards := discards (pstats e) + 1\<rparr>\<rparr>
      in case translation_remove (translation e0) off of
           (tt, None) \<Rightarrow> e0\<lparr>translation := tt\<rparr>
         | (tt, Some ent) \<Rightarrow> release_mapping (e0\<lparr>translation := tt\<rparr>) ent)"

section \<open>The statistics report\<close>

text \<open>
  \<open>print_stats\<close> writes labelled counters; \<open>Ratio d t\<close> is the percentage \<open>d / t\<close> (a
  literal 0 when nothing was written), printed with one decimal.
\<close>

datatype report_line = Heading string | Counter string nat | Ratio string "(nat \<times> nat) option"

definition print_stats :: "proxy_engine \<Rightarrow> report_line list" where
  "print_stats e =
     (let st = pstats e; total_w = unat (total_writes st); dup_w = unat (duplicate_writes st);
          ds = dedup_stats_of (dedup_tab e)
      in [Heading ''=== animaksm swap proxy statistics ==='',
          Heading ''Write Operations:'',
          Counter ''Total writes'' total_w,
          Counter ''Unique writes'' (unat (unique_writes st)),
          Counter ''Duplicate (deduped)'' dup_w,
          Ratio ''Dedup ratio'' (if 0 < total_w then Some (dup_w, total_w) else None),
          Heading ''Read Operations:'',
          Counter ''Total reads'' (unat (total_reads st)),
          Counter ''Discards'' (unat (discards st)),
          Heading ''Dedup Table:'',
          Counter ''Unique pages tracked'' (ds_table_entries ds),
          Counter ''Total unique seen'' (unat (ds_unique_pages ds)),
          Counter ''Duplicate hits'' (unat (ds_duplicate_hits ds)),
          Counter ''Evictions'' (unat (ds_evictions ds)),
          Counter ''Bloom false positives'' (unat (ds_bloom_false_positives ds))])"

end
