(* ===== verification/Ownership.thy ===== *)
theory Ownership
  imports Backend Dedup
begin

text \<open>
  Who owns which backend slot. The books of the engine are the multiset of live translation
  entries, the tracked fingerprints with their reference counts, and the free slots. The
  predicate \<open>books\<close> says that they agree: a slot is free or used, never both; an exclusive
  slot has one user; a tracked slot has exactly as many users as references, all of the
  same fingerprint; no slot leaks. Each lemma is one elementary step of the engine.
\<close>

type_synonym tracking = "fingerprint \<Rightarrow> (nat \<times> u64) option"

definition users :: "translation_entry multiset \<Rightarrow> u64 \<Rightarrow> nat" where
  "users M s = size (filter_mset (\<lambda>x. backend_slot x = s) M)"

definition exclusive :: "tracking \<Rightarrow> translation_entry \<Rightarrow> bool" where
  "exclusive TR x \<longleftrightarrow> (case kind x of Direct \<Rightarrow> True | Deduplicated fp \<Rightarrow> TR fp = None)"

definition books ::
    "translation_entry multiset \<Rightarrow> tracking \<Rightarrow> u64 set \<Rightarrow> u64 \<Rightarrow> bool" where
  "books M TR A m \<longleftrightarrow>
     (\<forall>x \<in># M. backend_slot x < m \<and> backend_slot x \<notin> A)
     \<and> (\<forall>x \<in># M. exclusive TR x \<longrightarrow> users M (backend_slot x) = 1)
     \<and> (\<forall>x \<in># M. \<forall>fp c s. kind x = Deduplicated fp \<longrightarrow> TR fp = Some (c, s) \<longrightarrow> backend_slot x = s)
     \<and> (\<forall>fp c s. TR fp = Some (c, s) \<longrightarrow>
          0 < c \<and> c = users M s \<and> c = count M (entry_deduplicated fp s))
     \<and> (\<forall>s < m. s \<in> A \<or> 0 < users M s)"

definition orphan :: "translation_entry multiset \<Rightarrow> tracking \<Rightarrow> fingerprint \<Rightarrow> bool" where
  "orphan M TR fp \<longleftrightarrow> TR fp = None \<and> (\<exists>x \<in># M. kind x = Deduplicated fp)"

lemma entry_simps [simp]:
  "kind (entry_direct s) = Direct" "backend_slot (entry_direct s) = s"
  "kind (entry_deduplicated fp s) = Deduplicated fp" "backend_slot (entry_deduplicated fp s) = s"
  by (simp_all add: entry_direct_def entry_deduplicated_def)

lemma entry_eq_dedup: "kind x = Deduplicated fp \<Longrightarrow> x = entry_deduplicated fp (backend_slot x)"
  by (simp add: entry_deduplicated_def)

lemma entry_dedup_inject [simp]:
  "entry_deduplicated fp s = entry_deduplicated fp' s' \<longleftrightarrow> fp = fp' \<and> s = s'"
  "entry_direct s \<noteq> entry_deduplicated fp' s'" "entry_deduplicated fp' s' \<noteq> entry_direct s"
  by (auto simp: entry_deduplicated_def entry_direct_def)

lemma users_add [simp]: "users (add_mset x M) s = (if backend_slot x = s then Suc (users M s) else users M s)"
  by (simp add: users_def)

lemma users_remove:
  "x \<in># M \<Longrightarrow> users (M - {#x#}) s = (if backend_slot x = s then users M s - 1 else users M s)"
  by (auto simp: users_def size_Diff_singleton)

lemma users_pos: "x \<in># M \<Longrightarrow> 0 < users M (backend_slot x)"
  by (auto simp: users_def dest!: multi_member_split)

lemma users_zero: "users M s = 0 \<longleftrightarrow> (\<forall>x \<in># M. backend_slot x \<noteq> s)"
  by (auto simp: users_def filter_mset_eq_conv size_eq_0_iff_empty multiset_eq_iff count_eq_zero_iff)

lemma users_one_unique:
  assumes "users M s = 1" "x \<in># M" "backend_slot x = s" "y \<in># M - {#x#}"
  shows "backend_slot y \<noteq> s"
proof -
  have "users (M - {#x#}) s = 0" using assms by (simp add: users_remove)
  then show ?thesis using assms(4) by (simp add: users_zero)
qed

lemma count_le_users: "count M (entry_deduplicated fp s) \<le> users M s"
  unfolding users_def by (metis (mono_tags, lifting) count_filter_mset count_le_size entry_simps(4))

lemma all_users_same:
  assumes "users M s = count M (entry_deduplicated fp s)" "x \<in># M" "backend_slot x = s"
  shows "x = entry_deduplicated fp s"
proof (rule ccontr)
  assume ne: "x \<noteq> entry_deduplicated fp s"
  obtain N where N: "M = add_mset x N" using assms(2) by (metis multi_member_split)
  with ne assms(1,3) count_le_users[of N fp s] show False by auto
qed

text \<open>The three clauses of \<open>books\<close> that are used as rules.\<close>

lemma booksI:
  assumes "\<And>x. x \<in># M \<Longrightarrow> backend_slot x < m \<and> backend_slot x \<notin> A"
    and "\<And>x. x \<in># M \<Longrightarrow> exclusive TR x \<Longrightarrow> users M (backend_slot x) = 1"
    and "\<And>x fp c s. x \<in># M \<Longrightarrow> kind x = Deduplicated fp \<Longrightarrow> TR fp = Some (c, s) \<Longrightarrow> backend_slot x = s"
    and "\<And>fp c s. TR fp = Some (c, s) \<Longrightarrow>
          0 < c \<and> c = users M s \<and> c = count M (entry_deduplicated fp s)"
    and "\<And>s. s < m \<Longrightarrow> s \<in> A \<or> 0 < users M s"
  shows "books M TR A m"
  unfolding books_def using assms by blast

lemma booksD:
  assumes "books M TR A m" "x \<in># M"
  shows "backend_slot x < m" "backend_slot x \<notin> A"
    "exclusive TR x \<Longrightarrow> users M (backend_slot x) = 1"
    "kind x = Deduplicated fp \<Longrightarrow> TR fp = Some (c, s) \<Longrightarrow> backend_slot x = s"
  using assms unfolding books_def by blast+

lemma books_complete: "books M TR A m \<Longrightarrow> s < m \<Longrightarrow> s \<in> A \<or> 0 < users M s"
  by (simp add: books_def)

lemma exclusive_simps [simp]:
  "exclusive TR (entry_direct s)"
  "exclusive TR (entry_deduplicated fp s) \<longleftrightarrow> TR fp = None"
  by (simp_all add: exclusive_def)

lemma exclusive_upd: "exclusive (TR(fp \<mapsto> v)) x \<longleftrightarrow> exclusive TR x \<and> kind x \<noteq> Deduplicated fp"
  by (auto simp: exclusive_def split: mapping_kind.splits)

lemma books_trackedD:
  assumes "books M TR A m" "TR fp = Some (c, s)"
  shows "0 < c" "users M s = c" "count M (entry_deduplicated fp s) = c"
    "entry_deduplicated fp s \<in># M"
proof -
  have *: "0 < c \<and> c = users M s \<and> c = count M (entry_deduplicated fp s)"
    using assms unfolding books_def by blast
  then show "0 < c" "users M s = c" "count M (entry_deduplicated fp s) = c" by simp_all
  from * have "0 < count M (entry_deduplicated fp s)" by linarith
  then show "entry_deduplicated fp s \<in># M" by (simp only: count_greater_zero_iff)
qed

lemma books_tracked_user:
  assumes "books M TR A m" "TR fp = Some (c, s)" "x \<in># M" "backend_slot x = s"
  shows "x = entry_deduplicated fp s"
  using books_trackedD(2,3)[OF assms(1,2)] assms(3,4) by (metis all_users_same)

lemma books_free_unused:
  assumes "books M TR A m" "s \<in> A"
  shows "users M s = 0" "TR fp = Some (c, s') \<Longrightarrow> s' \<noteq> s" "x \<in># M \<Longrightarrow> backend_slot x \<noteq> s"
proof -
  show u: "users M s = 0" using assms by (auto simp: users_zero dest: booksD(2))
  show "TR fp = Some (c, s') \<Longrightarrow> s' \<noteq> s"
    using books_trackedD(1,2)[OF assms(1), of fp c s'] u by auto
  show "x \<in># M \<Longrightarrow> backend_slot x \<noteq> s" using u by (simp add: users_zero)
qed

lemma books_add_direct:
  assumes b: "books M TR A m" and s: "s \<in> A" "s < m"
  shows "books (add_mset (entry_direct s) M) TR (A - {s}) m"
proof (rule booksI, goal_cases)
  case (4 fp c s')
  then show ?case using books_trackedD(1-3)[OF b 4] books_free_unused(2)[OF b s(1) 4] by simp
next
  case (5 s')
  then show ?case using books_complete[OF b 5] by auto
qed (use s booksD[OF b] books_free_unused(1,3)[OF b s(1)] in auto)

lemma books_add_tracked:
  assumes b: "books M TR A m" and s: "s \<in> A" "s < m" and new: "TR fp = None" "\<not> orphan M TR fp"
  shows "books (add_mset (entry_deduplicated fp s) M) (TR(fp \<mapsto> (1, s))) (A - {s}) m"
proof (rule booksI, goal_cases)
  case (2 x)
  then show ?case
    using booksD(3)[OF b] books_free_unused(3)[OF b s(1)] by (auto simp: exclusive_upd)
next
  case (3 x f c s')
  have "kind y \<noteq> Deduplicated fp" if "y \<in># M" for y using new that by (auto simp: orphan_def)
  with 3 show ?case using booksD(4)[OF b] by (auto split: if_splits)
next
  case (4 f c s')
  show ?case
  proof (cases "f = fp")
    case True
    have "count M (entry_deduplicated fp s) = 0"
      using count_le_users[of M fp s] books_free_unused(1)[OF b s(1)] by simp
    with True 4 books_free_unused(1)[OF b s(1)] show ?thesis by simp
  next
    case False
    with 4 have t: "TR f = Some (c, s')" by simp
    with False show ?thesis
      using books_trackedD(1-3)[OF b t] books_free_unused(2)[OF b s(1) t] by auto
  qed
next
  case (5 s')
  then show ?case using books_complete[OF b 5] by auto
qed (use s booksD[OF b] books_free_unused(1,3)[OF b s(1)] in auto)

lemma books_untrack:
  assumes b: "books M TR A m" and t: "TR v = Some (c, s)" "c \<le> 1"
  shows "books M (TR(v := None)) A m"
proof (rule booksI, goal_cases)
  case (2 x)
  show ?case
  proof (cases "kind x = Deduplicated v")
    case True
    then show ?thesis
      using booksD(4)[OF b 2(1) True t(1)] books_trackedD(1,2)[OF b t(1)] t(2) by simp
  next
    case False
    then have "exclusive TR x" using 2(2) by (auto simp: exclusive_def split: mapping_kind.splits)
    then show ?thesis using booksD(3)[OF b 2(1)] by simp
  qed
next
  case (4 fp c s)
  then show ?case using books_trackedD[OF b] by (auto split: if_splits)
next
  case (5 s)
  then show ?case using books_complete[OF b] by simp
qed (use booksD[OF b] in \<open>auto split: if_splits\<close>)

lemma books_tracked_distinct:
  assumes "books M TR A m" "TR fp = Some (c, s)" "TR f = Some (c', s')" "f \<noteq> fp"
  shows "s' \<noteq> s"
  using books_tracked_user[OF assms(1,2) books_trackedD(4)[OF assms(1,3)]] assms(4) by auto

lemma books_exclusive_slot:
  assumes "books M TR A m" "TR fp = Some (c, s)" "x \<in># M" "exclusive TR x"
  shows "backend_slot x \<noteq> s"
proof
  assume "backend_slot x = s"
  from books_tracked_user[OF assms(1-3) this] assms(2,4) show False by simp
qed

lemma books_add_ref:
  assumes b: "books M TR A m" and t: "TR fp = Some (c, s)"
  shows "books (add_mset (entry_deduplicated fp s) M) (TR(fp \<mapsto> (Suc c, s))) A m"
proof (rule booksI, goal_cases)
  case (1 x)
  then show ?case using booksD(1,2)[OF b] booksD(1,2)[OF b books_trackedD(4)[OF b t]] by auto
next
  case (2 x)
  then have "x \<in># M" "exclusive TR x" by (auto simp: exclusive_upd)
  then show ?case using booksD(3)[OF b] books_exclusive_slot[OF b t] by fastforce
next
  case (3 x f c' s')
  then show ?case using booksD(4)[OF b] t by (auto split: if_splits)
next
  case (4 f c' s')
  then show ?case
    using books_trackedD[OF b] t books_tracked_distinct[OF b t, of f c' s'] by (auto split: if_splits)
next
  case (5 s')
  then show ?case using books_complete[OF b 5] by auto
qed

section \<open>Releasing an entry\<close>

lemma books_release_exclusive:
  assumes b: "books M TR A m" and x: "x \<in># M" and ex: "exclusive TR x"
  shows "books (M - {#x#}) TR (insert (backend_slot x) A) m"
proof (rule booksI, goal_cases)
  case (1 y)
  then show ?case
    using users_one_unique[OF booksD(3)[OF b x ex] x refl 1] booksD(1,2)[OF b in_diffD[OF 1]] by simp
next
  case (2 y)
  then show ?case
    using users_one_unique[OF booksD(3)[OF b x ex] x refl 2(1)] booksD(3)[OF b in_diffD[OF 2(1)]] x
    by (simp add: users_remove)
next
  case (3 y f c s)
  then show ?case using booksD(4)[OF b in_diffD[OF 3(1)]] by blast
next
  case (4 f c s)
  have "entry_deduplicated f s \<noteq> x" using ex 4 by auto
  moreover have "backend_slot x \<noteq> s" by (rule books_exclusive_slot[OF b 4 x ex])
  ultimately show ?case using books_trackedD[OF b 4] x by (simp add: users_remove)
next
  case (5 s)
  then show ?case using books_complete[OF b 5] x by (auto simp: users_remove)
qed

lemma books_release_last:
  assumes b: "books M TR A m" and x: "x \<in># M" "kind x = Deduplicated fp"
    and t: "TR fp = Some (c, s)" "c \<le> 1"
  shows "books (M - {#x#}) (TR(fp := None)) (insert s A) m"
proof -
  have "backend_slot x = s" by (rule booksD(4)[OF b x t(1)])
  moreover have "exclusive (TR(fp := None)) x" using x(2) by (simp add: exclusive_def)
  ultimately show ?thesis
    using books_release_exclusive[OF books_untrack[OF b t] x(1)] by simp
qed

lemma books_release_shared:
  assumes b: "books M TR A m" and x: "x \<in># M" "kind x = Deduplicated fp"
    and t: "TR fp = Some (c, s)" "1 < c"
  shows "books (M - {#x#}) (TR(fp \<mapsto> (c - 1, s))) A m"
proof (rule booksI, goal_cases)
  have s: "backend_slot x = s" by (rule booksD(4)[OF b x t(1)])
  have xe: "x = entry_deduplicated fp s" using entry_eq_dedup[OF x(2)] s by simp
  {
    case (1 y)
    then show ?case using booksD(1,2)[OF b in_diffD[OF 1]] by simp
  next
    case (2 y)
    then have y: "y \<in># M" "exclusive TR y" by (auto simp: exclusive_upd dest: in_diffD)
    show ?case using booksD(3)[OF b y] books_exclusive_slot[OF b t(1) y] x(1) s
      by (simp add: users_remove)
  next
    case (3 y f c' s')
    then show ?case using booksD(4)[OF b in_diffD[OF 3(1)]] t by (auto split: if_splits)
  next
    case (4 f c' s')
    show ?case
    proof (cases "f = fp")
      case True
      with 4 t(2) books_trackedD[OF b t(1)] x(1) s xe show ?thesis by (auto simp: users_remove)
    next
      case False
      with 4 have f: "TR f = Some (c', s')" by simp
      show ?thesis
        using books_trackedD[OF b f] books_tracked_distinct[OF b t(1) f False] x(1) s xe False
        by (auto simp: users_remove)
    qed
  next
    case (5 s')
    then show ?case
      using books_complete[OF b 5] x(1) s books_trackedD(2)[OF b t(1)] t(2) by (auto simp: users_remove)
  }
qed

lemmas books_steps = books_add_direct books_add_tracked books_add_ref books_untrack
  books_release_exclusive books_release_last books_release_shared

end
