(* ===== verification/Backend_Laws.thy ===== *)
theory Backend_Laws
  imports Backend
begin

text \<open>
  Correctness of the storage components of theory \<open>Backend\<close>: the page store as an array
  of pages (locale \<open>page_array\<close>) and the slot allocator as a pool that never hands out a
  slot twice (locale \<open>slot_pool\<close>), both interpreted on the model's operations.
\<close>

section \<open>Overwriting a byte range\<close>

lemma length_overwrite [simp]: "length (overwrite c pos d) = max (length c) (pos + length d)"
  by (auto simp: overwrite_def)

lemma nth_overwrite:
  assumes "i < max (length c) (pos + length d)"
  shows "overwrite c pos d ! i =
    (if i < pos then if i < length c then c ! i else 0
     else if i < pos + length d then d ! (i - pos) else c ! i)"
  using assms by (auto simp: overwrite_def nth_append min_def)

lemma overwrite_append:
  "overwrite (overwrite c pos a) (pos + length a) b = overwrite c pos (a @ b)"
  by (rule nth_equalityI) (auto simp: nth_overwrite nth_append)

lemma take_drop_overwrite_same:
  "take (length d) (drop pos (overwrite c pos d)) = d"
  by (rule nth_equalityI) (auto simp: nth_overwrite)

lemma take_drop_overwrite_other:
  assumes "q + n \<le> length c" "q + n \<le> pos \<or> pos + length d \<le> q"
  shows "take n (drop q (overwrite c pos d)) = take n (drop q c)"
  by (rule nth_equalityI) (use assms in \<open>auto simp: nth_overwrite\<close>)

section \<open>Pages in the store\<close>

definition slot_page :: "page_store \<Rightarrow> u64 \<Rightarrow> page option" where
  "slot_page ps slot =
     (if slot < total_slots ps \<and> (unat slot + 1) * PAGE_SIZE \<le> length (content (ps_file ps))
      then Some (take PAGE_SIZE (drop (unat slot * PAGE_SIZE) (content (ps_file ps))))
      else None)"

definition ps_inv :: "page_store \<Rightarrow> bool" where
  "ps_inv ps \<longleftrightarrow> unat (total_slots ps) * PAGE_SIZE \<le> 2 ^ 64"

definition padded :: "u8 list \<Rightarrow> page" where
  "padded data = take PAGE_SIZE data @ replicate (PAGE_SIZE - length data) 0"

lemma length_padded [simp, page_simps]: "length (padded d) = PAGE_SIZE"
  by (auto simp: padded_def)

lemma padded_padded [simp, page_simps]: "padded (padded d) = padded d"
  by (simp add: padded_def)

lemma PAGE_SIZE_pos [simp]: "0 < PAGE_SIZE"
  by (simp add: PAGE_SIZE_def)

lemma slot_offset:
  assumes "ps_inv ps" "slot < total_slots ps"
  shows "unat (slot * word_of_nat PAGE_SIZE) = unat slot * PAGE_SIZE"
proof -
  have "unat slot * 4096 < 2 ^ 64"
    using assms by (simp add: ps_inv_def PAGE_SIZE_def word_less_nat_alt)
  then show ?thesis by (simp add: unat_word_ariths PAGE_SIZE_def)
qed

text \<open>
  What a write to \<open>slot\<close> does to the file, whatever its outcome: some bytes, at most a
  page, land at the slot's offset.
\<close>

definition wrote_at :: "page_store \<Rightarrow> u64 \<Rightarrow> u8 list \<Rightarrow> page_store \<Rightarrow> bool" where
  "wrote_at ps slot d ps' \<longleftrightarrow> total_slots ps' = total_slots ps \<and> length d \<le> PAGE_SIZE \<and>
     content (ps_file ps') = (if d = [] then content (ps_file ps)
       else overwrite (content (ps_file ps)) (unat slot * PAGE_SIZE) d)"

lemma slots_disjoint:
  assumes "slot \<noteq> s'"
  shows "(unat s' + 1) * PAGE_SIZE \<le> unat slot * PAGE_SIZE \<or>
    (unat slot + 1) * PAGE_SIZE \<le> unat s' * PAGE_SIZE"
proof -
  have "unat slot \<noteq> unat s'" using assms by (simp add: word_unat_eq_iff)
  then have "unat s' + 1 \<le> unat slot \<or> unat slot + 1 \<le> unat s'" by linarith
  then show ?thesis
    using mult_le_mono1[of "unat s' + 1" "unat slot" PAGE_SIZE]
      mult_le_mono1[of "unat slot + 1" "unat s'" PAGE_SIZE] by blast
qed

lemma wrote_at_other:
  assumes "wrote_at ps slot d ps'" "slot \<noteq> s'" "slot_page ps s' = Some p"
  shows "slot_page ps' s' = Some p"
proof (cases "d = []")
  case True
  with assms show ?thesis by (auto simp: wrote_at_def slot_page_def split: if_splits)
next
  case False
  let ?c = "content (ps_file ps)" and ?q = "unat s' * PAGE_SIZE"
  from assms(3) have s': "s' < total_slots ps" "?q + PAGE_SIZE \<le> length ?c"
    "p = take PAGE_SIZE (drop ?q ?c)"
    by (auto simp: slot_page_def algebra_simps split: if_splits)
  have "?q + PAGE_SIZE \<le> unat slot * PAGE_SIZE \<or> unat slot * PAGE_SIZE + length d \<le> ?q"
    using slots_disjoint[OF assms(2)] assms(1) by (auto simp: wrote_at_def algebra_simps)
  then have "take PAGE_SIZE (drop ?q (overwrite ?c (unat slot * PAGE_SIZE) d)) = p"
    using s' by (simp add: take_drop_overwrite_other)
  with False assms(1) s' show ?thesis
    by (simp add: wrote_at_def slot_page_def algebra_simps)
qed

lemma wrote_at_same:
  assumes "wrote_at ps slot d ps'" "length d = PAGE_SIZE" "slot < total_slots ps"
  shows "slot_page ps' slot = Some d"
proof -
  have "d \<noteq> []" using assms(2) by (auto simp: PAGE_SIZE_def)
  moreover have "take PAGE_SIZE (drop (unat slot * PAGE_SIZE)
      (overwrite (content (ps_file ps)) (unat slot * PAGE_SIZE) d)) = d"
    using take_drop_overwrite_same[of d] assms(2) by simp
  ultimately show ?thesis
    using assms by (simp add: wrote_at_def slot_page_def algebra_simps)
qed

lemma next_outcome_fields [simp]:
  "next_outcome f = (f', r) \<Longrightarrow> content f' = content f \<and> file_pos f' = file_pos f"
  by (auto simp: next_outcome_def split: list.splits)

lemma file_seek_cases:
  assumes "file_seek f n = (f', r)"
  shows "content f' = content f" "r = Ok () \<Longrightarrow> file_pos f' = n"
  using assms by (auto simp: file_seek_def split: prod.splits io_outcome.splits)

lemma file_put_cong:
  assumes "content f = content g" "file_pos f = file_pos g"
  shows "content (file_put f d) = content (file_put g d)" "file_pos (file_put f d) = file_pos (file_put g d)"
  using assms by (simp_all add: file_put_def)

lemma file_put_put: "file_put (file_put f a) b = file_put f (a @ b)"
  by (auto simp: file_put_def overwrite_append)

lemma file_write_all_cases:
  assumes "file_write_all f d = (f', r)"
  obtains m where "content f' = content (file_put f (take m d))"
    "file_pos f' = file_pos (file_put f (take m d))" "r = Ok () \<Longrightarrow> take m d = d"
proof -
  obtain g x where g: "next_outcome f = (g, x)" by (cases "next_outcome f")
  then have c: "content g = content f" "file_pos g = file_pos f" by simp_all
  show thesis
  proof (cases x)
    case IoOk
    with assms g have "f' = file_put g d" by (simp add: file_write_all_def)
    with file_put_cong[OF c] show thesis by (intro that[of "length d"]) simp_all
  next
    case (IoFail m)
    with assms g have "f' = file_put g (take m d)" "r = Err IoError"
      by (simp_all add: file_write_all_def)
    with file_put_cong[OF c] show thesis by (intro that[of m]) simp_all
  qed
qed

lemma wrote_atI:
  assumes "total_slots ps' = total_slots ps" "length d \<le> PAGE_SIZE"
    "content f = content (ps_file ps)" "file_pos f = unat slot * PAGE_SIZE"
    "content (ps_file ps') = content (file_put f d)"
  shows "wrote_at ps slot d ps'"
  using assms by (simp add: wrote_at_def file_put_def)

lemma file_write_all_error: "file_write_all f d = (f', r) \<Longrightarrow> r \<noteq> Err StoreFull"
  by (auto simp: file_write_all_def split: prod.splits io_outcome.splits)

lemma write_page_bytes_cases:
  assumes "write_page_bytes f data = (f', r)"
  obtains d where "content f' = content (file_put f d)" "length d \<le> PAGE_SIZE"
    "r = Ok () \<Longrightarrow> d = padded data" "r \<noteq> Err StoreFull"
proof (cases "PAGE_SIZE \<le> length data")
  case True
  with assms have w: "file_write_all f (take PAGE_SIZE data) = (f', r)"
    by (simp add: write_page_bytes_def)
  then obtain m where "content f' = content (file_put f (take m (take PAGE_SIZE data)))"
    "r = Ok () \<Longrightarrow> take m (take PAGE_SIZE data) = take PAGE_SIZE data"
    using file_write_all_cases by metis
  with file_write_all_error[OF w] True show thesis
    by (intro that[of "take m (take PAGE_SIZE data)"]) (auto simp: padded_def)
next
  case short: False
  obtain f1 r1 where w: "file_write_all f data = (f1, r1)" by (cases "file_write_all f data")
  obtain m where m: "content f1 = content (file_put f (take m data))"
    "file_pos f1 = file_pos (file_put f (take m data))" "r1 = Ok () \<Longrightarrow> take m data = data"
    using file_write_all_cases[OF w] by blast
  show thesis
  proof (cases r1)
    case (Inl e)
    with assms short w have "f' = f1" "r = Err e" by (auto simp: write_page_bytes_def)
    with m short Inl file_write_all_error[OF w] show thesis
      by (intro that[of "take m data"]) auto
  next
    case (Inr u)
    let ?z = "replicate (PAGE_SIZE - length data) (0 :: u8)"
    from assms short w Inr have w2: "file_write_all f1 ?z = (f', r)"
      by (simp add: write_page_bytes_def)
    then obtain k where k: "content f' = content (file_put f1 (take k ?z))"
      "r = Ok () \<Longrightarrow> take k ?z = ?z"
      using file_write_all_cases by metis
    have "content f1 = content (file_put f data)" "file_pos f1 = file_pos (file_put f data)"
      using m Inr by auto
    then have "content f' = content (file_put f (data @ take k ?z))"
      using k(1) file_put_cong(1)[of f1 "file_put f data"] by (simp add: file_put_put)
    with k(2) short file_write_all_error[OF w2] show thesis
      by (intro that[of "data @ take k ?z"]) (auto simp: padded_def)
  qed
qed

text \<open>Every outcome of \<open>write_page\<close> on a slot in range; \<open>Ok\<close> means the padded page.\<close>

lemma write_page_cases:
  assumes "ps_inv ps" "write_page ps slot data = (ps', r)" "slot < total_slots ps"
  obtains d where "wrote_at ps slot d ps'" "r = Ok () \<Longrightarrow> d = padded data" "r \<noteq> Err StoreFull"
proof -
  have range: "\<not> total_slots ps \<le> slot" using assms(3) by simp
  note off = slot_offset[OF assms(1,3)]
  obtain f1 r1 where f1: "file_seek (ps_file ps) (unat slot * PAGE_SIZE) = (f1, r1)"
    by (cases "file_seek (ps_file ps) (unat slot * PAGE_SIZE)")
  show thesis
  proof (cases r1)
    case (Inl e)
    with f1 have "e = IoError"
      by (auto simp: file_seek_def split: prod.splits io_outcome.splits)
    with assms(2) range off f1 Inl file_seek_cases(1)[OF f1] show thesis
      by (intro that[of "[]"]) (auto simp: write_page_def wrote_at_def Let_def)
  next
    case (Inr u)
    obtain f2 r2 where f2: "write_page_bytes f1 data = (f2, r2)"
      by (cases "write_page_bytes f1 data")
    obtain d where d: "content f2 = content (file_put f1 d)" "length d \<le> PAGE_SIZE"
      "r2 = Ok () \<Longrightarrow> d = padded data" "r2 \<noteq> Err StoreFull"
      using write_page_bytes_cases[OF f2] by blast
    have res: "ps_file ps' = f2" "total_slots ps' = total_slots ps" "r = r2"
      using assms(2) range off f1 Inr f2 by (auto simp: write_page_def Let_def split: sum.splits)
    have "wrote_at ps slot d ps'"
      using d(1,2) res file_seek_cases[OF f1] Inr by (intro wrote_atI[of _ _ _ f1]) auto
    with d(3,4) res show thesis by (intro that[of d]) auto
  qed
qed

text \<open>
  A read changes no byte; it returns exactly the slot's page, and only a slot that holds a
  full page can be read.
\<close>

lemma read_page_cases:
  assumes "ps_inv ps" "read_page ps slot = (ps', r)"
  shows "slot_page ps' = slot_page ps \<and> total_slots ps' = total_slots ps
    \<and> (\<forall>p. r = Ok p \<longrightarrow> slot_page ps slot = Some p)"
proof (cases "slot < total_slots ps")
  case False
  then have "total_slots ps \<le> slot" by simp
  with assms(2) show ?thesis by (auto simp: read_page_def)
next
  case True
  note off = slot_offset[OF assms(1) True]
  obtain f1 r1 where f1: "file_seek (ps_file ps) (unat slot * PAGE_SIZE) = (f1, r1)"
    by (cases "file_seek (ps_file ps) (unat slot * PAGE_SIZE)")
  obtain f2 r2 where f2: "file_read_exact f1 PAGE_SIZE = (f2, r2)"
    by (cases "file_read_exact f1 PAGE_SIZE")
  have c1: "content f1 = content (ps_file ps)" by (rule file_seek_cases(1)[OF f1])
  have c2: "content f2 = content f1"
    using f2 by (auto simp: file_read_exact_def split: prod.splits io_outcome.splits if_splits)
  have p2: "file_pos f1 + PAGE_SIZE \<le> length (content f1)
      \<and> p = take PAGE_SIZE (drop (file_pos f1) (content f1))" if "r2 = Ok p" for p
    using f2 that by (auto simp: file_read_exact_def split: prod.splits io_outcome.splits if_splits)
  have nle: "\<not> total_slots ps \<le> slot" using True by simp
  have "total_slots ps' = total_slots ps \<and> content (ps_file ps') = content (ps_file ps)
      \<and> (\<forall>p. r = Ok p \<longrightarrow> r1 = Ok () \<and> r2 = Ok p)"
    using assms(2) nle off f1 f2 c1 c2
    by (auto simp: read_page_def Let_def split: sum.splits)
  then show ?thesis
    using p2 True c1 file_seek_cases(2)[OF f1]
    by (auto simp: slot_page_def fun_eq_iff algebra_simps)
qed

text \<open>With no failing system call, in-range accesses succeed.\<close>

definition healthy :: "page_store \<Rightarrow> bool" where
  "healthy ps \<longleftrightarrow> io_plan (ps_file ps) = []"

lemma write_page_healthy:
  assumes "healthy ps" "slot < total_slots ps"
  shows "snd (write_page ps slot data) = Ok () \<and> healthy (fst (write_page ps slot data))"
proof -
  have "\<not> total_slots ps \<le> slot" using assms(2) by simp
  then show ?thesis
    using assms(1)
    by (simp add: write_page_def healthy_def file_seek_def next_outcome_def Let_def
        write_page_bytes_def file_write_all_def file_put_def)
qed

lemma read_page_healthy:
  assumes "healthy ps" "ps_inv ps" "slot_page ps slot = Some p"
  shows "snd (read_page ps slot) = Ok p \<and> healthy (fst (read_page ps slot))"
proof -
  have s: "slot < total_slots ps" using assms(3) by (simp add: slot_page_def split: if_splits)
  then have "\<not> total_slots ps \<le> slot" by simp
  with slot_offset[OF assms(2) s] assms show ?thesis
    by (auto simp: read_page_def healthy_def file_seek_def next_outcome_def Let_def
        file_read_exact_def slot_page_def algebra_simps split: if_splits)
qed

lemma write_page_out_of_range:
  "total_slots ps \<le> slot \<Longrightarrow> write_page ps slot data = (ps, Err (OutOfRange slot (total_slots ps)))"
  "total_slots ps \<le> slot \<Longrightarrow> read_page ps slot = (ps, Err (OutOfRange slot (total_slots ps)))"
  by (simp_all add: write_page_def read_page_def)

section \<open>The store as an array of pages\<close>

datatype ('i, 'd) array_op = RdAt 'i | WrAt 'i 'd

primrec array_op_index :: "('i, 'd) array_op \<Rightarrow> 'i option" where
  "array_op_index (RdAt i) = None"
| "array_op_index (WrAt i d) = Some i"

primrec run_array_op ::
    "('s \<Rightarrow> 'i \<Rightarrow> 's \<times> 'r) \<Rightarrow> ('s \<Rightarrow> 'i \<Rightarrow> 'd \<Rightarrow> 's \<times> 'w) \<Rightarrow> 's \<Rightarrow> ('i, 'd) array_op \<Rightarrow> 's" where
  "run_array_op rd wr s (RdAt i) = fst (rd s i)"
| "run_array_op rd wr s (WrAt i d) = fst (wr s i d)"

locale page_array =
  fixes inv :: "'s \<Rightarrow> bool"
    and cell :: "'s \<Rightarrow> 'i \<Rightarrow> 'p option"
    and norm :: "'d \<Rightarrow> 'p"
    and rd :: "'s \<Rightarrow> 'i \<Rightarrow> 's \<times> ('e + 'p)"
    and wr :: "'s \<Rightarrow> 'i \<Rightarrow> 'd \<Rightarrow> 's \<times> ('e + unit)"
  assumes wr_inv: "inv s \<Longrightarrow> inv (fst (wr s i d))"
    and wr_ok: "inv s \<Longrightarrow> wr s i d = (s', Inr u) \<Longrightarrow> cell s' i = Some (norm d)"
    and wr_other: "inv s \<Longrightarrow> i \<noteq> j \<Longrightarrow> cell s j = Some p \<Longrightarrow> cell (fst (wr s i d)) j = Some p"
    and rd_inv: "inv s \<Longrightarrow> inv (fst (rd s i))"
    and rd_ok: "inv s \<Longrightarrow> rd s i = (s', Inr p) \<Longrightarrow> cell s i = Some p"
    and rd_same: "inv s \<Longrightarrow> cell (fst (rd s i)) = cell s"
begin

lemma run_inv: "inv s \<Longrightarrow> inv (foldl (run_array_op rd wr) s ops)"
proof (induction ops arbitrary: s)
  case (Cons x ops)
  then show ?case by (cases x) (auto simp: wr_inv rd_inv)
qed simp

lemma run_keeps:
  assumes "inv s" "cell s i = Some p" "\<forall>x \<in> set ops. array_op_index x \<noteq> Some i"
  shows "cell (foldl (run_array_op rd wr) s ops) i = Some p"
  using assms
proof (induction ops arbitrary: s)
  case (Cons x ops)
  then show ?case by (cases x) (auto simp: wr_inv rd_inv wr_other rd_same)
qed simp

text \<open>A successful write is what later successful reads of the slot return.\<close>

lemma read_last_write:
  assumes "inv s" "wr s i d = (s1, Inr u)" "\<forall>x \<in> set ops. array_op_index x \<noteq> Some i"
    "rd (foldl (run_array_op rd wr) s1 ops) i = (s2, Inr p)"
  shows "p = norm d"
proof -
  have s1: "inv s1" using wr_inv[OF assms(1), of i d] assms(2) by simp
  have "cell (foldl (run_array_op rd wr) s1 ops) i = Some (norm d)"
    by (rule run_keeps[OF s1 wr_ok[OF assms(1,2)] assms(3)])
  with rd_ok[OF run_inv[OF s1] assms(4)] show ?thesis by simp
qed

end

lemma ps_inv_cong: "total_slots ps' = total_slots ps \<Longrightarrow> ps_inv ps' = ps_inv ps"
  by (simp add: ps_inv_def)

lemma write_page_wrote:
  assumes "ps_inv ps"
  obtains d where "wrote_at ps slot d (fst (write_page ps slot data))"
    "snd (write_page ps slot data) = Ok () \<Longrightarrow> d = padded data \<and> slot < total_slots ps"
proof (cases "slot < total_slots ps")
  case True
  then show thesis
    using write_page_cases[OF assms, of slot data "fst (write_page ps slot data)"
        "snd (write_page ps slot data)"] that by auto
next
  case False
  then have "total_slots ps \<le> slot" by simp
  then show thesis
    by (intro that[of "[]"]) (auto simp: write_page_out_of_range wrote_at_def)
qed

lemma write_page_total [simp]: "ps_inv ps \<Longrightarrow> total_slots (fst (write_page ps slot d)) = total_slots ps"
  using write_page_wrote[of ps slot d] by (auto simp: wrote_at_def)

lemma write_page_inv [simp]: "ps_inv ps \<Longrightarrow> ps_inv (fst (write_page ps slot d))"
  using ps_inv_cong[OF write_page_total] by blast

lemma read_page_same [simp]:
  assumes "ps_inv ps"
  shows "slot_page (fst (read_page ps slot)) = slot_page ps"
    "total_slots (fst (read_page ps slot)) = total_slots ps"
    "ps_inv (fst (read_page ps slot))"
  using read_page_cases[OF assms, of slot "fst (read_page ps slot)" "snd (read_page ps slot)"]
    assms by (auto simp: ps_inv_def)

lemma write_page_ok:
  assumes "ps_inv ps" "write_page ps slot d = (ps', Ok u)"
  shows "slot_page ps' slot = Some (padded d)"
proof -
  obtain d' where "wrote_at ps slot d' (fst (write_page ps slot d))"
    "snd (write_page ps slot d) = Ok () \<Longrightarrow> d' = padded d \<and> slot < total_slots ps"
    using write_page_wrote[OF assms(1), of slot d] by blast
  with assms(2) wrote_at_same[of ps slot d' ps'] show ?thesis by simp
qed

lemma write_page_other:
  assumes "ps_inv ps" "i \<noteq> j" "slot_page ps j = Some p"
  shows "slot_page (fst (write_page ps i d)) j = Some p"
proof -
  obtain d' where "wrote_at ps i d' (fst (write_page ps i d))"
    using write_page_wrote[OF assms(1)] by blast
  then show ?thesis using assms(2,3) by (rule wrote_at_other)
qed

lemma read_page_ok:
  assumes "ps_inv ps" "read_page ps slot = (ps', Ok p)"
  shows "slot_page ps slot = Some p"
  using read_page_cases[OF assms] by simp

interpretation pages: page_array ps_inv slot_page padded read_page write_page
  by unfold_locales (auto simp: write_page_other read_page_ok write_page_ok)

section \<open>The allocator as a pool of slots\<close>

locale slot_pool =
  fixes inv :: "'p \<Rightarrow> bool"
    and avail :: "'p \<Rightarrow> 's set"
    and slots :: "'p \<Rightarrow> 's set"
    and alloc :: "'p \<Rightarrow> 'p \<times> 's option"
    and release :: "'p \<Rightarrow> 's \<Rightarrow> 'p"
  assumes finite_avail: "inv p \<Longrightarrow> finite (avail p) \<and> avail p \<subseteq> slots p"
    and alloc_inv: "inv p \<Longrightarrow> inv (fst (alloc p)) \<and> slots (fst (alloc p)) = slots p"
    and alloc_Some: "inv p \<Longrightarrow> alloc p = (p', Some s) \<Longrightarrow> s \<in> avail p \<and> avail p' = avail p - {s}"
    and alloc_None: "inv p \<Longrightarrow> alloc p = (p', None) \<Longrightarrow> avail p = {} \<and> avail p' = {}"
    and release: "inv p \<Longrightarrow> s \<in> slots p \<Longrightarrow> s \<notin> avail p \<Longrightarrow>
      inv (release p s) \<and> avail (release p s) = insert s (avail p) \<and> slots (release p s) = slots p"
begin

definition handed_out :: "'s option list \<Rightarrow> 's list" where
  "handed_out rs = map the (filter (\<lambda>r. r \<noteq> None) rs)"

lemma allocs_inv: "inv p \<Longrightarrow> inv (fst (iter_op alloc n p))"
  by (induction n arbitrary: p) (auto simp: iter_op_Suc alloc_inv)

text \<open>No slot is handed out twice, and all come from the available ones.\<close>

lemma allocs_distinct:
  assumes "inv p"
  shows "distinct (handed_out (snd (iter_op alloc n p)))
    \<and> set (handed_out (snd (iter_op alloc n p))) \<subseteq> avail p
    \<and> avail (fst (iter_op alloc n p)) = avail p - set (handed_out (snd (iter_op alloc n p)))"
  using assms
proof (induction n arbitrary: p)
  case 0
  then show ?case by (simp add: handed_out_def)
next
  case (Suc n)
  obtain p1 r where a: "alloc p = (p1, r)" by (cases "alloc p")
  have "inv p1" using alloc_inv[OF Suc.prems] a by simp
  note IH = Suc.IH[OF this]
  show ?case
  proof (cases r)
    case None
    with a alloc_None[OF Suc.prems] have "avail p = {}" "avail p1 = {}" by auto
    with IH a None show ?thesis by (auto simp: iter_op_Suc handed_out_def)
  next
    case (Some s)
    with a alloc_Some[OF Suc.prems] have s: "s \<in> avail p" "avail p1 = avail p - {s}" by auto
    have "handed_out (snd (iter_op alloc (Suc n) p)) = s # handed_out (snd (iter_op alloc n p1))"
      using a Some by (simp add: iter_op_Suc handed_out_def)
    with IH s a show ?thesis by (auto simp: iter_op_Suc)
  qed
qed

text \<open>Allocation fails exactly when the pool is exhausted.\<close>

lemma allocs_until_empty:
  assumes "inv p" "n \<le> card (avail p)"
  shows "\<forall>r \<in> set (snd (iter_op alloc n p)). r \<noteq> None"
  using assms
proof (induction n arbitrary: p)
  case (Suc n)
  obtain p1 r where a: "alloc p = (p1, r)" by (cases "alloc p")
  have i1: "inv p1" using alloc_inv[OF Suc.prems(1)] a by simp
  have "avail p \<noteq> {}" using Suc.prems(2) by auto
  with a alloc_None[OF Suc.prems(1)] obtain s where s: "r = Some s" by (cases r) auto
  with a alloc_Some[OF Suc.prems(1)] finite_avail[OF Suc.prems(1)]
  have "card (avail p1) = card (avail p) - 1" by auto
  with Suc.IH[OF i1] Suc.prems(2) a s show ?case by (auto simp: iter_op_Suc)
qed simp

lemma alloc_after_release:
  assumes "inv p" "s \<in> slots p" "s \<notin> avail p"
  shows "snd (alloc (release p s)) \<noteq> None"
  using alloc_None[of "release p s" "fst (alloc (release p s))"] release[OF assms]
  by (cases "alloc (release p s)") auto

end

definition sa_inv :: "slot_allocator \<Rightarrow> bool" where
  "sa_inv sa \<longleftrightarrow> distinct (free_slots sa) \<and> (\<forall>s \<in> set (free_slots sa). s < next_slot sa)
     \<and> next_slot sa \<le> max_slots sa"

definition sa_avail :: "slot_allocator \<Rightarrow> u64 set" where
  "sa_avail sa = set (free_slots sa) \<union> {next_slot sa ..< max_slots sa}"

lemma sa_avail_not_full: "finite (sa_avail sa)"
  by (simp add: sa_avail_def)

lemma less_plus_one_iff:
  assumes "(n :: u64) < m"
  shows "s < n + 1 \<longleftrightarrow> s < n \<or> s = n"
  using unat_plus1[of n m] assms by (auto simp: word_less_nat_alt word_unat_eq_iff)

lemma allocate_pop:
  "free_slots sa = s # rest \<Longrightarrow> allocate sa = (sa\<lparr>free_slots := rest\<rparr>, Some s)"
  by (simp add: allocate_def)

lemma allocate_fresh:
  assumes "free_slots sa = []" "next_slot sa < max_slots sa"
  shows "allocate sa = (sa\<lparr>next_slot := next_slot sa + 1\<rparr>, Some (next_slot sa))"
proof -
  have "\<not> max_slots sa \<le> next_slot sa" using assms(2) by simp
  with assms(1) show ?thesis by (simp add: allocate_def Let_def)
qed

lemma allocate_full:
  assumes "free_slots sa = []" "max_slots sa \<le> next_slot sa"
  shows "allocate sa = (sa, None)"
  using assms by (simp add: allocate_def Let_def)

lemma allocate_cases:
  obtains (pop) s rest where "free_slots sa = s # rest" "allocate sa = (sa\<lparr>free_slots := rest\<rparr>, Some s)"
  | (fresh) "free_slots sa = []" "next_slot sa < max_slots sa"
      "allocate sa = (sa\<lparr>next_slot := next_slot sa + 1\<rparr>, Some (next_slot sa))"
  | (full) "free_slots sa = []" "max_slots sa \<le> next_slot sa" "allocate sa = (sa, None)"
  using allocate_pop allocate_fresh allocate_full
  by (cases "free_slots sa"; cases "next_slot sa < max_slots sa") (auto simp: not_less)

lemma allocate_inv:
  assumes "sa_inv sa"
  shows "sa_inv (fst (allocate sa))" "max_slots (fst (allocate sa)) = max_slots sa"
proof -
  show "max_slots (fst (allocate sa)) = max_slots sa"
    by (cases sa rule: allocate_cases) auto
  show "sa_inv (fst (allocate sa))"
  proof (cases sa rule: allocate_cases)
    case fresh
    then have "next_slot sa + 1 \<le> max_slots sa"
      using unat_plus1[of "next_slot sa" "max_slots sa"] by (simp add: word_less_nat_alt word_le_nat_alt)
    with fresh assms show ?thesis by (auto simp: sa_inv_def)
  qed (use assms in \<open>auto simp: sa_inv_def\<close>)
qed

lemma allocate_Some:
  assumes "sa_inv sa" "allocate sa = (sa', Some s)"
  shows "s \<in> sa_avail sa" "sa_avail sa' = sa_avail sa - {s}"
proof -
  have "s \<in> sa_avail sa \<and> sa_avail sa' = sa_avail sa - {s}"
  proof (cases sa rule: allocate_cases)
    case (pop s' rest)
    with assms show ?thesis by (auto simp: sa_inv_def sa_avail_def)
  next
    case fresh
    have "{next_slot sa + 1 ..< max_slots sa} = {next_slot sa ..< max_slots sa} - {next_slot sa}"
      using unat_plus1[of "next_slot sa" "max_slots sa"] fresh(2)
      by (auto simp: word_less_nat_alt word_le_nat_alt word_unat_eq_iff)
    with fresh assms show ?thesis by (auto simp: sa_avail_def)
  next
    case full
    with assms show ?thesis by simp
  qed
  then show "s \<in> sa_avail sa" "sa_avail sa' = sa_avail sa - {s}" by simp_all
qed

lemma allocate_None:
  assumes "allocate sa = (sa', None)"
  shows "sa_avail sa = {}" "sa' = sa"
  by (cases sa rule: allocate_cases; use assms in \<open>auto simp: sa_avail_def\<close>)+

lemma free_slot_inv:
  assumes "sa_inv sa" "s < max_slots sa" "s \<notin> sa_avail sa"
  shows "sa_inv (free_slot_of sa s)" "sa_avail (free_slot_of sa s) = insert s (sa_avail sa)"
    "max_slots (free_slot_of sa s) = max_slots sa"
  using assms by (auto simp: free_slot_of_def sa_inv_def sa_avail_def)

interpretation slots: slot_pool sa_inv sa_avail "\<lambda>sa. {..< max_slots sa}" allocate free_slot_of
proof unfold_locales
  fix p :: slot_allocator assume "sa_inv p"
  then show "finite (sa_avail p) \<and> sa_avail p \<subseteq> {..< max_slots p}"
    by (auto simp: sa_avail_def sa_inv_def sa_avail_not_full)
qed (simp_all add: allocate_inv allocate_Some allocate_None free_slot_inv, metis allocate_None)

end
