(* ===== verification/Dedup_Laws.thy ===== *)
theory Dedup_Laws
  imports Dedup
begin

text \<open>
  Correctness of the deduplication table of theory \<open>Dedup\<close>. The table is read as a
  finite map from fingerprints to (reference count, backend slot), \<open>tracked\<close>; the locale
  \<open>ref_table\<close> states what the engine relies on and is interpreted on the model's
  operations. The invariant \<open>dt_inv\<close> ties the map, the LRU list and the Bloom filter.
\<close>

section \<open>The abstract view\<close>

definition tracked :: "dedup_table \<Rightarrow> fingerprint \<Rightarrow> (nat \<times> u64) option" where
  "tracked t fp = map_option (\<lambda>e. (unat (ref_count e), backend_offset e)) (map_of (dt_map t) fp)"

definition dt_inv :: "dedup_table \<Rightarrow> bool" where
  "dt_inv t \<longleftrightarrow> distinct (map fst (dt_map t)) \<and> wf_bloom (dt_bloom t)
     \<and> (\<forall>fp. map_of (dt_map t) fp \<noteq> None \<longrightarrow> might_contain (dt_bloom t) fp)
     \<and> distinct (map fst (lru t))
     \<and> (\<forall>fp. fp \<in> fst ` set (lru t) \<longleftrightarrow> map_of (dt_map t) fp \<noteq> None)
     \<and> length (dt_map t) \<le> unat (max_entries t)"

definition untrack :: "fingerprint \<Rightarrow> dedup_table \<Rightarrow> dedup_table" where
  "untrack fp t = t\<lparr>dt_map := AList.delete fp (dt_map t), evictions := evictions t + 1,
                    lru := lru_retain fp (lru t)\<rparr>"

lemma tracked_eq_None [simp]: "tracked t fp = None \<longleftrightarrow> map_of (dt_map t) fp = None"
  by (simp add: tracked_def)

lemma tracked_SomeD:
  "tracked t fp = Some (c, s) \<Longrightarrow>
    \<exists>e. map_of (dt_map t) fp = Some e \<and> unat (ref_count e) = c \<and> backend_offset e = s"
  by (auto simp: tracked_def)

lemma tracked_untrack [simp]: "tracked (untrack fp t) = (tracked t)(fp := None)"
  by (auto simp: tracked_def untrack_def fun_eq_iff)

section \<open>Eviction\<close>

lemma evict_loop_True:
  "evict_loop fps t = (True, t') \<Longrightarrow>
   \<exists>pre fp post e. fps = pre @ fp # post
     \<and> (\<forall>f \<in> set pre. \<forall>e. map_of (dt_map t) f = Some e \<longrightarrow> 1 < ref_count e)
     \<and> map_of (dt_map t) fp = Some e \<and> ref_count e \<le> 1 \<and> t' = untrack fp t"
proof (induction fps t rule: evict_loop.induct)
  case (1 t)
  then show ?case by simp
next
  case (2 fp fps t)
  show ?case
  proof (cases "\<exists>e. map_of (dt_map t) fp = Some e \<and> ref_count e \<le> 1")
    case True
    with 2(3) show ?thesis
      by (intro exI[of _ "[]"] exI[of _ fp] exI[of _ fps]) (auto simp: untrack_def)
  next
    case False
    with 2(3) have rec: "evict_loop fps t = (True, t')"
      by (auto split: option.splits if_splits)
    obtain pre f post e where "fps = pre @ f # post"
      "\<forall>f \<in> set pre. \<forall>e. map_of (dt_map t) f = Some e \<longrightarrow> 1 < ref_count e"
      "map_of (dt_map t) f = Some e" "ref_count e \<le> 1" "t' = untrack f t"
    proof (cases "map_of (dt_map t) fp")
      case None
      with 2(1)[OF None rec] that show ?thesis by blast
    next
      case (Some e)
      with False have "\<not> ref_count e \<le> 1" by simp
      with 2(2)[OF Some this rec] that show ?thesis by blast
    qed
    with False show ?thesis
      by (intro exI[of _ "fp # pre"] exI[of _ f] exI[of _ post] exI[of _ e])
         (auto simp: not_le)
  qed
qed

lemma evict_loop_False:
  "evict_loop fps t = (False, t') \<Longrightarrow>
   t' = t \<and> (\<forall>f \<in> set fps. \<forall>e. map_of (dt_map t) f = Some e \<longrightarrow> 1 < ref_count e)"
  by (induction fps t rule: evict_loop.induct) (auto split: option.splits if_splits)

lemma evict_True:
  assumes "evict_lru_metadata t = (True, t')"
  obtains fp e where "map_of (dt_map t) fp = Some e" "ref_count e \<le> 1"
    "t' = untrack fp (t\<lparr>lru := sort_key snd (lru t)\<rparr>)" "fp \<in> fst ` set (lru t)"
proof -
  have "evict_loop (map fst (sort_key snd (lru t))) (t\<lparr>lru := sort_key snd (lru t)\<rparr>) = (True, t')"
    using assms by (auto simp: evict_lru_metadata_def Let_def split: if_splits)
  from evict_loop_True[OF this] obtain pre fp post e where
    "map fst (sort_key snd (lru t)) = pre @ fp # post"
    "map_of (dt_map t) fp = Some e" "ref_count e \<le> 1"
    "t' = untrack fp (t\<lparr>lru := sort_key snd (lru t)\<rparr>)"
    by auto
  moreover from this(1) have "fp \<in> set (map fst (sort_key snd (lru t)))"
    by (simp only: set_append list.set) simp
  then have "fp \<in> fst ` set (lru t)" by simp
  ultimately show thesis by (intro that) auto
qed

lemma evict_False:
  assumes "evict_lru_metadata t = (False, t')"
  shows "t' = t\<lparr>lru := lru t'\<rparr>" "lru t' = sort_key snd (lru t)"
    "\<forall>f \<in> fst ` set (lru t). \<forall>e. map_of (dt_map t) f = Some e \<longrightarrow> 1 < ref_count e"
  using assms evict_loop_False[of "map fst (sort_key snd (lru t))" "t\<lparr>lru := sort_key snd (lru t)\<rparr>" t']
  by (auto simp: evict_lru_metadata_def Let_def split: if_splits)

section \<open>The invariant\<close>

lemma lru_retain_keys [simp]: "fst ` set (lru_retain fp xs) = fst ` set xs - {fp}"
  unfolding lru_retain_def by (induction xs) auto

lemma distinct_lru_retain [simp]:
  "distinct (map fst xs) \<Longrightarrow> distinct (map fst (lru_retain fp xs))"
  by (simp add: lru_retain_def distinct_map_filter)

lemma length_delete_mem:
  assumes "distinct (map fst al)" "map_of al fp = Some v"
  shows "Suc (length (AList.delete fp al)) = length al"
  using count_vals_delete[OF assms(1), of "\<lambda>_. True" fp] assms(2)
  by (simp add: count_vals_def)

lemma length_update_new: "map_of al fp = None \<Longrightarrow> length (AList.update fp v al) = Suc (length al)"
  by (induction al) (auto split: if_split_asm)

lemma length_update_old: "map_of al fp = Some w \<Longrightarrow> length (AList.update fp v al) = length al"
  by (induction al) (auto split: if_split_asm)

lemma lru_touch_keys [simp]: "map fst (lru_touch fp now xs) = map fst xs"
  by (induction fp now xs rule: lru_touch.induct) auto

lemma lru_touch_keys_set [simp]: "fst ` set (lru_touch fp now xs) = fst ` set xs"
  by (metis list.set_map lru_touch_keys)

lemma dt_inv_new: "dt_inv (dedup_new m c)"
  by (simp add: dt_inv_def dedup_new_def wf_bloom_new)

lemma dt_inv_counters [simp]:
  "dt_inv (t\<lparr>duplicate_hits := a\<rparr>) = dt_inv t"
  "dt_inv (t\<lparr>bloom_false_positives := a\<rparr>) = dt_inv t"
  by (simp_all add: dt_inv_def)

lemma dt_inv_lookup: "dt_inv t \<Longrightarrow> dt_inv (fst (dedup_lookup t fp d))"
  by (auto simp: dedup_lookup_def split: option.splits)

lemma dt_inv_sort: "dt_inv t \<Longrightarrow> dt_inv (t\<lparr>lru := sort_key snd (lru t)\<rparr>)"
  by (simp add: dt_inv_def distinct_map)

lemma dt_inv_untrack: "dt_inv t \<Longrightarrow> dt_inv (untrack fp t)"
  by (simp add: dt_inv_def untrack_def le_trans[OF length_delete_le])

lemma dt_inv_track:
  assumes "dt_inv t" "map_of (dt_map t) fp = None" "length (dt_map t) < unat (max_entries t)"
  shows "dt_inv (dedup_track t fp d s)"
  using assms by (simp add: dt_inv_def dedup_track_def length_update_new might_contain_insert)

lemma dt_inv_insert:
  assumes "dt_inv t"
  shows "dt_inv (fst (dedup_insert t fp d s))"
proof (cases "map_of (dt_map t) fp = None \<and> unat (max_entries t) \<le> length (dt_map t)")
  case full: True
  obtain b t' where ev: "evict_lru_metadata t = (b, t')" by (cases "evict_lru_metadata t")
  show ?thesis
  proof (cases b)
    case True
    with ev obtain f e where e: "map_of (dt_map t) f = Some e"
      "t' = untrack f (t\<lparr>lru := sort_key snd (lru t)\<rparr>)"
      using evict_True by metis
    have "dt_inv t'"
      unfolding e(2) by (intro dt_inv_untrack dt_inv_sort assms)
    moreover have "length (dt_map t') < unat (max_entries t')"
      using length_delete_mem[OF _ e(1)] assms by (simp add: e(2) untrack_def dt_inv_def)
    moreover have "map_of (dt_map t') fp = None"
      using full by (simp add: e(2) untrack_def)
    ultimately show ?thesis
      using full ev True by (simp add: dedup_insert_def dt_inv_track)
  next
    case False
    with ev have "t' = t\<lparr>lru := sort_key snd (lru t)\<rparr>"
      using evict_False(1,2)[of t t'] by simp
    with full ev False assms show ?thesis
      by (simp add: dedup_insert_def dt_inv_sort)
  qed
next
  case False
  with assms show ?thesis
    by (auto simp: dedup_insert_def intro: dt_inv_track)
qed

lemma dt_inv_add_reference: "dt_inv t \<Longrightarrow> dt_inv (fst (dedup_add_reference t fp))"
  by (auto simp: dedup_add_reference_def dt_inv_def length_update_old split: option.split)

lemma dt_inv_remove_reference: "dt_inv t \<Longrightarrow> dt_inv (fst (dedup_remove_reference t fp))"
  by (auto simp: dedup_remove_reference_def dt_inv_def length_update_old split: option.split
      intro: le_trans[OF length_delete_le])

text \<open>The capacity is fixed at creation.\<close>

lemma max_entries_evict: "max_entries (snd (evict_loop fps t)) = max_entries t"
  by (induction fps t rule: evict_loop.induct) (auto split: option.splits)

lemma max_entries_const [simp]:
  "max_entries (fst (dedup_lookup t fp d)) = max_entries t"
  "max_entries (fst (dedup_insert t fp d s)) = max_entries t"
  "max_entries (fst (dedup_add_reference t fp)) = max_entries t"
  "max_entries (fst (dedup_remove_reference t fp)) = max_entries t"
  using max_entries_evict[of "map fst (sort_key snd (lru t))" "t\<lparr>lru := sort_key snd (lru t)\<rparr>"]
  by (auto simp: dedup_lookup_def dedup_insert_def dedup_add_reference_def
      dedup_remove_reference_def evict_lru_metadata_def dedup_track_def Let_def
      split: option.split prod.splits bool.split)

section \<open>The interface the engine relies on\<close>

text \<open>
  A reference table hands out one backend slot per key, counts the references to it and
  gives the slot back exactly when the last reference goes. \<open>bound\<close> is the modulus of the
  reference counter.
\<close>

locale ref_table =
  fixes tr :: "'t \<Rightarrow> 'k \<Rightarrow> (nat \<times> 's) option"
    and look :: "'t \<Rightarrow> 'k \<Rightarrow> 'd \<Rightarrow> 't \<times> 'l"
    and hit :: "'s \<Rightarrow> 'l"
    and ins :: "'t \<Rightarrow> 'k \<Rightarrow> 'd \<Rightarrow> 's \<Rightarrow> 't \<times> bool"
    and room :: "'t \<Rightarrow> bool"
    and add :: "'t \<Rightarrow> 'k \<Rightarrow> 't \<times> bool"
    and remove :: "'t \<Rightarrow> 'k \<Rightarrow> 't \<times> 'r"
    and still :: 'r and removed :: "'s \<Rightarrow> 'r" and untracked :: 'r
    and bound :: nat
  assumes look_tr: "tr (fst (look t k d)) = tr t"
    and look_hit: "snd (look t k d) = hit s \<Longrightarrow> \<exists>c. tr t k = Some (c, s)"
    and ins_False: "ins t k d s = (t', False) \<Longrightarrow> tr t' = tr t"
    and ins_True: "ins t k d s = (t', True) \<Longrightarrow> tr t k = None \<and>
      (tr t' = (tr t)(k \<mapsto> (1, s)) \<or>
       (\<exists>v c s'. \<not> room t \<and> v \<noteq> k \<and> tr t v = Some (c, s') \<and> c \<le> 1
          \<and> tr t' = (tr t)(v := None, k \<mapsto> (1, s))))"
    and ins_room: "tr t k = None \<Longrightarrow> room t \<Longrightarrow> snd (ins t k d s) = True"
    and add_hit: "tr t k = Some (c, s) \<Longrightarrow> Suc c < bound \<Longrightarrow>
      snd (add t k) = True \<and> tr (fst (add t k)) = (tr t)(k \<mapsto> (Suc c, s))"
    and add_miss: "tr t k = None \<Longrightarrow> add t k = (t, False)"
    and remove_last: "tr t k = Some (c, s) \<Longrightarrow> c \<le> 1 \<Longrightarrow>
      snd (remove t k) = removed s \<and> tr (fst (remove t k)) = (tr t)(k := None)"
    and remove_shared: "tr t k = Some (c, s) \<Longrightarrow> 1 < c \<Longrightarrow>
      snd (remove t k) = still \<and> tr (fst (remove t k)) = (tr t)(k \<mapsto> (c - 1, s))"
    and remove_miss: "tr t k = None \<Longrightarrow> remove t k = (t, untracked)"
begin

lemma adds_count:
  assumes "tr t k = Some (c, s)" "c + n < bound"
  shows "snd (iter_op (\<lambda>t. add t k) n t) = replicate n True
    \<and> tr (fst (iter_op (\<lambda>t. add t k) n t)) = (tr t)(k \<mapsto> (c + n, s))"
  using assms
proof (induction n arbitrary: t c)
  case 0
  then show ?case by (simp add: fun_upd_idem)
next
  case (Suc n)
  from Suc.prems have a: "snd (add t k) = True" "tr (fst (add t k)) = (tr t)(k \<mapsto> (Suc c, s))"
    using add_hit[of t k c s] by auto
  have "tr (fst (add t k)) k = Some (Suc c, s)" by (simp add: a(2))
  from Suc.IH[OF this] Suc.prems(2) show ?case
    by (auto simp: iter_op_Suc a fun_eq_iff)
qed

lemma removes_release_once:
  assumes "tr t k = Some (Suc n, s)"
  shows "snd (iter_op (\<lambda>t. remove t k) (Suc n) t) = replicate n still @ [removed s]
    \<and> tr (fst (iter_op (\<lambda>t. remove t k) (Suc n) t)) = (tr t)(k := None)"
  using assms
proof (induction n arbitrary: t)
  case 0
  then show ?case using remove_last[of t k 1 s] by (simp add: iter_op_Suc)
next
  case (Suc n)
  from Suc.prems have r: "snd (remove t k) = still"
    "tr (fst (remove t k)) = (tr t)(k \<mapsto> (Suc n, s))"
    using remove_shared[of t k "Suc (Suc n)" s] by auto
  have "tr (fst (remove t k)) k = Some (Suc n, s)" by (simp add: r(2))
  from Suc.IH[OF this] show ?case
    by (auto simp: iter_op_Suc(1)[of _ "Suc n"] iter_op_Suc(2)[of _ "Suc n"] r fun_eq_iff)
qed

lemma references_balance:
  assumes "ins t k d s = (t0, True)" "Suc n < bound"
  shows "snd (iter_op (\<lambda>t. remove t k) (Suc n) (fst (iter_op (\<lambda>t. add t k) n t0)))
      = replicate n still @ [removed s]"
proof -
  have "tr t0 k = Some (1, s)"
    using ins_True[OF assms(1)] by auto
  with assms(2) have "tr (fst (iter_op (\<lambda>t. add t k) n t0)) k = Some (Suc n, s)"
    using adds_count[of t0 k 1 s n] by simp
  then show ?thesis using removes_release_once by blast
qed

end

section \<open>The table implements the interface\<close>

definition has_room :: "dedup_table \<Rightarrow> bool" where
  "has_room t \<longleftrightarrow> length (dt_map t) < unat (max_entries t)"

lemma tracked_lookup: "tracked (fst (dedup_lookup t fp d)) = tracked t"
  by (auto simp: dedup_lookup_def tracked_def fun_eq_iff split: option.split)

lemma dedup_lookup_hit: "snd (dedup_lookup t fp d) = Duplicate s \<Longrightarrow> \<exists>c. tracked t fp = Some (c, s)"
  by (auto simp: dedup_lookup_def tracked_def split: option.splits if_splits)

lemma tracked_track [simp]: "tracked (dedup_track t fp d s) = (tracked t)(fp \<mapsto> (1, s))"
  by (auto simp: tracked_def dedup_track_def fun_eq_iff)

lemma tracked_sort [simp]: "tracked (t\<lparr>lru := xs\<rparr>) = tracked t"
  by (auto simp: tracked_def fun_eq_iff)

lemma insert_False:
  assumes "dedup_insert t fp d s = (t', False)"
  shows "tracked t' = tracked t"
proof (cases "evict_lru_metadata t")
  case (Pair b u)
  with assms evict_False(1)[of t u] show ?thesis
    by (cases b) (auto simp: dedup_insert_def split: if_splits simp del: tracked_eq_None
        intro: arg_cong[where f = tracked] trans[OF arg_cong[where f = tracked] tracked_sort])
qed

lemma insert_True:
  assumes "dedup_insert t fp d s = (t', True)"
  shows "tracked t fp = None \<and> (tracked t' = (tracked t)(fp \<mapsto> (1, s)) \<or>
    (\<exists>v c s'. \<not> has_room t \<and> v \<noteq> fp \<and> tracked t v = Some (c, s') \<and> c \<le> 1
       \<and> tracked t' = (tracked t)(v := None, fp \<mapsto> (1, s))))"
proof -
  from assms have new: "map_of (dt_map t) fp = None"
    by (auto simp: dedup_insert_def split: if_splits)
  show ?thesis
  proof (cases "has_room t")
    case True
    with assms new have "t' = dedup_track t fp d s"
      by (auto simp: dedup_insert_def has_room_def)
    with new show ?thesis by simp
  next
    case False
    with assms new obtain u where u: "evict_lru_metadata t = (True, u)" "t' = dedup_track u fp d s"
      by (auto simp: dedup_insert_def has_room_def split: prod.splits bool.splits)
    from evict_True[OF u(1)] obtain v e where v: "map_of (dt_map t) v = Some e" "ref_count e \<le> 1"
      "u = untrack v (t\<lparr>lru := sort_key snd (lru t)\<rparr>)"
      by metis
    have "tracked t v = Some (unat (ref_count e), backend_offset e)" "unat (ref_count e) \<le> 1"
      using v(1,2) by (auto simp: tracked_def word_le_nat_alt)
    moreover have "v \<noteq> fp" using v(1) new by auto
    ultimately show ?thesis using new False u(2) v(3) by auto
  qed
qed

lemma add_reference_hit:
  assumes "tracked t fp = Some (c, s)" "Suc c < 2 ^ 32"
  shows "snd (dedup_add_reference t fp) = True
    \<and> tracked (fst (dedup_add_reference t fp)) = (tracked t)(fp \<mapsto> (Suc c, s))"
proof -
  obtain e where e: "map_of (dt_map t) fp = Some e" "unat (ref_count e) = c" "backend_offset e = s"
    using tracked_SomeD[OF assms(1)] by blast
  have "unat (ref_count e + 1) = Suc c"
    using assms(2) e(2) by (simp add: unat_word_ariths)
  with e show ?thesis
    by (auto simp: dedup_add_reference_def tracked_def fun_eq_iff)
qed

lemma remove_reference_last:
  assumes "tracked t fp = Some (c, s)" "c \<le> 1"
  shows "snd (dedup_remove_reference t fp) = Removed s
    \<and> tracked (fst (dedup_remove_reference t fp)) = (tracked t)(fp := None)"
  using tracked_SomeD[OF assms(1)] assms(2)
  by (auto simp: dedup_remove_reference_def tracked_def fun_eq_iff word_le_nat_alt)

lemma remove_reference_shared:
  assumes "tracked t fp = Some (c, s)" "1 < c"
  shows "snd (dedup_remove_reference t fp) = StillReferenced
    \<and> tracked (fst (dedup_remove_reference t fp)) = (tracked t)(fp \<mapsto> (c - 1, s))"
proof -
  obtain e where e: "map_of (dt_map t) fp = Some e" "unat (ref_count e) = c" "backend_offset e = s"
    using tracked_SomeD[OF assms(1)] by blast
  have "1 \<le> ref_count e" "\<not> ref_count e \<le> 1"
    using assms(2) e(2) by (auto simp: word_le_nat_alt)
  then have "unat (ref_count e - 1) = c - 1"
    using e(2) by (simp add: unat_sub)
  with e \<open>\<not> ref_count e \<le> 1\<close> show ?thesis
    by (auto simp: dedup_remove_reference_def tracked_def fun_eq_iff)
qed

interpretation rt: ref_table tracked dedup_lookup Duplicate dedup_insert has_room
  dedup_add_reference dedup_remove_reference StillReferenced Removed NotTracked "2 ^ 32"
proof (unfold_locales, goal_cases)
  case 5
  then show ?case by (simp add: dedup_insert_def has_room_def)
next
  case 7
  then show ?case by (simp add: dedup_add_reference_def)
next
  case 10
  then show ?case by (simp add: dedup_remove_reference_def)
qed (fact tracked_lookup dedup_lookup_hit insert_False insert_True add_reference_hit
       remove_reference_last remove_reference_shared)+

end
