(* ===== verification/Engine_Laws.thy ===== *)
theory Engine_Laws
  imports Engine Ownership Backend_Laws Dedup_Laws
begin

text \<open>
  The engine of theory \<open>Engine\<close> keeps its books balanced (\<open>eng_inv\<close>) and implements an
  abstract block device: a function from offsets to pages (\<open>disk\<close>). The elementary steps
  are those of theory \<open>Ownership\<close>; here each operation of the code is shown to be a
  sequence of them.
\<close>

section \<open>Values of an association list as a multiset\<close>

definition vals :: "('k \<times> 'v) list \<Rightarrow> 'v multiset" where
  "vals al = mset (map snd al)"

lemma vals_simps [simp]: "vals [] = {#}" "vals (kv # al) = add_mset (snd kv) (vals al)"
  by (simp_all add: vals_def)

lemma map_of_in_vals: "map_of al k = Some v \<Longrightarrow> v \<in># vals al"
  by (induction al) (auto split: if_splits)

lemma in_vals_map_of:
  assumes "v \<in># vals al" "distinct (map fst al)"
  obtains k where "map_of al k = Some v"
  using assms by (force simp: vals_def intro: map_of_is_SomeI)

lemma vals_delete:
  assumes "distinct (map fst al)"
  shows "vals (AList.delete k al) = (case map_of al k of None \<Rightarrow> vals al | Some v \<Rightarrow> vals al - {#v#})"
  using assms
proof (induction al)
  case (Cons kv al)
  show ?case
  proof (cases "fst kv = k")
    case True
    with Cons.prems have "map_of al k = None" by (auto simp: map_of_eq_None_iff)
    with True Cons show ?thesis by (cases kv) simp
  next
    case False
    with Cons show ?thesis
      by (cases kv) (auto split: option.splits simp: diff_union_swap dest: map_of_in_vals)
  qed
qed simp

lemma vals_update:
  assumes "distinct (map fst al)"
  shows "vals (AList.update k v al) =
    (case map_of al k of None \<Rightarrow> add_mset v (vals al) | Some w \<Rightarrow> add_mset v (vals al) - {#w#})"
  using assms
proof (induction al)
  case (Cons kv al)
  then show ?case
    by (cases kv) (auto split: option.splits simp: diff_union_swap dest: map_of_in_vals)
qed simp

section \<open>The invariant and the abstraction\<close>

definition live :: "proxy_engine \<Rightarrow> translation_entry multiset" where
  "live e = vals (translation e)"

definition eng_books :: "translation_entry multiset \<Rightarrow> proxy_engine \<Rightarrow> bool" where
  "eng_books M e \<longleftrightarrow> ps_inv (pstore e) \<and> sa_inv (slot_alloc e) \<and> dt_inv (dedup_tab e)
     \<and> max_slots (slot_alloc e) = total_slots (pstore e)
     \<and> distinct (map fst (translation e))
     \<and> books M (tracked (dedup_tab e)) (sa_avail (slot_alloc e)) (total_slots (pstore e))
     \<and> (\<forall>x \<in># M. slot_page (pstore e) (backend_slot x) \<noteq> None)"

definition eng_inv :: "proxy_engine \<Rightarrow> bool" where
  "eng_inv e \<longleftrightarrow> eng_books (live e) e"

definition disk :: "proxy_engine \<Rightarrow> u64 \<Rightarrow> page" where
  "disk e off =
     (case map_of (translation e) off of
        None \<Rightarrow> replicate PAGE_SIZE 0
      | Some ent \<Rightarrow> the (slot_page (pstore e) (backend_slot ent)))"

definition orphaned :: "proxy_engine \<Rightarrow> fingerprint \<Rightarrow> bool" where
  "orphaned e fp \<longleftrightarrow> orphan (live e) (tracked (dedup_tab e)) fp"

lemma disk_page_length:
  assumes "eng_inv e"
  shows "length (disk e off) = PAGE_SIZE"
proof (cases "map_of (translation e) off")
  case None
  then show ?thesis by (simp add: disk_def)
next
  case (Some ent)
  then have "ent \<in># live e" by (simp add: live_def map_of_in_vals)
  with assms obtain p where "slot_page (pstore e) (backend_slot ent) = Some p"
    by (auto simp: eng_inv_def eng_books_def)
  with Some show ?thesis by (auto simp: disk_def slot_page_def split: if_splits)
qed

lemma normalize_page_padded [simp]: "normalize_page data = padded data"
  by (auto simp: normalize_page_def padded_def Let_def min_def)

lemma eng_booksD:
  assumes "eng_books M e"
  shows "ps_inv (pstore e)" "sa_inv (slot_alloc e)" "dt_inv (dedup_tab e)"
    "max_slots (slot_alloc e) = total_slots (pstore e)" "distinct (map fst (translation e))"
    "books M (tracked (dedup_tab e)) (sa_avail (slot_alloc e)) (max_slots (slot_alloc e))"
    "x \<in># M \<Longrightarrow> slot_page (pstore e) (backend_slot x) \<noteq> None"
  using assms by (simp_all add: eng_books_def)

lemma eng_books_stats [simp]:
  "eng_books M (e\<lparr>pstats := x\<rparr>) = eng_books M e" "live (e\<lparr>pstats := x\<rparr>) = live e"
  "disk (e\<lparr>pstats := x\<rparr>) = disk e" "orphaned (e\<lparr>pstats := x\<rparr>) = orphaned e"
  by (auto simp: eng_books_def live_def disk_def orphaned_def fun_eq_iff split: option.split)

text \<open>
  Releasing an entry that no offset points to any more: its slot is freed exactly when it
  was the last user; the contents of the store and the translation are untouched.
\<close>

lemma release_mapping_fields [simp]:
  "pstore (release_mapping e x) = pstore e" "translation (release_mapping e x) = translation e"
  "passthrough (release_mapping e x) = passthrough e" "pstats (release_mapping e x) = pstats e"
  by (simp_all add: release_mapping_def free_slot_def split: mapping_kind.splits prod.splits
      reference_removal.splits)

text \<open>What no operation changes: the mode, the table's capacity and the store's size.\<close>

definition config_of :: "proxy_engine \<Rightarrow> bool \<times> u64 \<times> u64" where
  "config_of e = (passthrough e, max_entries (dedup_tab e), total_slots (pstore e))"

lemma config_release [simp]: "config_of (release_mapping e x) = config_of e"
  using max_entries_const(4)[of "dedup_tab e"]
  by (auto simp: config_of_def release_mapping_def free_slot_def
      split: mapping_kind.split prod.split reference_removal.split simp del: max_entries_const)
     (metis fst_conv)+

lemma config_fields [simp]:
  "config_of (e\<lparr>translation := tt\<rparr>) = config_of e" "config_of (e\<lparr>pstats := st\<rparr>) = config_of e"
  "config_of (e\<lparr>slot_alloc := sa\<rparr>) = config_of e"
  by (simp_all add: config_of_def)

lemma config_replace [simp]: "config_of (replace_mapping e off x) = config_of e"
  by (simp add: replace_mapping_def translation_insert_def split: option.split)

lemma config_discard [simp]: "config_of (handle_discard e off) = config_of e"
  by (simp add: handle_discard_def translation_remove_def Let_def split: option.split)

lemma free_slot_books:
  assumes inv: "eng_books M e" and s: "s < max_slots (slot_alloc e)" "s \<notin> sa_avail (slot_alloc e)"
    and dt: "dt_inv t"
    and b: "books N (tracked t) (insert s (sa_avail (slot_alloc e))) (max_slots (slot_alloc e))"
    and sub: "N \<subseteq># M"
  shows "eng_books N (free_slot (e\<lparr>dedup_tab := t\<rparr>) s)"
  using free_slot_inv[OF eng_booksD(2)[OF inv] s] assms eng_booksD[OF inv]
  by (auto simp: eng_books_def free_slot_def dest: mset_subset_eqD)

lemma release_exclusive:
  assumes inv: "eng_books M e" and x: "x \<in># M" and ex: "exclusive (tracked (dedup_tab e)) x"
  shows "release_mapping e x = free_slot e (backend_slot x)"
    "eng_books (M - {#x#}) (release_mapping e x)"
proof -
  show eq: "release_mapping e x = free_slot e (backend_slot x)"
  proof (cases "kind x")
    case Direct
    then show ?thesis by (simp add: release_mapping_def)
  next
    case (Deduplicated fp)
    with ex have "tracked (dedup_tab e) fp = None" by (simp add: exclusive_def)
    from rt.remove_miss[OF this] Deduplicated show ?thesis by (simp add: release_mapping_def)
  qed
  have "eng_books (M - {#x#}) (free_slot (e\<lparr>dedup_tab := dedup_tab e\<rparr>) (backend_slot x))"
    using booksD(1,2)[OF eng_booksD(6)[OF inv] x] eng_booksD(3)[OF inv]
      books_release_exclusive[OF eng_booksD(6)[OF inv] x ex]
    by (intro free_slot_books[OF inv]) auto
  then show "eng_books (M - {#x#}) (release_mapping e x)" by (simp add: eq)
qed

lemma release_tracked:
  assumes inv: "eng_books M e" and x: "x \<in># M" "kind x = Deduplicated fp"
    and t: "tracked (dedup_tab e) fp = Some (c, s)"
  shows "eng_books (M - {#x#}) (release_mapping e x)"
    "tracked (dedup_tab (release_mapping e x)) =
       (tracked (dedup_tab e))(fp := if c \<le> 1 then None else Some (c - 1, s))"
proof -
  note bk = eng_booksD(6)[OF inv]
  have s: "backend_slot x = s" by (rule booksD(4)[OF bk x t])
  obtain t' r where r: "dedup_remove_reference (dedup_tab e) fp = (t', r)"
    by (cases "dedup_remove_reference (dedup_tab e) fp")
  have dt: "dt_inv t'" using dt_inv_remove_reference[OF eng_booksD(3)[OF inv], of fp] r by simp
  have "eng_books (M - {#x#}) (release_mapping e x) \<and>
    tracked (dedup_tab (release_mapping e x)) =
       (tracked (dedup_tab e))(fp := if c \<le> 1 then None else Some (c - 1, s))"
  proof (cases "c \<le> 1")
    case True
    with rt.remove_last[OF t] r have "r = Removed s" "tracked t' = (tracked (dedup_tab e))(fp := None)"
      by auto
    moreover have "eng_books (M - {#x#}) (free_slot (e\<lparr>dedup_tab := t'\<rparr>) s)"
      using booksD(1,2)[OF bk x(1)] s dt books_release_last[OF bk x t True] calculation
      by (intro free_slot_books[OF inv]) auto
    ultimately show ?thesis using True x r by (simp add: release_mapping_def free_slot_def)
  next
    case False
    with rt.remove_shared[OF t] r have "r = StillReferenced"
      "tracked t' = (tracked (dedup_tab e))(fp \<mapsto> (c - 1, s))" by auto
    moreover have "eng_books (M - {#x#}) (e\<lparr>dedup_tab := t'\<rparr>)"
      using books_release_shared[OF bk x t] False dt eng_booksD[OF inv] calculation(2)
      by (auto simp: eng_books_def dest: in_diffD)
    ultimately show ?thesis using False x r by (simp add: release_mapping_def)
  qed
  then show "eng_books (M - {#x#}) (release_mapping e x)"
    "tracked (dedup_tab (release_mapping e x)) =
       (tracked (dedup_tab e))(fp := if c \<le> 1 then None else Some (c - 1, s))" by simp_all
qed

lemma not_exclusiveE:
  assumes "\<not> exclusive TR x"
  obtains fp c s where "kind x = Deduplicated fp" "TR fp = Some (c, s)"
  using assms by (cases "kind x") (auto simp: exclusive_def)

lemma orphan_diff: "orphan (M - N) TR f \<Longrightarrow> orphan M TR f"
  by (auto simp: orphan_def dest: in_diffD)

lemma release_mapping_inv:
  assumes inv: "eng_books M e" and x: "x \<in># M"
  shows "eng_books (M - {#x#}) (release_mapping e x)"
    "orphan (M - {#x#}) (tracked (dedup_tab (release_mapping e x))) f \<Longrightarrow>
       orphan M (tracked (dedup_tab e)) f"
proof -
  show "eng_books (M - {#x#}) (release_mapping e x)"
    using release_exclusive(2)[OF inv x] release_tracked(1)[OF inv x] not_exclusiveE by metis
  assume o: "orphan (M - {#x#}) (tracked (dedup_tab (release_mapping e x))) f"
  show "orphan M (tracked (dedup_tab e)) f"
  proof (cases "exclusive (tracked (dedup_tab e)) x")
    case True
    with release_exclusive(1)[OF inv x] o show ?thesis
      by (auto simp: free_slot_def intro: orphan_diff)
  next
    case False
    then obtain fp c s where k: "kind x = Deduplicated fp" "tracked (dedup_tab e) fp = Some (c, s)"
      by (rule not_exclusiveE)
    note bk = eng_booksD(6)[OF inv]
    have False if "f = fp" "c \<le> 1"
    proof -
      from o that obtain y where y: "y \<in># M - {#x#}" "kind y = Deduplicated fp"
        by (auto simp: orphan_def)
      have "users M s = 1" using books_trackedD(1,2)[OF bk k(2)] that(2) by simp
      with users_one_unique[OF this x booksD(4)[OF bk x k] y(1)] booksD(4)[OF bk in_diffD[OF y(1)] y(2) k(2)]
      show False by simp
    qed
    with o release_tracked(2)[OF inv x k] show ?thesis
      by (auto simp: orphan_def dest: in_diffD split: if_splits)
  qed
qed

section \<open>Replacing a mapping\<close>

lemma eng_books_translation:
  "eng_books M e \<Longrightarrow> distinct (map fst tt) \<Longrightarrow> eng_books M (e\<lparr>translation := tt\<rparr>)"
  by (simp add: eng_books_def)

lemma disk_release [simp]: "disk (release_mapping e x) = disk e"
  by (auto simp: disk_def fun_eq_iff split: option.split)

lemma replace_mapping_inv:
  assumes inv: "eng_books (add_mset x (live e)) e"
  shows "eng_inv (replace_mapping e off x)"
    "disk (replace_mapping e off x) = (disk e)(off := the (slot_page (pstore e) (backend_slot x)))"
    "orphaned (replace_mapping e off x) f \<Longrightarrow> orphan (add_mset x (live e)) (tracked (dedup_tab e)) f"
    "fst ` set (translation (replace_mapping e off x)) = insert off (fst ` set (translation e))"
    "passthrough (replace_mapping e off x) = passthrough e"
proof -
  let ?e = "replace_mapping e off x" and ?e1 = "e\<lparr>translation := AList.update off x (translation e)\<rparr>"
  note d = eng_booksD(5)[OF inv]
  have b1: "eng_books (add_mset x (live e)) ?e1"
    by (rule eng_books_translation[OF inv]) (use d in simp)
  have disk1: "disk ?e1 = (disk e)(off := the (slot_page (pstore e) (backend_slot x)))"
    by (auto simp: disk_def fun_eq_iff split: option.split)
  have "eng_inv ?e \<and> disk ?e = disk ?e1
    \<and> (orphaned ?e f \<longrightarrow> orphan (add_mset x (live e)) (tracked (dedup_tab e)) f)
    \<and> translation ?e = translation ?e1 \<and> passthrough ?e = passthrough e"
  proof (cases "map_of (translation e) off")
    case None
    then have e: "?e = ?e1" by (simp add: replace_mapping_def translation_insert_def)
    have "live ?e1 = add_mset x (live e)" using vals_update[OF d] None by (simp add: live_def)
    with b1 e show ?thesis by (simp add: eng_inv_def orphaned_def)
  next
    case (Some old)
    then have e: "?e = release_mapping ?e1 old"
      by (simp add: replace_mapping_def translation_insert_def)
    have l: "live ?e1 = add_mset x (live e) - {#old#}"
      using vals_update[OF d] Some by (simp add: live_def)
    have old: "old \<in># add_mset x (live e)"
      using map_of_in_vals[OF Some] by (simp add: live_def)
    have "live ?e = live ?e1" by (simp add: e live_def)
    with release_mapping_inv[OF b1 old] l e show ?thesis
      by (simp add: eng_inv_def orphaned_def)
  qed
  then show "eng_inv ?e" "disk ?e = (disk e)(off := the (slot_page (pstore e) (backend_slot x)))"
    "orphaned ?e f \<Longrightarrow> orphan (add_mset x (live e)) (tracked (dedup_tab e)) f"
    "fst ` set (translation ?e) = insert off (fst ` set (translation e))"
    "passthrough ?e = passthrough e"
    using disk1 by simp_all
qed

lemma handle_discard_inv:
  assumes inv: "eng_inv e"
  shows "eng_inv (handle_discard e off)"
    "disk (handle_discard e off) = (disk e)(off := replicate PAGE_SIZE 0)"
    "orphaned (handle_discard e off) f \<Longrightarrow> orphaned e f"
    "translation (handle_discard e off) = AList.delete off (translation e)"
    "passthrough (handle_discard e off) = passthrough e"
proof -
  define st where "st = (pstats e)\<lparr>discards := discards (pstats e) + 1\<rparr>"
  let ?e = "handle_discard e off"
    and ?e1 = "e\<lparr>pstats := st, translation := AList.delete off (translation e)\<rparr>"
  have b: "eng_books (live e) e" using inv by (simp add: eng_inv_def)
  note d = eng_booksD(5)[OF b]
  have b1: "eng_books (live e) ?e1"
    using eng_books_translation[of "live e" "e\<lparr>pstats := st\<rparr>"] b d by simp
  have disk1: "disk ?e1 = (disk e)(off := replicate PAGE_SIZE 0)"
    by (auto simp: disk_def fun_eq_iff split: option.split)
  have "eng_inv ?e \<and> disk ?e = disk ?e1 \<and> (orphaned ?e f \<longrightarrow> orphaned e f)
    \<and> translation ?e = translation ?e1 \<and> passthrough ?e = passthrough e"
  proof (cases "map_of (translation e) off")
    case None
    then have e: "?e = ?e1"
      by (simp add: handle_discard_def translation_remove_def st_def Let_def)
    have "live ?e1 = live e" using vals_delete[OF d] None by (simp add: live_def)
    with b1 e show ?thesis by (simp add: eng_inv_def orphaned_def)
  next
    case (Some old)
    then have e: "?e = release_mapping ?e1 old"
      by (simp add: handle_discard_def translation_remove_def st_def Let_def)
    have l: "live ?e1 = live e - {#old#}" using vals_delete[OF d] Some by (simp add: live_def)
    have old: "old \<in># live e" using map_of_in_vals[OF Some] by (simp add: live_def)
    have "live ?e = live ?e1" by (simp add: e live_def)
    with release_mapping_inv[OF b1 old] l e show ?thesis
      by (simp add: eng_inv_def orphaned_def)
  qed
  then show "eng_inv ?e" "disk ?e = (disk e)(off := replicate PAGE_SIZE 0)"
    "orphaned ?e f \<Longrightarrow> orphaned e f" "translation ?e = AList.delete off (translation e)"
    "passthrough ?e = passthrough e"
    using disk1 by simp_all
qed

section \<open>Reading\<close>

lemma eng_store_same:
  assumes "eng_books M e" "ps_inv s" "total_slots s = total_slots (pstore e)"
    "\<forall>x \<in># M. slot_page s (backend_slot x) = slot_page (pstore e) (backend_slot x)"
  shows "eng_books M (e\<lparr>pstore := s\<rparr>)"
  using assms by (simp add: eng_books_def)

lemma eng_dedup_same:
  assumes "eng_books M e" "dt_inv t" "tracked t = tracked (dedup_tab e)"
  shows "eng_books M (e\<lparr>dedup_tab := t\<rparr>)"
  using assms by (simp add: eng_books_def)

lemma eng_fields [simp]:
  "live (e\<lparr>pstore := s\<rparr>) = live e" "live (e\<lparr>dedup_tab := t\<rparr>) = live e"
  "live (e\<lparr>slot_alloc := a\<rparr>) = live e" "disk (e\<lparr>dedup_tab := t\<rparr>) = disk e"
  "disk (e\<lparr>slot_alloc := a\<rparr>) = disk e"
  by (auto simp: live_def disk_def fun_eq_iff split: option.split)

lemma disk_store_same:
  assumes "\<forall>x \<in># live e. slot_page s (backend_slot x) = slot_page (pstore e) (backend_slot x)"
  shows "disk (e\<lparr>pstore := s\<rparr>) = disk e"
  using assms by (auto simp: disk_def live_def fun_eq_iff split: option.split dest: map_of_in_vals)

lemma handle_read_inv:
  assumes inv: "eng_inv e"
  shows "eng_inv (fst (handle_read e off))" "disk (fst (handle_read e off)) = disk e"
    "orphaned (fst (handle_read e off)) = orphaned e"
    "translation (fst (handle_read e off)) = translation e"
    "passthrough (fst (handle_read e off)) = passthrough e"
    "snd (handle_read e off) = Ok p \<Longrightarrow> p = disk e off"
proof -
  define e0 where "e0 = e\<lparr>pstats := (pstats e)\<lparr>total_reads := total_reads (pstats e) + 1\<rparr>\<rparr>"
  have b: "eng_books (live e0) e0" using inv by (simp add: eng_inv_def e0_def)
  have e0: "disk e0 = disk e" "translation e0 = translation e" "orphaned e0 = orphaned e"
    "passthrough e0 = passthrough e"
    by (simp_all add: e0_def)
  let ?r = "handle_read e off"
  have "eng_inv (fst ?r) \<and> disk (fst ?r) = disk e0 \<and> orphaned (fst ?r) = orphaned e0
    \<and> translation (fst ?r) = translation e0 \<and> passthrough (fst ?r) = passthrough e0
    \<and> (\<forall>p. snd ?r = Ok p \<longrightarrow> p = disk e0 off)"
  proof (cases "map_of (translation e0) off")
    case None
    then have "?r = (e0, Ok (replicate PAGE_SIZE 0))"
      by (simp add: handle_read_def translation_lookup_def e0_def Let_def)
    with None b show ?thesis by (simp add: eng_inv_def disk_def)
  next
    case (Some ent)
    obtain s r where r: "read_page (pstore e0) (backend_slot ent) = (s, r)"
      by (cases "read_page (pstore e0) (backend_slot ent)")
    then have h: "?r = (e0\<lparr>pstore := s\<rparr>, r)"
      using Some by (simp add: handle_read_def translation_lookup_def e0_def Let_def)
    note same = read_page_same[OF eng_booksD(1)[OF b], of "backend_slot ent"]
    have "eng_books (live e0) (e0\<lparr>pstore := s\<rparr>)"
      using same r by (intro eng_store_same[OF b]) simp_all
    moreover have "disk (e0\<lparr>pstore := s\<rparr>) = disk e0"
      using same r by (intro disk_store_same) simp
    moreover have "r = Ok p \<Longrightarrow> p = disk e0 off" for p
      using read_page_ok[OF eng_booksD(1)[OF b]] r Some by (simp add: disk_def)
    ultimately show ?thesis using h by (simp add: eng_inv_def orphaned_def fun_eq_iff)
  qed
  then show "eng_inv (fst ?r)" "disk (fst ?r) = disk e" "orphaned (fst ?r) = orphaned e"
    "translation (fst ?r) = translation e" "passthrough (fst ?r) = passthrough e"
    "snd ?r = Ok p \<Longrightarrow> p = disk e off"
    by (simp_all add: e0)
qed

section \<open>Writing\<close>

text \<open>
  Allocating a slot and writing a page into it: the store is full, or the write fails and
  the slot goes back, or the slot holds the page and no live slot has changed.
\<close>

lemma alloc_write_cases:
  assumes inv: "eng_inv e"
  obtains (full) "allocate_slot e = (e, Err StoreFull)" "sa_avail (slot_alloc e) = {}"
  | (failed) e1 slot e2 err where "allocate_slot e = (e1, Ok slot)"
      "write_page_to_slot e1 slot pg = (e2, Err err)" "eng_inv (free_slot e2 slot)"
      "disk (free_slot e2 slot) = disk e" "translation (free_slot e2 slot) = translation e"
      "dedup_tab (free_slot e2 slot) = dedup_tab e" "config_of (free_slot e2 slot) = config_of e"
  | (written) e1 slot sa st where "allocate_slot e = (e1, Ok slot)"
      "write_page_to_slot e1 slot pg = (e\<lparr>slot_alloc := sa, pstore := st\<rparr>, Ok ())"
      "sa_inv sa" "max_slots sa = total_slots st" "ps_inv st" "total_slots st = total_slots (pstore e)"
      "slot \<in> sa_avail (slot_alloc e)" "slot < total_slots st"
      "sa_avail sa = sa_avail (slot_alloc e) - {slot}"
      "slot_page st slot = Some (padded pg)"
      "\<forall>x \<in># live e. slot_page st (backend_slot x) = slot_page (pstore e) (backend_slot x)"
proof -
  have b: "eng_books (live e) e" using inv by (simp add: eng_inv_def)
  note D = eng_booksD[OF b]
  obtain sa r where al: "allocate (slot_alloc e) = (sa, r)" by (cases "allocate (slot_alloc e)")
  show thesis
  proof (cases r)
    case None
    with al allocate_None[of "slot_alloc e" sa] show thesis
      by (intro full) (simp_all add: allocate_slot_def)
  next
    case (Some slot)
    let ?e1 = "e\<lparr>slot_alloc := sa\<rparr>"
    have a1: "allocate_slot e = (?e1, Ok slot)" using al Some by (simp add: allocate_slot_def)
    note sl = allocate_Some[OF D(2) al[unfolded Some]]
    have sa: "sa_inv sa" "max_slots sa = total_slots (pstore e)"
      using allocate_inv[OF D(2)] al D(4) by auto
    have lt: "slot < total_slots (pstore e)"
      using sl(1) slots.finite_avail[OF D(2)] D(4) by auto
    obtain st w where wr: "write_page (pstore e) slot pg = (st, w)"
      by (cases "write_page (pstore e) slot pg")
    then have w2: "write_page_to_slot ?e1 slot pg = (e\<lparr>slot_alloc := sa, pstore := st\<rparr>, w)"
      by (simp add: write_page_to_slot_def)
    have st: "ps_inv st" "total_slots st = total_slots (pstore e)"
      using write_page_inv[OF D(1), of slot pg] write_page_total[OF D(1), of slot pg] wr by simp_all
    have same: "\<forall>x \<in># live e. slot_page st (backend_slot x) = slot_page (pstore e) (backend_slot x)"
    proof
      fix x assume x: "x \<in># live e"
      have "slot \<noteq> backend_slot x" using booksD(2)[OF D(6) x] sl(1) by auto
      with D(7)[OF x] write_page_other[OF D(1), of slot "backend_slot x" _ pg] wr
      show "slot_page st (backend_slot x) = slot_page (pstore e) (backend_slot x)" by auto
    qed
    show thesis
    proof (cases w)
      case (Inr u)
      with wr have "slot_page st slot = Some (padded pg)" using write_page_ok[OF D(1)] by simp
      with a1 w2 Inr sa st lt sl same show thesis
        by (intro written[of ?e1 slot st sa]) simp_all
    next
      case (Inl err)
      let ?f = "free_slot (e\<lparr>slot_alloc := sa, pstore := st\<rparr>) slot"
      have "slot \<notin> sa_avail sa" using sl(2) by simp
      note fr = free_slot_inv[OF sa(1) _ this]
      have "insert slot (sa_avail sa) = sa_avail (slot_alloc e)" using sl by auto
      then have "eng_inv ?f"
        using fr lt sa st same b by (auto simp: eng_inv_def eng_books_def free_slot_def live_def)
      moreover have "disk (e\<lparr>pstore := st\<rparr>) = disk e" by (rule disk_store_same[OF same])
      then have "disk ?f = disk e" by (simp add: free_slot_def disk_def)
      ultimately show thesis
        using a1 w2 Inl by (intro failed[where ?e1.0 = ?e1 and slot = slot and ?e2.0 = "e\<lparr>slot_alloc := sa, pstore := st\<rparr>" and err = err]) (simp_all add: free_slot_def config_of_def st)
    qed
  qed
qed

text \<open>
  What a write does: on success the page is stored at its offset and nothing else changes,
  on failure nothing changes at all.
\<close>

definition write_effect ::
    "proxy_engine \<Rightarrow> u64 \<Rightarrow> page \<Rightarrow> proxy_engine \<times> (backend_error + unit) \<Rightarrow> bool" where
  "write_effect e off pg res \<longleftrightarrow> eng_inv (fst res) \<and> config_of (fst res) = config_of e
     \<and> (case snd res of
          Inr _ \<Rightarrow> disk (fst res) = (disk e)(off := padded pg)
            \<and> fst ` set (translation (fst res)) = insert off (fst ` set (translation e))
        | Inl _ \<Rightarrow> disk (fst res) = disk e \<and> translation (fst res) = translation e)"

lemma write_effect_stored:
  assumes b: "eng_books (add_mset x (live e2)) e2"
    and "disk e2 = disk e" "translation e2 = translation e" "config_of e2 = config_of e"
    and "slot_page (pstore e2) (backend_slot x) = Some (padded pg)"
  shows "write_effect e off pg (replace_mapping e2 off x, Ok ())"
  using replace_mapping_inv[OF b] assms by (simp add: write_effect_def)

lemma disk_alloc_store [simp]:
  "disk (e\<lparr>slot_alloc := sa, pstore := st\<rparr>) = disk (e\<lparr>pstore := st\<rparr>)"
  "disk (e\<lparr>slot_alloc := sa, pstore := st, dedup_tab := t\<rparr>) = disk (e\<lparr>pstore := st\<rparr>)"
  "disk (count_unique e) = disk e"
  by (auto simp: disk_def count_unique_def fun_eq_iff split: option.split)

lemma write_direct_inv:
  assumes inv: "eng_inv e"
  shows "write_effect e off pg (write_direct e off pg)"
    "orphaned (fst (write_direct e off pg)) f \<Longrightarrow> orphaned e f"
proof -
  have "write_effect e off pg (write_direct e off pg)
    \<and> (orphaned (fst (write_direct e off pg)) f \<longrightarrow> orphaned e f)"
  proof (cases rule: alloc_write_cases[OF inv, where pg = pg, case_names full failed written])
    case full
    with inv show ?thesis by (simp add: write_direct_def write_effect_def)
  next
    case (failed e1 slot e2 err)
    then show ?thesis by (simp add: write_direct_def write_effect_def orphaned_def live_def)
  next
    case (written e1 slot sa st)
    define e2 where "e2 = count_unique (e\<lparr>slot_alloc := sa, pstore := st\<rparr>)"
    have b: "eng_books (live e) e" using inv by (simp add: eng_inv_def)
    have e2: "live e2 = live e" "translation e2 = translation e" "config_of e2 = config_of e"
      "tracked (dedup_tab e2) = tracked (dedup_tab e)" "slot_page (pstore e2) slot = Some (padded pg)"
      "disk e2 = disk e"
      using written disk_store_same[OF written(11)]
      by (simp_all add: e2_def) (simp_all add: count_unique_def config_of_def)
    have "books (add_mset (entry_direct slot) (live e)) (tracked (dedup_tab e)) (sa_avail sa) (total_slots st)"
      using books_add_direct[OF eng_booksD(6)[OF b] written(7)] written eng_booksD(4)[OF b] by simp
    then have b2: "eng_books (add_mset (entry_direct slot) (live e2)) e2"
      using b written e2(1) by (simp add: e2_def count_unique_def eng_books_def)
    have w: "write_direct e off pg = (replace_mapping e2 off (entry_direct slot), Ok ())"
      using written(1,2) by (auto simp: write_direct_def e2_def)
    have "orphaned (replace_mapping e2 off (entry_direct slot)) f \<Longrightarrow> orphaned e f"
      using replace_mapping_inv(3)[OF b2] e2 by (auto simp: orphaned_def orphan_def)
    with w write_effect_stored[OF b2] e2 show ?thesis by simp
  qed
  then show "write_effect e off pg (write_direct e off pg)"
    "orphaned (fst (write_direct e off pg)) f \<Longrightarrow> orphaned e f" by simp_all
qed

lemma insert_books:
  assumes b: "books M (tracked t) A m" and s: "slot \<in> A" "slot < m"
    and o: "\<not> orphan M (tracked t) fp" and i: "dedup_insert t fp pg slot = (t', ok)"
  defines "x \<equiv> (if ok then entry_deduplicated fp slot else entry_direct slot)"
  shows "books (add_mset x M) (tracked t') (A - {slot}) m"
    "has_room t \<Longrightarrow> orphan (add_mset x M) (tracked t') f \<Longrightarrow> orphan M (tracked t) f"
proof -
  show "books (add_mset x M) (tracked t') (A - {slot}) m"
  proof (cases ok)
    case False
    with rt.ins_False[of t fp pg slot t'] i books_add_direct[OF b s] show ?thesis by (simp add: x_def)
  next
    case True
    with i have i': "dedup_insert t fp pg slot = (t', True)" by simp
    from rt.ins_True[OF i'] have new: "tracked t fp = None" by simp
    note added = books_add_tracked[OF b s new o]
    from rt.ins_True[OF i'] consider
      "tracked t' = (tracked t)(fp \<mapsto> (1, slot))"
    | v c s' where "v \<noteq> fp" "tracked t v = Some (c, s')" "c \<le> 1"
        "tracked t' = (tracked t)(v := None, fp \<mapsto> (1, slot))" by auto
    then show ?thesis
    proof cases
      case 1
      with added True show ?thesis by (simp add: x_def)
    next
      case 2
      with books_untrack[OF added, of v c s'] True show ?thesis
        by (simp add: x_def fun_upd_twist)
    qed
  qed
  assume "has_room t" "orphan (add_mset x M) (tracked t') f"
  with i rt.ins_False[of t fp pg slot t'] rt.ins_True[of t fp pg slot t'] show "orphan M (tracked t) f"
    by (cases ok) (auto simp: orphan_def x_def split: if_splits)
qed

text \<open>No eviction can happen: the table has room, or no slot is left to insert for.\<close>

definition roomy :: "proxy_engine \<Rightarrow> bool" where
  "roomy e \<longleftrightarrow> has_room (dedup_tab e) \<or> sa_avail (slot_alloc e) = {}"

lemma write_unique_inv:
  assumes inv: "eng_inv e" and o: "\<not> orphaned e fp"
  shows "write_effect e off pg (write_unique_or_direct e off fp pg)"
    "roomy e \<Longrightarrow> orphaned (fst (write_unique_or_direct e off fp pg)) f \<Longrightarrow> orphaned e f"
proof -
  let ?w = "write_unique_or_direct e off fp pg"
  have "write_effect e off pg ?w
    \<and> (roomy e \<longrightarrow> orphaned (fst ?w) f \<longrightarrow> orphaned e f)"
  proof (cases rule: alloc_write_cases[OF inv, where pg = pg, case_names full failed written])
    case full
    with inv show ?thesis by (simp add: write_unique_or_direct_def write_effect_def)
  next
    case (failed e1 slot e2 err)
    then show ?thesis by (simp add: write_unique_or_direct_def write_effect_def orphaned_def live_def)
  next
    case (written e1 slot sa st)
    obtain t ok where i: "dedup_insert (dedup_tab e) fp pg slot = (t, ok)"
      by (cases "dedup_insert (dedup_tab e) fp pg slot")
    define e2 where "e2 = count_unique (e\<lparr>slot_alloc := sa, pstore := st, dedup_tab := t\<rparr>)"
    define x where "x = (if ok then entry_deduplicated fp slot else entry_direct slot)"
    have b: "eng_books (live e) e" using inv by (simp add: eng_inv_def)
    have t: "dt_inv t" "max_entries t = max_entries (dedup_tab e)"
      using dt_inv_insert[OF eng_booksD(3)[OF b], of fp pg slot] max_entries_const(2)[of "dedup_tab e" fp pg slot] i
      by simp_all
    have e2: "live e2 = live e" "translation e2 = translation e" "config_of e2 = config_of e"
      "slot_page (pstore e2) (backend_slot x) = Some (padded pg)" "disk e2 = disk e"
      "dedup_tab e2 = t"
      using written disk_store_same[OF written(11)] t
      by (simp_all add: e2_def x_def) (simp_all add: count_unique_def config_of_def)
    note bk = eng_booksD(6)[OF b] and o' = o[unfolded orphaned_def]
    note ib = insert_books[OF bk written(7) _ o' i, folded x_def]
    have "books (add_mset x (live e)) (tracked t) (sa_avail sa) (total_slots st)"
      using ib(1) written eng_booksD(4)[OF b] by simp
    then have b2: "eng_books (add_mset x (live e2)) e2"
      using b written t e2(1,4) by (auto simp: e2_def count_unique_def eng_books_def)
    have w: "?w = (replace_mapping e2 off x, Ok ())"
      using written(1,2) i by (auto simp: write_unique_or_direct_def e2_def x_def)
    have "roomy e \<Longrightarrow> has_room (dedup_tab e)" using written(7) by (auto simp: roomy_def)
    then have "roomy e \<Longrightarrow> orphaned (replace_mapping e2 off x) f \<Longrightarrow> orphaned e f"
      using replace_mapping_inv(3)[OF b2] ib(2) e2 written eng_booksD(4)[OF b]
      by (simp add: orphaned_def)
    with w write_effect_stored[OF b2] e2 show ?thesis by simp
  qed
  then show "write_effect e off pg ?w"
    "roomy e \<Longrightarrow> orphaned (fst ?w) f \<Longrightarrow> orphaned e f" by simp_all
qed

lemma live_size: "size (live e) = length (translation e)"
  by (simp add: live_def vals_def)

lemma users_le_size: "users M s \<le> size M"
  unfolding users_def by (rule size_filter_mset_lesseq)

lemma write_effect_cong:
  assumes "disk e1 = disk e" "translation e1 = translation e" "config_of e1 = config_of e"
  shows "write_effect e1 off pg res = write_effect e off pg res"
  unfolding write_effect_def assms ..

lemma write_duplicate_inv:
  assumes inv: "eng_inv e" and t: "tracked (dedup_tab e) fp = Some (c, slot)"
    and len: "Suc (length (translation e)) < 2 ^ 32" and pg: "padded pg = pg"
  shows "write_effect e off pg (write_duplicate e off fp pg slot)"
    "roomy e \<Longrightarrow> orphaned (fst (write_duplicate e off fp pg slot)) f \<Longrightarrow> orphaned e f"
proof -
  let ?w = "write_duplicate e off fp pg slot"
  have b: "eng_books (live e) e" using inv by (simp add: eng_inv_def)
  note D = eng_booksD[OF b]
  obtain s r where r: "read_page (pstore e) slot = (s, r)" by (cases "read_page (pstore e) slot")
  define e1 where "e1 = e\<lparr>pstore := s\<rparr>"
  note same = read_page_same[OF D(1), of slot]
  have b1: "eng_books (live e1) e1"
    using same r by (auto simp: e1_def intro!: eng_store_same[OF b])
  have e1: "disk e1 = disk e" "translation e1 = translation e" "config_of e1 = config_of e"
    "dedup_tab e1 = dedup_tab e" "live e1 = live e" "eng_inv e1"
    using same r disk_store_same[of e s] b1 by (simp_all add: e1_def config_of_def eng_inv_def)
  have ro: "roomy e1 = roomy e" by (simp add: e1_def roomy_def)
  have no: "\<not> orphaned e1 fp" using t e1 by (simp add: orphaned_def orphan_def)
  have oe: "orphaned e1 = orphaned e" using e1 by (simp add: orphaned_def fun_eq_iff)
  have "write_effect e off pg ?w
    \<and> (roomy e \<longrightarrow> orphaned (fst ?w) f \<longrightarrow> orphaned e f)"
  proof (cases "r = Ok pg")
    case False
    show ?thesis
    proof (cases r)
      case (Inl err)
      with r e1 oe show ?thesis by (simp add: write_duplicate_def write_effect_def e1_def)
    next
      case (Inr p)
      with False r have "?w = write_unique_or_direct e1 off fp pg"
        by (simp add: write_duplicate_def e1_def Let_def)
      with write_unique_inv[OF e1(6) no, where off = off and pg = pg] e1 oe ro show ?thesis
        by (simp add: write_effect_cong[OF e1(1-3)])
    qed
  next
    case True
    note bk = D(6)
    have "Suc c < 2 ^ 32"
      using books_trackedD(2)[OF bk t] users_le_size[of "live e" slot] len by (simp add: live_size)
    note add = rt.add_hit[OF t this]
    obtain t' where t': "dedup_add_reference (dedup_tab e) fp = (t', True)"
      "tracked t' = (tracked (dedup_tab e))(fp \<mapsto> (Suc c, slot))"
      using add by (cases "dedup_add_reference (dedup_tab e) fp") auto
    define st where "st = (pstats e1)\<lparr>duplicate_writes := duplicate_writes (pstats e1) + 1\<rparr>"
    define e2 where "e2 = e1\<lparr>dedup_tab := t', pstats := st\<rparr>"
    have w: "?w = (replace_mapping e2 off (entry_deduplicated fp slot), Ok ())"
      using r True t' by (simp add: write_duplicate_def e1_def e2_def st_def Let_def)
    have page: "slot_page (pstore e) slot = Some pg" using read_page_ok[OF D(1)] r True by simp
    have dt: "dt_inv t'" "max_entries t' = max_entries (dedup_tab e)"
      using dt_inv_add_reference[OF D(3), of fp] max_entries_const(3)[of "dedup_tab e" fp] t' by simp_all
    have e2: "live e2 = live e" "translation e2 = translation e" "config_of e2 = config_of e"
      "slot_page (pstore e2) slot = Some pg" "disk e2 = disk e" "dedup_tab e2 = t'"
      using e1 dt page same r by (simp_all add: e2_def config_of_def e1_def disk_def)
    have "books (add_mset (entry_deduplicated fp slot) (live e)) (tracked t')
        (sa_avail (slot_alloc e)) (total_slots (pstore e))"
      using books_add_ref[OF bk t] t' D(4) by simp
    then have b2: "eng_books (add_mset (entry_deduplicated fp slot) (live e2)) e2"
      using b1 dt e1 e2 same r by (auto simp: e2_def e1_def eng_books_def)
    have "orphan (add_mset (entry_deduplicated fp slot) (live e2)) (tracked (dedup_tab e2)) f
        \<Longrightarrow> orphaned e f"
      using e2 t' by (auto simp: orphaned_def orphan_def split: if_splits)
    with replace_mapping_inv(3)[OF b2, of off f]
    have "orphaned (replace_mapping e2 off (entry_deduplicated fp slot)) f \<Longrightarrow> orphaned e f" by blast
    with w write_effect_stored[OF b2, of e pg off] e2 pg show ?thesis by simp
  qed
  then show "write_effect e off pg ?w"
    "roomy e \<Longrightarrow> orphaned (fst ?w) f \<Longrightarrow> orphaned e f" by simp_all
qed

text \<open>
  The write handler, in both modes. The two side conditions are exactly where the code
  can go wrong: re-inserting a page whose metadata was evicted while a translation still
  refers to it, and overflowing the 32-bit reference count.
\<close>

lemma handle_write_inv:
  assumes inv: "eng_inv e" and len: "Suc (length (translation e)) < 2 ^ 32"
    and o: "passthrough e \<or> \<not> orphaned e (fingerprint_page h (padded data))"
  shows "write_effect e off (padded data) (handle_write h e off data)"
    "passthrough e \<or> roomy e \<Longrightarrow> orphaned (fst (handle_write h e off data)) f \<Longrightarrow> orphaned e f"
proof -
  let ?w = "handle_write h e off data" and ?pg = "padded data"
  let ?fp = "fingerprint_page h ?pg"
  define e0 where "e0 = e\<lparr>pstats := (pstats e)\<lparr>total_writes := total_writes (pstats e) + 1\<rparr>\<rparr>"
  have e0: "eng_inv e0" "disk e0 = disk e" "translation e0 = translation e"
    "config_of e0 = config_of e" "orphaned e0 = orphaned e" "dedup_tab e0 = dedup_tab e"
    using inv by (simp_all add: e0_def eng_inv_def)
  have "write_effect e off ?pg ?w
    \<and> (passthrough e \<or> roomy e \<longrightarrow> orphaned (fst ?w) f \<longrightarrow> orphaned e f)"
  proof (cases "passthrough e")
    case True
    then have "?w = write_direct e0 off ?pg" by (simp add: handle_write_def e0_def Let_def)
    with write_direct_inv[OF e0(1), of off ?pg] e0 show ?thesis
      by (simp add: write_effect_cong[OF e0(2-4)])
  next
    case False
    obtain t l where l: "dedup_lookup (dedup_tab e0) ?fp ?pg = (t, l)"
      by (cases "dedup_lookup (dedup_tab e0) ?fp ?pg")
    define e1 where "e1 = e0\<lparr>dedup_tab := t\<rparr>"
    have b: "eng_books (live e0) e0" using e0(1) by (simp add: eng_inv_def)
    have t: "tracked t = tracked (dedup_tab e)" "dt_inv t" "max_entries t = max_entries (dedup_tab e)"
      "has_room t = has_room (dedup_tab e)"
      using rt.look_tr[of "dedup_tab e0" ?fp ?pg] dt_inv_lookup[OF eng_booksD(3)[OF b], of ?fp ?pg]
        max_entries_const(1)[of "dedup_tab e0" ?fp ?pg] l e0(6)
      by (auto simp: has_room_def dedup_lookup_def split: if_splits option.splits)
    have "orphaned e1 = orphaned e0" by (intro ext) (simp add: e1_def orphaned_def t(1) e0(6))
    then have e1: "eng_inv e1" "disk e1 = disk e" "translation e1 = translation e"
      "config_of e1 = config_of e" "orphaned e1 = orphaned e" "dedup_tab e1 = t"
      using eng_dedup_same[OF b t(2)] t e0
      by (simp_all add: e1_def eng_inv_def config_of_def)
    have ro: "roomy e1 = roomy e"
      using t(4) by (simp add: roomy_def e1_def e0_def)
    show ?thesis
    proof (cases l)
      case Miss
      with False l have w: "?w = write_unique_or_direct e1 off ?fp ?pg"
        by (simp add: handle_write_def e0_def e1_def Let_def)
      have "\<not> orphaned e1 ?fp" using o False e1(5) by simp
      from write_unique_inv[OF e1(1) this, of off ?pg] w e1 t False ro show ?thesis
        by (simp add: write_effect_cong[OF e1(2-4)])
    next
      case (Duplicate slot)
      with False l have w: "?w = write_duplicate e1 off ?fp ?pg slot"
        by (simp add: handle_write_def e0_def e1_def Let_def)
      obtain c where "tracked (dedup_tab e1) ?fp = Some (c, slot)"
        using rt.look_hit[of "dedup_tab e0" ?fp ?pg slot] l Duplicate t e0(6) e1(6) by auto
      from write_duplicate_inv[OF e1(1) this, of ?pg off] w e1 t False len ro show ?thesis
        by (simp add: write_effect_cong[OF e1(2-4)] padded_def)
    qed
  qed
  then show "write_effect e off ?pg ?w"
    "passthrough e \<or> roomy e \<Longrightarrow> orphaned (fst ?w) f \<Longrightarrow> orphaned e f" by simp_all
qed

text \<open>
  What the device shows after a write does not depend on the first condition: a page whose
  metadata was evicted is stored and mapped like any other, and only the books suffer.
\<close>

lemma disk_replace:
  "disk (replace_mapping e off x) = (disk e)(off := the (slot_page (pstore e) (backend_slot x)))"
proof -
  have "disk (e\<lparr>translation := AList.update off x (translation e)\<rparr>) =
      (disk e)(off := the (slot_page (pstore e) (backend_slot x)))"
    by (auto simp: disk_def fun_eq_iff update_conv' split: option.split)
  then show ?thesis by (simp add: replace_mapping_def translation_insert_def split: option.split)
qed

lemma write_unique_disk:
  assumes inv: "eng_inv e" and w: "write_unique_or_direct e off fp pg = (e', r)"
  shows "disk e' = (if is_ok r then (disk e)(off := padded pg) else disk e)" "\<not> is_ok r \<Longrightarrow> eng_inv e'"
proof -
  have "disk e' = (if is_ok r then (disk e)(off := padded pg) else disk e) \<and> (\<not> is_ok r \<longrightarrow> eng_inv e')"
  proof (cases rule: alloc_write_cases[OF inv, where pg = pg, case_names full failed written])
    case full
    with inv w show ?thesis by (auto simp: write_unique_or_direct_def)
  next
    case (failed e1 slot e2 err)
    with w show ?thesis by (auto simp: write_unique_or_direct_def)
  next
    case (written e1 slot sa st)
    obtain t ok where i: "dedup_insert (dedup_tab e) fp pg slot = (t, ok)" by fastforce
    define e2 where "e2 = count_unique (e\<lparr>slot_alloc := sa, pstore := st, dedup_tab := t\<rparr>)"
    define x where "x = (if ok then entry_deduplicated fp slot else entry_direct slot)"
    have "disk e2 = disk e" "slot_page (pstore e2) (backend_slot x) = Some (padded pg)"
      using written disk_store_same[OF written(11)] by (simp_all add: e2_def x_def) (simp_all add: count_unique_def)
    moreover have "e' = replace_mapping e2 off x" "r = Ok ()"
      using written(1,2) i w by (auto simp: write_unique_or_direct_def e2_def x_def)
    ultimately show ?thesis by (simp add: disk_replace)
  qed
  then show "disk e' = (if is_ok r then (disk e)(off := padded pg) else disk e)" "\<not> is_ok r \<Longrightarrow> eng_inv e'"
    by simp_all
qed

lemma handle_write_disk:
  assumes inv: "eng_inv e" and len: "Suc (length (translation e)) < 2 ^ 32" and w: "handle_write h e off data = (e', r)"
  shows "disk e' = (if is_ok r then (disk e)(off := padded data) else disk e)" "\<not> is_ok r \<Longrightarrow> eng_inv e'"
proof -
  let ?fp = "fingerprint_page h (padded data)"
  define e0 where "e0 = e\<lparr>pstats := (pstats e)\<lparr>total_writes := total_writes (pstats e) + 1\<rparr>\<rparr>"
  have "disk e' = (if is_ok r then (disk e)(off := padded data) else disk e) \<and> (\<not> is_ok r \<longrightarrow> eng_inv e')"
  proof (cases "passthrough e \<or> \<not> orphaned e ?fp")
    case True
    from handle_write_inv(1)[OF inv len this, of off] w show ?thesis
      by (cases r) (auto simp: write_effect_def padded_padded)
  next
    case False
    have e0: "eng_inv e0" "disk e0 = disk e" "tracked (dedup_tab e0) = tracked (dedup_tab e)"
      using inv by (simp_all add: e0_def eng_inv_def)
    obtain t l where l: "dedup_lookup (dedup_tab e0) ?fp (padded data) = (t, l)" by fastforce
    have none: "tracked (dedup_tab e0) ?fp = None" using False e0(3) by (simp add: orphaned_def orphan_def)
    have miss: "l = Miss"
    proof (cases l)
      case (Duplicate slot)
      with rt.look_hit[of "dedup_tab e0" ?fp "padded data" slot] l none show ?thesis by auto
    qed
    define e1 where "e1 = e0\<lparr>dedup_tab := t\<rparr>"
    have b: "eng_books (live e0) e0" using e0(1) by (simp add: eng_inv_def)
    have t: "tracked t = tracked (dedup_tab e0)" "dt_inv t"
      using rt.look_tr[of "dedup_tab e0" ?fp "padded data"] dt_inv_lookup[OF eng_booksD(3)[OF b], of ?fp "padded data"] l
      by simp_all
    have e1: "eng_inv e1" "disk e1 = disk e"
      using eng_dedup_same[OF b t(2)] t(1) e0(2) by (simp_all add: e1_def eng_inv_def)
    have "write_unique_or_direct e1 off ?fp (padded data) = (e', r)"
      using False w l miss by (simp add: handle_write_def e0_def e1_def Let_def)
    from write_unique_disk[OF e1(1) this] e1(2) show ?thesis by (simp add: padded_padded)
  qed
  then show "disk e' = (if is_ok r then (disk e)(off := padded data) else disk e)" "\<not> is_ok r \<Longrightarrow> eng_inv e'"
    by simp_all
qed

end
