(* ===== verification/Block_Device.thy ===== *)
theory Block_Device
  imports Prelude
begin

text \<open>
  The interface between the storage engine and the ublk frontend: a device of pages that
  can be written, read and discarded one page at a time (locale \<open>page_device\<close>), and the
  loops by which a frontend serves a request that spans several pages. The engine
  interprets the locale in theory \<open>Engine_Device\<close>.
\<close>

section \<open>Request loops\<close>

text \<open>\<open>for (offset, chunk) { write(offset, chunk)?; }\<close>: stops at the first error.\<close>

fun write_loop :: "('s \<Rightarrow> 'o \<Rightarrow> 'd \<Rightarrow> 's \<times> ('e + unit)) \<Rightarrow> 's \<Rightarrow> ('o \<times> 'd) list \<Rightarrow> 's \<times> ('e + unit)" where
  "write_loop wr s [] = (s, Ok ())"
| "write_loop wr s ((off, d) # xs) =
     (case wr s off d of
        (s1, Inl err) \<Rightarrow> (s1, Err err)
      | (s1, Inr _) \<Rightarrow> write_loop wr s1 xs)"

text \<open>
  \<open>for (offset, chunk) { page = read(offset)?; if page.len() != chunk.len() return err;
  chunk.copy_from_slice(&page) }\<close>. The last component is the buffer, chunk by chunk.
\<close>

fun read_loop ::
    "('s \<Rightarrow> 'o \<Rightarrow> 's \<times> ('e + 'b list)) \<Rightarrow> 'x \<Rightarrow> 's \<Rightarrow> ('o \<times> 'b list) list
      \<Rightarrow> 's \<times> ('x + unit) \<times> 'b list list" where
  "read_loop rd x s [] = (s, Ok (), [])"
| "read_loop rd x s ((off, chunk) # xs) =
     (case rd s off of
        (s1, Inl _) \<Rightarrow> (s1, Err x, chunk # map snd xs)
      | (s1, Inr page) \<Rightarrow>
          if length page \<noteq> length chunk then (s1, Err x, chunk # map snd xs)
          else (case read_loop rd x s1 xs of (s2, r, cs) \<Rightarrow> (s2, r, page # cs)))"

definition discard_loop :: "('s \<Rightarrow> 'o \<Rightarrow> 's) \<Rightarrow> 's \<Rightarrow> 'o list \<Rightarrow> 's" where
  "discard_loop dc s offs = foldl dc s offs"

section \<open>The device\<close>

locale page_device =
  fixes inv :: "'s \<Rightarrow> bool"
    and valid :: "'o set"
    and disk :: "'s \<Rightarrow> 'o \<Rightarrow> 'b list"
    and blank :: "'b list"
    and norm :: "'d \<Rightarrow> 'b list"
    and wr :: "'s \<Rightarrow> 'o \<Rightarrow> 'd \<Rightarrow> 's \<times> ('e + unit)"
    and rd :: "'s \<Rightarrow> 'o \<Rightarrow> 's \<times> ('e + 'b list)"
    and dc :: "'s \<Rightarrow> 'o \<Rightarrow> 's"
  assumes wr_inv: "inv s \<Longrightarrow> off \<in> valid \<Longrightarrow> inv (fst (wr s off d))"
    and wr_ok: "inv s \<Longrightarrow> off \<in> valid \<Longrightarrow> snd (wr s off d) = Ok () \<Longrightarrow>
      disk (fst (wr s off d)) = (disk s)(off := norm d)"
    and wr_err: "inv s \<Longrightarrow> off \<in> valid \<Longrightarrow> snd (wr s off d) = Err err \<Longrightarrow>
      disk (fst (wr s off d)) = disk s"
    and rd_inv: "inv s \<Longrightarrow> inv (fst (rd s off)) \<and> disk (fst (rd s off)) = disk s"
    and rd_ok: "inv s \<Longrightarrow> snd (rd s off) = Ok p \<Longrightarrow> p = disk s off"
    and dc_inv: "inv s \<Longrightarrow> inv (dc s off) \<and> disk (dc s off) = (disk s)(off := blank)"
begin

definition store_pages :: "('o \<times> 'd) list \<Rightarrow> ('o \<Rightarrow> 'b list) \<Rightarrow> 'o \<Rightarrow> 'b list" where
  "store_pages xs f = foldl (\<lambda>g (off, d). g(off := norm d)) f xs"

text \<open>
  A multi-page write stores a prefix of the pages, in order, and all of them when it
  succeeds: an error never leaves a page with mixed contents.
\<close>

lemma write_loop_prefix:
  assumes "inv s" "fst ` set xs \<subseteq> valid"
  shows "inv (fst (write_loop wr s xs)) \<and>
    (\<exists>n \<le> length xs. disk (fst (write_loop wr s xs)) = store_pages (take n xs) (disk s)
      \<and> (snd (write_loop wr s xs) = Ok () \<longleftrightarrow> n = length xs))"
  using assms
proof (induction xs arbitrary: s)
  case Nil
  then show ?case by (simp add: store_pages_def)
next
  case (Cons x xs)
  obtain off d where x: "x = (off, d)" by (cases x)
  obtain s1 r where w: "wr s off d = (s1, r)" by (cases "wr s off d")
  have off: "off \<in> valid" and sub: "fst ` set xs \<subseteq> valid" using Cons.prems(2) x by auto
  have i1: "inv s1" using wr_inv[OF Cons.prems(1) off, of d] w by simp
  show ?case
  proof (cases r)
    case (Inl err)
    with wr_err[OF Cons.prems(1) off, of d err] w x i1 show ?thesis
      by (auto simp: store_pages_def intro!: exI[of _ 0])
  next
    case (Inr u)
    then have d1: "disk s1 = (disk s)(off := norm d)"
      using wr_ok[OF Cons.prems(1) off, of d] w by simp
    from Cons.IH[OF i1 sub] obtain n where n: "n \<le> length xs"
      "disk (fst (write_loop wr s1 xs)) = store_pages (take n xs) (disk s1)"
      "snd (write_loop wr s1 xs) = Ok () \<longleftrightarrow> n = length xs"
      "inv (fst (write_loop wr s1 xs))" by blast
    with x w Inr d1 show ?thesis
      by (intro conjI exI[of _ "Suc n"]) (auto simp: store_pages_def)
  qed
qed

lemma read_loop_same:
  assumes "inv s"
  shows "inv (fst (read_loop rd x s xs)) \<and> disk (fst (read_loop rd x s xs)) = disk s
    \<and> (fst (snd (read_loop rd x s xs)) = Ok () \<longrightarrow>
        snd (snd (read_loop rd x s xs)) = map (\<lambda>(off, _). disk s off) xs)"
  using assms
proof (induction xs arbitrary: s)
  case (Cons y xs)
  obtain off c where y: "y = (off, c)" by (cases y)
  obtain s1 r where w: "rd s off = (s1, r)" by (cases "rd s off")
  have s1: "inv s1" "disk s1 = disk s" using rd_inv[OF Cons.prems, of off] w by simp_all
  obtain s2 r2 cs where l: "read_loop rd x s1 xs = (s2, r2, cs)"
    by (cases "read_loop rd x s1 xs") auto
  from Cons.IH[OF s1(1)] s1 l rd_ok[OF Cons.prems, of off] w y show ?case
    by (auto split: sum.split)
qed simp

lemma discard_loop_blank:
  assumes "inv s"
  shows "inv (discard_loop dc s offs)
    \<and> disk (discard_loop dc s offs) = (\<lambda>off. if off \<in> set offs then blank else disk s off)"
  using assms
proof (induction offs arbitrary: s)
  case (Cons off offs)
  have "inv (dc s off)" "disk (dc s off) = (disk s)(off := blank)"
    using dc_inv[OF Cons.prems] by auto
  with Cons.IH[of "dc s off"] show ?case by (auto simp: discard_loop_def fun_eq_iff)
qed (simp add: discard_loop_def)

lemma store_pages_distinct:
  assumes "distinct (map fst xs)"
  shows "store_pages xs f off = (case map_of xs off of None \<Rightarrow> f off | Some d \<Rightarrow> norm d)"
  using assms
proof (induction xs arbitrary: f)
  case (Cons x xs)
  then have "map_of xs (fst x) = None" by (simp add: map_of_eq_None_iff)
  with Cons show ?case by (cases x) (auto simp: store_pages_def split: option.split)
qed (simp add: store_pages_def)

text \<open>A successful multi-page write is read back page by page.\<close>

lemma write_then_read:
  assumes "inv s" "fst ` set xs \<subseteq> valid" "distinct (map fst xs)"
    and "write_loop wr s xs = (s1, Ok ())" "map fst ys = map fst xs"
    and "read_loop rd x s1 ys = (s2, Ok (), cs)"
  shows "cs = map (norm \<circ> snd) xs"
proof -
  from write_loop_prefix[OF assms(1,2)] assms(4)
  have i: "inv s1" and d: "disk s1 = store_pages xs (disk s)" by auto
  have "cs = map (disk s1) (map fst ys)"
    using read_loop_same[OF i, of x ys] assms(6) by (simp add: case_prod_beta)
  also have "\<dots> = map (norm \<circ> snd) xs"
    using assms(3,5) d by (auto simp: store_pages_distinct)
  finally show ?thesis .
qed

end

end
