(* ===== verification/Engine_Device.thy ===== *)
theory Engine_Device
  imports Engine_Laws Block_Device
begin

text \<open>
  The storage engine as a page device. The side conditions of \<open>handle_write_inv\<close> hold at
  every step when the engine is in passthrough mode, or when the deduplication table has at
  least as many entries as the store has slots or more entries than the device has pages
  (then nothing is ever evicted); \<open>dev_inv V\<close> is the invariant for a device whose page
  offsets are \<open>V\<close>.
\<close>

definition table_fits :: "u64 set \<Rightarrow> u64 \<Rightarrow> u64 \<Rightarrow> bool" where
  "table_fits V slots maxe \<longleftrightarrow> slots \<le> maxe \<or> card V < unat maxe"

definition dev_inv :: "u64 set \<Rightarrow> proxy_engine \<Rightarrow> bool" where
  "dev_inv V e \<longleftrightarrow> eng_inv e \<and> finite V \<and> Suc (card V) < 2 ^ 32
     \<and> fst ` set (translation e) \<subseteq> V
     \<and> (passthrough e \<or> (\<forall>fp. \<not> orphaned e fp)
          \<and> table_fits V (total_slots (pstore e)) (max_entries (dedup_tab e)))"

section \<open>A large table always has room\<close>

text \<open>Different tracked fingerprints have different slots, and none of them is free.\<close>

lemma tracked_slots_inj:
  assumes "books M (tracked t) A m" "distinct (map fst (dt_map t))"
  shows "length (dt_map t) \<le> card ({..<m} - A)"
proof -
  let ?slot = "\<lambda>fp. snd (the (tracked t fp))"
  have tr: "\<exists>c. tracked t fp = Some (c, ?slot fp)" if "fp \<in> fst ` set (dt_map t)" for fp
    using that by (auto simp: tracked_def map_of_eq_None_iff dest!: map_of_is_SomeI[OF assms(2)])
  have inj: "inj_on ?slot (fst ` set (dt_map t))"
  proof (rule inj_onI, rule ccontr)
    fix f g assume fg: "f \<in> fst ` set (dt_map t)" "g \<in> fst ` set (dt_map t)" "?slot f = ?slot g" "f \<noteq> g"
    obtain c d where "tracked t f = Some (c, ?slot f)" "tracked t g = Some (d, ?slot g)"
      using tr[OF fg(1)] tr[OF fg(2)] by blast
    from books_tracked_distinct[OF assms(1) this] fg(3,4) show False by simp
  qed
  have sub: "?slot ` (fst ` set (dt_map t)) \<subseteq> {..<m} - A"
  proof
    fix s assume "s \<in> ?slot ` (fst ` set (dt_map t))"
    then obtain fp where fp: "fp \<in> fst ` set (dt_map t)" "s = ?slot fp" by blast
    then obtain c where "tracked t fp = Some (c, s)" using tr by blast
    from booksD(1,2)[OF assms(1) books_trackedD(4)[OF assms(1) this]] show "s \<in> {..<m} - A" by simp
  qed
  have "length (dt_map t) = card (fst ` set (dt_map t))"
    using distinct_card[OF assms(2)] by simp
  also have "\<dots> \<le> card ({..<m} - A)" by (rule card_inj_on_le[OF inj sub]) simp
  finally show ?thesis .
qed

lemma card_lessThan_word: "card {..<(m :: u64)} = unat m"
proof -
  have "unat ` {..<m} = {..<unat m}"
  proof (intro equalityI subsetI)
    fix n assume "n \<in> {..<unat m}"
    moreover from this have "unat (word_of_nat n :: u64) = n"
      using unat_u64_less[of m] by (simp add: unat_of_nat)
    ultimately show "n \<in> unat ` {..<m}"
      by (intro image_eqI[of _ _ "word_of_nat n"]) (simp_all add: word_less_nat_alt)
  qed (auto simp: word_less_nat_alt)
  moreover have "inj_on unat {..<m}" by (auto intro: inj_onI simp: word_unat_eq_iff)
  ultimately show ?thesis by (metis card_image card_lessThan)
qed

lemma room_when_large:
  assumes inv: "eng_inv e" and s: "s \<in> sa_avail (slot_alloc e)"
    and big: "total_slots (pstore e) \<le> max_entries (dedup_tab e)"
  shows "has_room (dedup_tab e)"
proof -
  have b: "eng_books (live e) e" using inv by (simp add: eng_inv_def)
  note D = eng_booksD[OF b]
  have lt: "s \<in> {..<total_slots (pstore e)}" using s slots.finite_avail[OF D(2)] D(4) by auto
  have "length (dt_map (dedup_tab e)) \<le> card ({..<total_slots (pstore e)} - sa_avail (slot_alloc e))"
    using tracked_slots_inj[OF D(6)] D(3,4) by (simp add: dt_inv_def)
  also have "\<dots> < card {..<total_slots (pstore e)}"
    using s lt by (intro psubset_card_mono) auto
  finally show ?thesis
    using big by (simp add: has_room_def card_lessThan_word word_le_nat_alt)
qed

text \<open>Every tracked fingerprint has a mapping of its own, so few mappings leave room.\<close>

lemma room_when_few:
  assumes inv: "eng_inv e" and few: "length (translation e) < unat (max_entries (dedup_tab e))"
  shows "has_room (dedup_tab e)"
proof -
  have b: "eng_books (live e) e" using inv by (simp add: eng_inv_def)
  note D = eng_booksD[OF b]
  let ?ent = "\<lambda>fp. entry_deduplicated fp (snd (the (tracked (dedup_tab e) fp)))"
  have "?ent ` (fst ` set (dt_map (dedup_tab e))) \<subseteq> set_mset (live e)"
  proof
    fix x assume "x \<in> ?ent ` (fst ` set (dt_map (dedup_tab e)))"
    then obtain fp where fp: "fp \<in> fst ` set (dt_map (dedup_tab e))" "x = ?ent fp" by blast
    then obtain c s where "tracked (dedup_tab e) fp = Some (c, s)"
      using D(3) by (auto simp: tracked_def dt_inv_def dest: map_of_is_SomeI)
    with fp(2) books_trackedD(4)[OF D(6) this] show "x \<in># live e" by simp
  qed
  moreover have "inj_on ?ent (fst ` set (dt_map (dedup_tab e)))" by (auto intro: inj_onI)
  ultimately have "card (fst ` set (dt_map (dedup_tab e))) \<le> card (set_mset (live e))"
    by (intro card_inj_on_le) simp_all
  also have "\<dots> \<le> length (translation e)" using card_set_mset_le[of "live e"] by (simp add: live_size)
  finally have "length (dt_map (dedup_tab e)) \<le> length (translation e)"
    using D(3) distinct_card[of "map fst (dt_map (dedup_tab e))"] by (simp add: dt_inv_def)
  with few show ?thesis by (simp add: has_room_def)
qed

section \<open>The operations keep the device invariant\<close>

lemma dev_inv_length:
  assumes "dev_inv V e"
  shows "Suc (length (translation e)) < 2 ^ 32" "length (translation e) \<le> card V"
proof -
  have "eng_books (live e) e" using assms by (simp add: dev_inv_def eng_inv_def)
  from distinct_card[OF eng_booksD(5)[OF this]]
  have "length (translation e) = card (fst ` set (translation e))" by simp
  also have "\<dots> \<le> card V" using assms by (intro card_mono) (auto simp: dev_inv_def)
  finally show "length (translation e) \<le> card V" .
  with assms show "Suc (length (translation e)) < 2 ^ 32" by (simp add: dev_inv_def)
qed

lemma dev_roomy: "dev_inv V e \<Longrightarrow> passthrough e \<or> roomy e"
  using room_when_large[of e] room_when_few[of e] dev_inv_length(2)[of V e]
  by (auto simp: dev_inv_def roomy_def table_fits_def)

lemma dev_write:
  assumes inv: "dev_inv V e" and off: "off \<in> V"
  shows "dev_inv V (fst (handle_write h e off data))"
    "snd (handle_write h e off data) = Ok () \<Longrightarrow>
      disk (fst (handle_write h e off data)) = (disk e)(off := padded data)"
    "snd (handle_write h e off data) = Err err \<Longrightarrow> disk (fst (handle_write h e off data)) = disk e"
proof -
  let ?w = "handle_write h e off data"
  have i: "eng_inv e" and o: "passthrough e \<or> \<not> orphaned e (fingerprint_page h (padded data))"
    using inv by (auto simp: dev_inv_def)
  note W = handle_write_inv[OF i dev_inv_length(1)[OF inv] o]
  have eff: "write_effect e off (padded data) ?w" by (rule W(1)[of off])
  have pad: "padded (padded data) = padded data" by (simp add: padded_def)
  have cfg: "passthrough (fst ?w) = passthrough e" "max_entries (dedup_tab (fst ?w)) = max_entries (dedup_tab e)"
    "total_slots (pstore (fst ?w)) = total_slots (pstore e)"
    using eff by (simp_all add: write_effect_def config_of_def)
  have "fst ` set (translation (fst ?w)) \<subseteq> V"
    using eff inv off by (auto simp: write_effect_def dev_inv_def split: sum.splits)
  moreover have "orphaned (fst ?w) fp \<Longrightarrow> orphaned e fp" for fp
    using W(2)[of off] dev_roomy[OF inv] by auto
  ultimately show "dev_inv V (fst ?w)"
    using inv eff cfg by (auto simp: dev_inv_def write_effect_def)
  show "snd ?w = Ok () \<Longrightarrow> disk (fst ?w) = (disk e)(off := padded data)"
    "snd ?w = Err err \<Longrightarrow> disk (fst ?w) = disk e"
    using eff pad by (auto simp: write_effect_def)
qed

lemma dev_read:
  assumes "dev_inv V e"
  shows "dev_inv V (fst (handle_read e off))"
proof -
  have i: "eng_inv e" using assms by (simp add: dev_inv_def)
  have "config_of (fst (handle_read e off)) = config_of e"
  proof -
    have b: "ps_inv (pstore e)" using eng_booksD(1) i by (simp add: eng_inv_def)
    show ?thesis
      using read_page_same(2)[OF b]
      by (auto simp: handle_read_def Let_def config_of_def split: option.split prod.split) (metis fst_conv)
  qed
  with assms handle_read_inv[OF i, of off] show ?thesis by (simp add: dev_inv_def config_of_def)
qed

lemma dev_discard: "dev_inv V e \<Longrightarrow> dev_inv V (handle_discard e off)"
  using handle_discard_inv[of e off] config_discard[of e off] dom_delete_subset[of off "translation e"]
  by (auto simp: dev_inv_def config_of_def dest!: subsetD[OF dom_delete_subset, OF imageI])
     (metis dom_delete_subset fst_conv imageI subsetD)+

interpretation dev: page_device "dev_inv V" V disk "replicate PAGE_SIZE 0" padded
  "handle_write h" handle_read handle_discard for V h
proof (unfold_locales, goal_cases)
  case (4 s off)
  with dev_read[OF 4] handle_read_inv(2)[of s off] show ?case by (simp add: dev_inv_def)
next
  case (5 s off p)
  with handle_read_inv(6)[of s off p] show ?case by (simp add: dev_inv_def)
next
  case (6 s off)
  with dev_discard[OF 6] handle_discard_inv(2)[of s off] show ?case by (simp add: dev_inv_def)
qed (fact dev_write)+

section \<open>A fresh engine\<close>

lemma ps_inv_slots_of_gb: "total_slots ps = slots_of_gb gb \<Longrightarrow> ps_inv ps"
proof -
  assume t: "total_slots ps = slots_of_gb gb"
  define x where "x = gb * 1024 * 1024 * 1024"
  have "unat (x div 4096) * 4096 \<le> unat x" by (simp add: unat_div)
  also have "\<dots> \<le> 2 ^ 64" using unat_u64_less[of x] by simp
  finally show ?thesis by (simp add: t ps_inv_def slots_of_gb_def PAGE_SIZE_def x_def)
qed

lemma engine_new_fields:
  assumes "engine_new ex dir opened gb maxe bc = Ok e"
  shows "translation e = []" "passthrough e" "dedup_tab e = dedup_new maxe bc"
    "slot_alloc e = slot_allocator_new (slots_of_gb gb)" "total_slots (pstore e) = slots_of_gb gb"
  using assms
  by (auto simp: engine_new_def Let_def translation_new_def page_store_open_def page_store_create_def
      page_store_on_def split: sum.splits option.splits if_splits prod.splits)

lemma engine_new_inv:
  assumes "engine_new ex dir opened gb maxe bc = Ok e"
  shows "eng_inv e" "\<not> orphaned e fp"
proof -
  note F = engine_new_fields[OF assms]
  have "tracked (dedup_new maxe bc) = (\<lambda>_. None)" by (simp add: tracked_def dedup_new_def fun_eq_iff)
  moreover have "sa_avail (slot_allocator_new n) = {..<n}" "sa_inv (slot_allocator_new n)" for n
    by (auto simp: sa_avail_def slot_allocator_new_def sa_inv_def)
  ultimately show "eng_inv e"
    using F dt_inv_new ps_inv_slots_of_gb[OF F(5)]
    by (auto simp: eng_inv_def eng_books_def live_def books_def slot_allocator_new_def)
  show "\<not> orphaned e fp" using F by (simp add: orphaned_def orphan_def live_def)
qed

end
