(* ===== verification/Ublk.thy ===== *)
theory Ublk
  imports Engine_Device
begin

text \<open>
  Model of \<open>crates/swap-proxy/src/ublk_frontend.rs\<close>: decoding a ublk descriptor into a
  block request, executing it page by page on the engine, the conversion of the result for
  the kernel, the queue handler with its failure counter, and device setup. The operation
  codes of the crate \<open>libublk\<close> are parameters, as is whether the kernel accepts a completion.
\<close>

section \<open>Requests\<close>

datatype ublk_op = UblkRead | UblkWrite | UblkFlush | UblkDiscard | UblkWriteZeroes | UblkUnsupported u32

record ublk_codes =
  IO_OP_READ :: u32
  IO_OP_WRITE :: u32
  IO_OP_FLUSH :: u32
  IO_OP_DISCARD :: u32
  IO_OP_WRITE_ZEROES :: u32

definition from_raw :: "ublk_codes \<Rightarrow> u32 \<Rightarrow> ublk_op" where
  "from_raw K raw =
     (if raw = IO_OP_READ K then UblkRead
      else if raw = IO_OP_WRITE K then UblkWrite
      else if raw = IO_OP_FLUSH K then UblkFlush
      else if raw = IO_OP_DISCARD K then UblkDiscard
      else if raw = IO_OP_WRITE_ZEROES K then UblkWriteZeroes
      else UblkUnsupported raw)"

record block_request =
  req_op :: ublk_op
  req_offset :: u64
  req_bytes :: usize

text \<open>Both shifts are at the width of their operand: \<open>nr_sectors << 9\<close> is a \<open>u32\<close>.\<close>

definition block_request_new :: "ublk_op \<Rightarrow> u64 \<Rightarrow> u32 \<Rightarrow> block_request" where
  "block_request_new op start_sector nr_sectors =
     \<lparr>req_op = op, req_offset = push_bit 9 start_sector, req_bytes = ucast (push_bit 9 nr_sectors)\<rparr>"

definition EINVAL :: i32 where "EINVAL = 22"
definition EIO :: i32 where "EIO = 5"
definition EOPNOTSUPP :: i32 where "EOPNOTSUPP = 95"

definition validate_page_aligned :: "block_request \<Rightarrow> i32 + block_request" where
  "validate_page_aligned r =
     (if \<not> (req_offset r mod word_of_nat PAGE_SIZE = 0 \<and> req_bytes r mod word_of_nat PAGE_SIZE = 0)
      then Err (- EINVAL) else Ok r)"

section \<open>Execution\<close>

text \<open>\<open>chunks n xs\<close> is \<open>xs.chunks(n)\<close>: pieces of length \<open>n\<close>, the last one may be shorter.\<close>

function chunks :: "nat \<Rightarrow> 'a list \<Rightarrow> 'a list list" where
  "chunks n xs = (if xs = [] \<or> n = 0 then [] else take n xs # chunks n (drop n xs))"
  by pat_completeness auto
termination by (relation "measure (\<lambda>(n, xs). length xs)") auto

declare chunks.simps [simp del]

definition page_offset :: "block_request \<Rightarrow> nat \<Rightarrow> u64" where
  "page_offset r idx = req_offset r + word_of_nat (idx * PAGE_SIZE)"

text \<open>\<open>enumerate\<close> of the chunks, with the offset the loop body computes for each index.\<close>

definition with_offsets :: "block_request \<Rightarrow> 'a list \<Rightarrow> (u64 \<times> 'a) list" where
  "with_offsets r cs = zip (map (page_offset r) [0 ..< length cs]) cs"

definition page_indices :: "block_request \<Rightarrow> nat list" where
  "page_indices r = [0 ..< unat (req_bytes r) div PAGE_SIZE]"

definition map_eio :: "'e + 'a \<Rightarrow> i32 + 'a" where
  "map_eio r = (case r of Inl _ \<Rightarrow> Err (- EIO) | Inr x \<Rightarrow> Ok x)"

definition execute_read ::
    "proxy_engine \<Rightarrow> block_request \<Rightarrow> u8 list \<Rightarrow> proxy_engine \<times> u8 list \<times> (i32 + usize)" where
  "execute_read e r buffer =
     (case validate_page_aligned r of
        Inl err \<Rightarrow> (e, buffer, Err err)
      | Inr r \<Rightarrow>
          if length buffer < unat (req_bytes r) then (e, buffer, Err (- EINVAL))
          else let n = unat (req_bytes r)
               in case read_loop handle_read (- EIO) e (with_offsets r (chunks PAGE_SIZE (take n buffer))) of
                    (e', Inl err, cs) \<Rightarrow> (e', concat cs @ drop n buffer, Err err)
                  | (e', Inr _, cs) \<Rightarrow> (e', concat cs @ drop n buffer, Ok (req_bytes r)))"

definition execute_write ::
    "hash \<Rightarrow> proxy_engine \<Rightarrow> block_request \<Rightarrow> u8 list \<Rightarrow> proxy_engine \<times> (i32 + usize)" where
  "execute_write h e r buffer =
     (case validate_page_aligned r of
        Inl err \<Rightarrow> (e, Err err)
      | Inr r \<Rightarrow>
          if length buffer < unat (req_bytes r) then (e, Err (- EINVAL))
          else case write_loop (handle_write h) e
                      (with_offsets r (chunks PAGE_SIZE (take (unat (req_bytes r)) buffer))) of
                 (e', Inl err) \<Rightarrow> (e', Err (- EIO))
               | (e', Inr _) \<Rightarrow> (e', Ok (req_bytes r)))"

definition execute_request ::
    "hash \<Rightarrow> proxy_engine \<Rightarrow> block_request \<Rightarrow> u8 list \<Rightarrow> proxy_engine \<times> u8 list \<times> (i32 + usize)" where
  "execute_request h e r buffer =
     (case req_op r of
        UblkRead \<Rightarrow> execute_read e r buffer
      | UblkWrite \<Rightarrow> (case execute_write h e r buffer of (e', res) \<Rightarrow> (e', buffer, res))
      | UblkFlush \<Rightarrow> (e, buffer, Ok 0)
      | UblkDiscard \<Rightarrow>
          (case validate_page_aligned r of
             Inl err \<Rightarrow> (e, buffer, Err err)
           | Inr r \<Rightarrow> (discard_loop handle_discard e (map (page_offset r) (page_indices r)),
                       buffer, Ok (req_bytes r)))
      | UblkWriteZeroes \<Rightarrow>
          (case validate_page_aligned r of
             Inl err \<Rightarrow> (e, buffer, Err err)
           | Inr r \<Rightarrow>
               (case write_loop (handle_write h) e
                       (map (\<lambda>i. (page_offset r i, replicate PAGE_SIZE 0)) (page_indices r)) of
                  (e', Inl err) \<Rightarrow> (e', buffer, Err (- EIO))
                | (e', Inr _) \<Rightarrow> (e', buffer, Ok (req_bytes r))))
      | UblkUnsupported _ \<Rightarrow> (e, buffer, Err (- EOPNOTSUPP)))"

text \<open>The kernel's result: an errno as it is, a byte count cast to \<open>i32\<close>.\<close>

definition handle_request ::
    "hash \<Rightarrow> proxy_engine \<Rightarrow> block_request \<Rightarrow> u8 list \<Rightarrow> proxy_engine \<times> u8 list \<times> i32" where
  "handle_request h e r buffer =
     (case execute_request h e r buffer of
        (e', buf', Inl errno) \<Rightarrow> (e', buf', errno)
      | (e', buf', Inr bytes) \<Rightarrow> (e', buf', ucast bytes))"

section \<open>The queue handler\<close>

record io_descriptor =
  op_flags :: u32
  start_sector :: u64
  nr_sectors :: u32

record queue_state =
  q_engine :: proxy_engine
  q_bufs :: "u8 list list"
  completion_failures :: u32
  stop_warnings :: nat

definition MAX_COMPLETION_FAILURES :: u32 where
  "MAX_COMPLETION_FAILURES = 10"

text \<open>
  One call of the closure of \<open>run_queue\<close> for tag \<open>tag\<close>; \<open>completed\<close> is what the kernel
  answers to the completion. \<open>stop_warnings\<close> counts the warnings, the only effect of
  reaching the limit.
\<close>

definition handle_io ::
    "ublk_codes \<Rightarrow> hash \<Rightarrow> queue_state \<Rightarrow> io_descriptor \<Rightarrow> nat \<Rightarrow> (i32 \<Rightarrow> bool) \<Rightarrow> queue_state \<times> i32" where
  "handle_io K h q iod tag completed =
     (let request = block_request_new (from_raw K (op_flags iod AND 0xff)) (start_sector iod) (nr_sectors iod)
      in case handle_request h (q_engine q) request (q_bufs q ! tag) of
           (e', buf', result) \<Rightarrow>
             (let q1 = q\<lparr>q_engine := e', q_bufs := (q_bufs q)[tag := buf']\<rparr>
              in if completed result then (q1\<lparr>completion_failures := 0\<rparr>, result)
                 else let n = completion_failures q + 1
                      in (q1\<lparr>completion_failures := n,
                             stop_warnings := stop_warnings q + (if MAX_COMPLETION_FAILURES \<le> n then 1 else 0)\<rparr>,
                          result)))"

section \<open>Device setup\<close>

record target_params =
  dev_bytes :: u64
  logical_bs_shift :: nat
  physical_bs_shift :: nat
  io_min_shift :: nat
  io_opt_shift :: nat

definition init_target :: "u64 \<Rightarrow> target_params" where
  "init_target total_bytes =
     \<lparr>dev_bytes = total_bytes, logical_bs_shift = 12, physical_bs_shift = 12,
      io_min_shift = 12, io_opt_shift = 12\<rparr>"

record ublk_setup =
  setup_queues :: nat
  setup_depth :: nat
  setup_io_buf_bytes :: nat
  setup_target :: target_params

datatype ublk_run_error = SizeOverflow | UblkFailed | QueueInitFailed

text \<open>
  \<open>run\<close>: \<open>parallelism\<close> is \<open>available_parallelism\<close>, \<open>built\<close> and \<open>served\<close> say whether
  the control device could be built and its service loop ended without an error, and
  \<open>init_errors\<close> is the number of queues whose initialisation failed.
\<close>

definition ublk_setup_of :: "u64 \<Rightarrow> nat option \<Rightarrow> ublk_run_error + ublk_setup" where
  "ublk_setup_of size_gb parallelism =
     (if 2 ^ 64 \<le> unat size_gb * (1024 * 1024 * 1024) then Err SizeOverflow
      else let nr_queues = (case parallelism of None \<Rightarrow> 1 | Some n \<Rightarrow> min n 4)
           in Ok \<lparr>setup_queues = nr_queues, setup_depth = 64, setup_io_buf_bytes = 128 * 1024,
                 setup_target = init_target (size_gb * (1024 * 1024 * 1024))\<rparr>)"

definition ublk_run :: "u64 \<Rightarrow> nat option \<Rightarrow> bool \<Rightarrow> bool \<Rightarrow> nat \<Rightarrow> ublk_run_error + unit" where
  "ublk_run size_gb parallelism built served init_errors =
     (case ublk_setup_of size_gb parallelism of
        Inl e \<Rightarrow> Err e
      | Inr _ \<Rightarrow> if \<not> built then Err UblkFailed
               else if \<not> served then Err UblkFailed
               else if 0 < init_errors then Err QueueInitFailed else Ok ())"

definition ensure_available :: "bool \<Rightarrow> string + unit" where
  "ensure_available control_exists =
     (if control_exists then Ok ()
      else Err ''/dev/ublk-control is missing; load the kernel driver with `modprobe ublk_drv`'')"

end
