(* ===== verification/Rust_Text.thy ===== *)
theory Rust_Text
  imports Prelude "HOL-Library.Sublist"
begin

text \<open>
  The text operations of Rust's standard library that the sources use on kernel and
  configuration files: trimming, splitting, searching, and parsing and printing integers.
  A string is a list of bytes read as characters; the files are ASCII, so white space is
  ASCII white space.
\<close>

section \<open>White space, lines and words\<close>

definition is_space :: "char \<Rightarrow> bool" where
  "is_space c \<longleftrightarrow> of_char c \<in> {9, 10, 11, 12, 13, 32 :: nat}"

definition trim_start :: "string \<Rightarrow> string" where
  "trim_start s = dropWhile is_space s"

definition trim_end :: "string \<Rightarrow> string" where
  "trim_end s = rev (dropWhile is_space (rev s))"

definition trim :: "string \<Rightarrow> string" where
  "trim s = trim_end (trim_start s)"

definition newline :: char where "newline = CHR 0x0A"
definition carriage :: char where "carriage = CHR 0x0D"

text \<open>\<open>split(c)\<close>: one piece more than separators.\<close>

fun split_char :: "char \<Rightarrow> string \<Rightarrow> string list" where
  "split_char c [] = [[]]"
| "split_char c (x # xs) =
     (if x = c then [] # split_char c xs
      else case split_char c xs of [] \<Rightarrow> [[x]] | w # ws \<Rightarrow> (x # w) # ws)"

definition strip_cr :: "string \<Rightarrow> string" where
  "strip_cr s = (if s \<noteq> [] \<and> last s = carriage then butlast s else s)"

text \<open>\<open>lines()\<close>: no empty piece after a final newline.\<close>

definition rust_lines :: "string \<Rightarrow> string list" where
  "rust_lines s =
     (let ps = split_char newline s
      in map strip_cr (if last ps = [] then butlast ps else ps))"

fun words_of :: "string \<Rightarrow> string \<Rightarrow> string list" where
  "words_of w [] = (if w = [] then [] else [rev w])"
| "words_of w (x # xs) =
     (if is_space x then (if w = [] then words_of [] xs else rev w # words_of [] xs)
      else words_of (x # w) xs)"

definition split_whitespace :: "string \<Rightarrow> string list" where
  "split_whitespace s = words_of [] s"

fun split_once :: "char \<Rightarrow> string \<Rightarrow> (string \<times> string) option" where
  "split_once c [] = None"
| "split_once c (x # xs) =
     (if x = c then Some ([], xs)
      else map_option (\<lambda>(a, b). (x # a, b)) (split_once c xs))"

definition starts_with :: "string \<Rightarrow> string \<Rightarrow> bool" where
  "starts_with s p = prefix p s"

definition strip_prefix :: "string \<Rightarrow> string \<Rightarrow> string option" where
  "strip_prefix s p = (if prefix p s then Some (drop (length p) s) else None)"

fun contains_str :: "string \<Rightarrow> string \<Rightarrow> bool" where
  "contains_str [] p = (p = [])"
| "contains_str (x # xs) p = (prefix p (x # xs) \<or> contains_str xs p)"

fun find_char :: "char \<Rightarrow> string \<Rightarrow> nat option" where
  "find_char c [] = None"
| "find_char c (x # xs) = (if x = c then Some 0 else map_option Suc (find_char c xs))"

section \<open>Integers\<close>

definition digit_val :: "nat \<Rightarrow> char \<Rightarrow> nat option" where
  "digit_val radix c =
     (let n = of_char c :: nat;
          d = (if 48 \<le> n \<and> n \<le> 57 then Some (n - 48)
               else if 97 \<le> n \<and> n \<le> 122 then Some (n - 87)
               else if 65 \<le> n \<and> n \<le> 90 then Some (n - 55) else None)
      in case d of None \<Rightarrow> None | Some v \<Rightarrow> if v < radix then Some v else None)"

fun digits_val :: "nat \<Rightarrow> nat \<Rightarrow> string \<Rightarrow> nat option" where
  "digits_val radix acc [] = Some acc"
| "digits_val radix acc (c # cs) =
     (case digit_val radix c of None \<Rightarrow> None | Some d \<Rightarrow> digits_val radix (acc * radix + d) cs)"

definition strip_plus :: "string \<Rightarrow> string" where
  "strip_plus s = (case s of [] \<Rightarrow> [] | c # cs \<Rightarrow> if c = CHR ''+'' then cs else s)"

text \<open>\<open>from_str_radix\<close> of an unsigned type with maximum below \<open>bound\<close>; \<open>None\<close> is its error.\<close>

definition parse_nat :: "nat \<Rightarrow> nat \<Rightarrow> string \<Rightarrow> nat option" where
  "parse_nat radix bound s =
     (let ds = strip_plus s
      in if ds = [] then None
         else case digits_val radix 0 ds of
                None \<Rightarrow> None
              | Some n \<Rightarrow> if n < bound then Some n else None)"

definition parse_u64 :: "string \<Rightarrow> u64 option" where
  "parse_u64 s = map_option word_of_nat (parse_nat 10 (2 ^ 64) s)"

definition parse_u32 :: "string \<Rightarrow> u32 option" where
  "parse_u32 s = map_option word_of_nat (parse_nat 10 (2 ^ 32) s)"

definition parse_hex_u64 :: "string \<Rightarrow> u64 option" where
  "parse_hex_u64 s = map_option word_of_nat (parse_nat 16 (2 ^ 64) s)"

definition parse_i64 :: "string \<Rightarrow> int option" where
  "parse_i64 s =
     (case s of
        [] \<Rightarrow> None
      | c # cs \<Rightarrow>
          if c = CHR ''-'' then
            (if cs = [] then None
             else case digits_val 10 0 cs of
                    None \<Rightarrow> None
                  | Some n \<Rightarrow> if n \<le> 2 ^ 63 then Some (- int n) else None)
          else map_option int (parse_nat 10 (2 ^ 63) s))"

definition digit_char :: "nat \<Rightarrow> char" where
  "digit_char n = char_of (48 + n)"

text \<open>\<open>to_string\<close> of an unsigned integer.\<close>

fun show_nat :: "nat \<Rightarrow> string" where
  "show_nat n = (if n < 10 then [digit_char n] else show_nat (n div 10) @ [digit_char (n mod 10)])"

declare show_nat.simps [simp del]

section \<open>Facts\<close>

lemma digit_val_char: "n < 10 \<Longrightarrow> digit_val 10 (digit_char n) = Some n"
  by (simp add: digit_val_def digit_char_def of_char_of take_bit_nat_eq_self)

lemma digits_val_append:
  "digits_val r a (s @ t) = (case digits_val r a s of None \<Rightarrow> None | Some v \<Rightarrow> digits_val r v t)"
  by (induction s arbitrary: a) (auto split: option.splits)

lemma digits_val_show: "digits_val 10 0 (show_nat n) = Some n"
proof (induction n rule: show_nat.induct)
  case (1 n)
  show ?case
  proof (cases "n < 10")
    case True
    then show ?thesis by (subst show_nat.simps) (simp add: digit_val_char)
  next
    case False
    with 1 have "digits_val 10 0 (show_nat (n div 10)) = Some (n div 10)" by simp
    with False show ?thesis
      by (subst show_nat.simps) (simp add: digits_val_append digit_val_char div_mult_mod_eq)
  qed
qed

lemma digit_char_range: "n < 10 \<Longrightarrow> of_char (digit_char n) = 48 + n"
  by (simp add: digit_char_def of_char_of take_bit_nat_eq_self)

lemma show_nat_digits: "c \<in> set (show_nat n) \<Longrightarrow> \<exists>d < 10. c = digit_char d"
proof (induction n rule: show_nat.induct)
  case (1 n)
  show ?case
  proof (cases "n < 10")
    case True
    with 1(2) show ?thesis by (subst (asm) show_nat.simps) auto
  next
    case False
    then have "show_nat n = show_nat (n div 10) @ [digit_char (n mod 10)]"
      by (subst show_nat.simps) simp
    with 1(2) have "c \<in> set (show_nat (n div 10)) \<or> c = digit_char (n mod 10)" by auto
    moreover have "n mod 10 < 10" by simp
    ultimately show ?thesis using 1(1)[OF False] by blast
  qed
qed

lemma show_nat_nonempty [simp]: "show_nat n \<noteq> []"
  by (subst show_nat.simps) simp

lemma digit_char_neq: "d < 10 \<Longrightarrow> digit_char d \<noteq> CHR ''+'' \<and> digit_char d \<noteq> CHR ''-'' \<and> \<not> is_space (digit_char d)"
  using digit_char_range[of d] by (auto simp: is_space_def)

lemma strip_plus_show [simp]: "strip_plus (show_nat n) = show_nat n"
proof (cases "show_nat n")
  case (Cons c cs)
  then obtain d where "d < 10" "c = digit_char d" using show_nat_digits[of c n] by auto
  with Cons digit_char_neq[of d] show ?thesis by (simp add: strip_plus_def)
qed (simp add: strip_plus_def)

text \<open>What is printed is parsed back.\<close>

lemma parse_show_u64: "parse_u64 (show_nat (unat w)) = Some w"
  using unat_u64_less[of w] by (simp add: parse_u64_def parse_nat_def digits_val_show Let_def)

lemma dropWhile_none: "\<forall>c \<in> set s. \<not> P c \<Longrightarrow> dropWhile P s = s"
  by (cases s) auto

lemma trim_no_space: "\<forall>c \<in> set s. \<not> is_space c \<Longrightarrow> trim s = s"
  by (simp add: trim_def trim_start_def trim_end_def dropWhile_none)

lemma trim_show [simp]: "trim (show_nat n) = show_nat n"
  by (rule trim_no_space) (use show_nat_digits digit_char_neq in blast)

lemma contains_str_iff: "contains_str s p \<longleftrightarrow> sublist p s"
  by (induction s) (auto simp: sublist_Cons_right)

lemma split_char_join: "concat (map (\<lambda>w. w @ [c]) (split_char c s)) = s @ [c]"
  by (induction c s rule: split_char.induct) (auto split: list.splits)

lemma split_char_none: "c \<notin> set s \<Longrightarrow> split_char c s = [s]"
  by (induction s) auto

lemma split_once_Some: "split_once c s = Some (a, b) \<longleftrightarrow> s = a @ c # b \<and> c \<notin> set a"
proof (induction s arbitrary: a)
  case (Cons x s)
  then show ?case by (cases a) auto
qed simp

lemma find_char_Some: "find_char c s = Some i \<Longrightarrow> i < length s \<and> s ! i = c \<and> c \<notin> set (take i s)"
  by (induction s arbitrary: i) (auto split: if_splits)

end
