(* ===== verification/Float.thy ===== *)
theory Float
  imports Prelude Complex_Main
begin

text \<open>
  Rust's \<open>f32\<close> and \<open>f64\<close>: IEEE binary floating point with round-to-nearest-even, over
  exact rationals. A value is NaN, an infinity or a finite rational; the sign of zero is
  not kept, since no modelled operation observes it. Comparisons with NaN are false.
\<close>

datatype float = NaN | Infinite bool | Finite rat

definition two_to :: "int \<Rightarrow> rat" where
  "two_to e = (if 0 \<le> e then 2 ^ nat e else 1 / 2 ^ nat (- e))"

definition flog2 :: "rat \<Rightarrow> int" where
  "flog2 x = (case quotient_of x of
     (a, b) \<Rightarrow> let k = int (bit_len (nat a)) - int (bit_len (nat b))
               in if two_to k \<le> x then k else k - 1)"

definition rne :: "rat \<Rightarrow> int" where
  "rne x = (let f = floor x; d = x - of_int f
            in if d < 1 / 2 then f else if d > 1 / 2 then f + 1 else if even f then f else f + 1)"

text \<open>\<open>fp_round p emin emax\<close>: \<open>p\<close> digits, least exponent \<open>emin\<close>, values below \<open>2 ^ emax\<close>.\<close>

definition round_mag :: "int \<Rightarrow> int \<Rightarrow> rat \<Rightarrow> rat" where
  "round_mag p emin x =
     (if x = 0 then 0
      else let e = max (flog2 x - (p - 1)) emin in of_int (rne (x / two_to e)) * two_to e)"

definition fp_round :: "int \<Rightarrow> int \<Rightarrow> int \<Rightarrow> rat \<Rightarrow> float" where
  "fp_round p emin emax x =
     (let m = round_mag p emin \<bar>x\<bar>
      in if two_to emax \<le> m then Infinite (x < 0) else Finite (if x < 0 then - m else m))"

definition f32_round :: "rat \<Rightarrow> float" where "f32_round = fp_round 24 (-149) 128"
definition f64_round :: "rat \<Rightarrow> float" where "f64_round = fp_round 53 (-1074) 1024"

fun fle :: "float \<Rightarrow> float \<Rightarrow> bool" where
  "fle NaN _ = False"
| "fle _ NaN = False"
| "fle (Infinite n) (Infinite m) = (n \<or> \<not> m)"
| "fle (Infinite n) (Finite _) = n"
| "fle (Finite _) (Infinite m) = (\<not> m)"
| "fle (Finite a) (Finite b) = (a \<le> b)"

fun flt :: "float \<Rightarrow> float \<Rightarrow> bool" where
  "flt NaN _ = False"
| "flt _ NaN = False"
| "flt (Infinite n) (Infinite m) = (n \<and> \<not> m)"
| "flt (Infinite n) (Finite _) = n"
| "flt (Finite _) (Infinite m) = (\<not> m)"
| "flt (Finite a) (Finite b) = (a < b)"

fun f32_add :: "float \<Rightarrow> float \<Rightarrow> float" where
  "f32_add NaN _ = NaN"
| "f32_add _ NaN = NaN"
| "f32_add (Infinite n) (Infinite m) = (if n = m then Infinite n else NaN)"
| "f32_add (Infinite n) (Finite _) = Infinite n"
| "f32_add (Finite _) (Infinite m) = Infinite m"
| "f32_add (Finite a) (Finite b) = f32_round (a + b)"

fun f32_neg :: "float \<Rightarrow> float" where
  "f32_neg NaN = NaN"
| "f32_neg (Infinite n) = Infinite (\<not> n)"
| "f32_neg (Finite a) = Finite (- a)"

definition f32_sub :: "float \<Rightarrow> float \<Rightarrow> float" where
  "f32_sub x y = f32_add x (f32_neg y)"

fun f32_abs :: "float \<Rightarrow> float" where
  "f32_abs NaN = NaN"
| "f32_abs (Infinite n) = Infinite False"
| "f32_abs (Finite a) = Finite \<bar>a\<bar>"

fun f32_mul :: "float \<Rightarrow> float \<Rightarrow> float" where
  "f32_mul NaN _ = NaN"
| "f32_mul _ NaN = NaN"
| "f32_mul (Infinite n) (Infinite m) = Infinite (n \<noteq> m)"
| "f32_mul (Infinite n) (Finite b) = (if b = 0 then NaN else Infinite (n \<noteq> (b < 0)))"
| "f32_mul (Finite a) (Infinite m) = (if a = 0 then NaN else Infinite (m \<noteq> (a < 0)))"
| "f32_mul (Finite a) (Finite b) = f32_round (a * b)"

section \<open>Rounding is monotone\<close>

lemma two_to_pos [simp]: "0 < two_to e"
  by (simp add: two_to_def)

lemma two_to_powi: "two_to e = 2 powi e"
  by (auto simp: two_to_def power_int_def inverse_eq_divide power_divide)

lemma two_to_add: "two_to (a + b) = two_to a * two_to b"
  by (simp add: two_to_powi power_int_add)

lemma two_to_mono: "a \<le> b \<Longrightarrow> two_to a \<le> two_to b"
  by (simp add: two_to_powi power_int_increasing)

lemma two_to_nat: "two_to (int n) = 2 ^ n"
  by (simp add: two_to_def)

lemma bit_len_two_to:
  assumes "0 < n"
  shows "two_to (int (bit_len n) - 1) \<le> of_nat n" "of_nat n < two_to (int (bit_len n))"
proof -
  have l: "0 < bit_len n" using bit_len_bound[of n] assms by (auto intro!: Nat.gr0I)
  have "of_nat (2 ^ (bit_len n - 1)) \<le> (of_nat n :: rat)"
    using bit_len_lower[OF assms] by (simp only: of_nat_le_iff)
  moreover have "two_to (int (bit_len n) - 1) = 2 ^ (bit_len n - 1)"
    using two_to_nat[of "bit_len n - 1"] l by (simp add: of_nat_diff)
  ultimately show "two_to (int (bit_len n) - 1) \<le> of_nat n" by (simp only: of_nat_power of_nat_numeral)
  have "of_nat n < (of_nat (2 ^ bit_len n) :: rat)"
    using bit_len_bound[of n] by (simp only: of_nat_less_iff)
  then show "of_nat n < two_to (int (bit_len n))" by (simp add: two_to_nat)
qed

lemma flog2_bounds:
  assumes "0 < x"
  shows "two_to (flog2 x) \<le> x" "x < two_to (flog2 x + 1)"
proof -
  obtain a b where q: "quotient_of x = (a, b)" by (cases "quotient_of x")
  have b: "0 < b" using quotient_of_denom_pos[OF q] .
  have x: "x = of_int a / of_int b" using quotient_of_div[OF q] .
  with assms b have a: "0 < a" by (simp add: zero_less_divide_iff)
  define la where "la = bit_len (nat a)"
  define lb where "lb = bit_len (nat b)"
  have A: "two_to (int la - 1) \<le> of_int a" "of_int a < two_to (int la)"
    and B: "two_to (int lb - 1) \<le> of_int b" "of_int b < two_to (int lb)"
    using bit_len_two_to[of "nat a"] bit_len_two_to[of "nat b"] a b by (simp_all add: la_def lb_def)
  define k where "k = int la - int lb"
  have up: "x < two_to (k + 1)"
  proof -
    have "of_int a < two_to (k + 1) * two_to (int lb - 1)"
      using A(2) two_to_add[of "k + 1" "int lb - 1"] by (simp add: k_def)
    also have "\<dots> \<le> two_to (k + 1) * of_int b" using B(1) by simp
    finally show ?thesis using b by (simp add: x pos_divide_less_eq)
  qed
  have lo: "two_to (k - 1) \<le> x"
  proof -
    have "two_to (k - 1) * of_int b \<le> two_to (k - 1) * two_to (int lb)" using B(2) by simp
    also have "\<dots> \<le> of_int a" using A(1) two_to_add[of "k - 1" "int lb"] by (simp add: k_def)
    finally show ?thesis using b by (simp add: x pos_le_divide_eq)
  qed
  have f: "flog2 x = (if two_to k \<le> x then k else k - 1)"
    by (simp add: flog2_def q k_def la_def lb_def Let_def)
  show "two_to (flog2 x) \<le> x" "x < two_to (flog2 x + 1)"
    using up lo by (auto simp: f)
qed

lemma flog2_mono: "0 < x \<Longrightarrow> x \<le> y \<Longrightarrow> flog2 x \<le> flog2 y"
proof (rule ccontr)
  assume x: "0 < x" "x \<le> y" and "\<not> flog2 x \<le> flog2 y"
  then have "two_to (flog2 y + 1) \<le> two_to (flog2 x)" by (intro two_to_mono) simp
  with flog2_bounds[of x] flog2_bounds[of y] x show False by linarith
qed

lemma rne_mono: "x \<le> y \<Longrightarrow> rne x \<le> rne y"
proof -
  assume xy: "x \<le> y"
  have f: "floor x \<le> floor y" using xy by (rule floor_mono)
  have b: "floor z \<le> rne z" "rne z \<le> floor z + 1" for z by (auto simp: rne_def Let_def)
  show ?thesis
  proof (cases "floor x = floor y")
    case True
    with xy show ?thesis by (auto simp: rne_def Let_def)
  next
    case False
    with f have "floor x + 1 \<le> floor y" by simp
    with b[of x] b[of y] show ?thesis by linarith
  qed
qed

lemma rne_of_int [simp]: "rne (of_int n) = n"
  by (simp add: rne_def)

lemma rne_nonneg: "0 \<le> x \<Longrightarrow> 0 \<le> rne x"
  using rne_mono[of 0 x] rne_of_int[of 0] by simp

lemma round_mag_mono:
  assumes p: "1 \<le> p" and x: "0 \<le> x" "x \<le> y"
  shows "0 \<le> round_mag p emin x" "round_mag p emin x \<le> round_mag p emin y"
proof -
  have nn: "0 \<le> round_mag p emin z" if "0 \<le> z" for z
  proof -
    have "0 \<le> rne (z / two_to e)" for e using that by (intro rne_nonneg) (simp add: less_imp_le)
    then show ?thesis by (simp add: round_mag_def Let_def less_imp_le)
  qed
  show "0 \<le> round_mag p emin x" by (rule nn[OF x(1)])
  show "round_mag p emin x \<le> round_mag p emin y"
  proof (cases "x = 0")
    case True
    then show ?thesis using nn[of y] x by (simp add: round_mag_def)
  next
    case False
    with x have pos: "0 < x" "0 < y" by auto
    define ex where "ex = max (flog2 x - (p - 1)) emin"
    define ey where "ey = max (flog2 y - (p - 1)) emin"
    have rx: "round_mag p emin x = of_int (rne (x / two_to ex)) * two_to ex"
      and ry: "round_mag p emin y = of_int (rne (y / two_to ey)) * two_to ey"
      using pos by (simp_all add: round_mag_def ex_def ey_def Let_def)
    have le: "ex \<le> ey" using flog2_mono[OF pos(1) x(2)] by (auto simp: ex_def ey_def)
    show ?thesis
    proof (cases "ex = ey")
      case True
      have "rne (x / two_to ey) \<le> rne (y / two_to ey)"
        using x by (intro rne_mono divide_right_mono) (auto intro: less_imp_le)
      then show ?thesis using True by (simp add: rx ry mult_right_mono)
    next
      case False
      with le have lt: "ex + 1 \<le> ey" by simp
      then have ey: "ey = flog2 y - (p - 1)" by (auto simp: ex_def ey_def)
      have "x < two_to (ex + p)"
        using flog2_bounds(2)[OF pos(1)] two_to_mono[of "flog2 x + 1" "ex + p"] by (force simp: ex_def)
      then have "x / two_to ex \<le> of_int (2 ^ nat p)"
        using p two_to_add[of ex p] by (simp add: pos_divide_le_eq mult.commute) (simp add: two_to_def)
      from rne_mono[OF this] have "rne (x / two_to ex) \<le> 2 ^ nat p" by (metis rne_of_int)
      then have "round_mag p emin x \<le> of_int (2 ^ nat p) * two_to ex"
        unfolding rx by (intro mult_right_mono) (simp_all only: of_int_le_iff, simp add: less_imp_le)
      also have "\<dots> = two_to (p + ex)" using p two_to_add[of p ex] by (simp add: two_to_def)
      also have "\<dots> \<le> two_to ((p - 1) + ey)" using lt by (intro two_to_mono) simp
      also have "\<dots> = of_int (2 ^ nat (p - 1)) * two_to ey"
        using p two_to_add[of "p - 1" ey] by (simp add: two_to_def)
      also have "\<dots> \<le> round_mag p emin y"
      proof -
        have "of_int (2 ^ nat (p - 1)) \<le> y / two_to ey"
          using flog2_bounds(1)[OF pos(2)] p two_to_add[of "p - 1" ey] ey
          by (simp add: pos_le_divide_eq) (simp add: two_to_def)
        from rne_mono[OF this] have "2 ^ nat (p - 1) \<le> rne (y / two_to ey)" by (metis rne_of_int)
        then show ?thesis
          unfolding ry by (intro mult_right_mono) (simp_all only: of_int_le_iff, simp add: less_imp_le)
      qed
      finally show ?thesis .
    qed
  qed
qed

lemma fp_round_mono:
  assumes "1 \<le> p" "x \<le> y"
  shows "fle (fp_round p emin emax x) (fp_round p emin emax y)"
proof -
  have m: "0 \<le> round_mag p emin \<bar>z\<bar>" for z using round_mag_mono(1)[OF assms(1), of "\<bar>z\<bar>" "\<bar>z\<bar>"] by simp
  consider "0 \<le> x" | "x < 0" "0 \<le> y" | "y < 0" by linarith
  then show ?thesis
  proof cases
    case 1
    with assms(2) round_mag_mono(2)[OF assms(1), of x y emin] show ?thesis
      by (auto simp: fp_round_def Let_def)
  next
    case 2
    with m[of x] m[of y] show ?thesis by (auto simp: fp_round_def Let_def)
  next
    case 3
    with assms(2) round_mag_mono(2)[OF assms(1), of "- y" "- x" emin] show ?thesis
      by (auto simp: fp_round_def Let_def)
  qed
qed

end
