(* ===== verification/Psi.thy ===== *)
theory Psi
  imports Rust_Text Float
begin

text \<open>
  Model of \<open>crates/common/src/psi.rs\<close> and \<open>error.rs\<close>: the parser of
  \<open>/proc/pressure/memory\<close>, the classification of memory pressure into five ordered levels,
  and the lifecycle of a kernel trigger, whose file descriptor the code owns by hand.
\<close>

section \<open>Errors\<close>

datatype animaksm_error =
    SysfsError string
  | ProcfsError nat string
  | ConfigError string
  | PtraceError nat
  | InjectionError nat string
  | SwapProxyError string
  | SnapshotError string
  | CapabilityError string
  | IoErr
  | NixErr

section \<open>Parsing a float\<close>

definition is_digit :: "char \<Rightarrow> bool" where
  "is_digit c \<longleftrightarrow> digit_val 10 c \<noteq> None"

definition dec_val :: "string \<Rightarrow> nat" where
  "dec_val ds = the (digits_val 10 0 ds)"

definition lower :: "char \<Rightarrow> char" where
  "lower c = (let n = of_char c :: nat in if 65 \<le> n \<and> n \<le> 90 then char_of (n + 32) else c)"

definition split_sign :: "string \<Rightarrow> bool \<times> string" where
  "split_sign s = (case s of [] \<Rightarrow> (False, [])
     | c # cs \<Rightarrow> if c = CHR ''-'' then (True, cs) else if c = CHR ''+'' then (False, cs) else (False, s))"

text \<open>The exponent part, if any, must be complete; \<open>None\<close> is a parse error.\<close>

definition parse_exponent :: "string \<Rightarrow> int option" where
  "parse_exponent s =
     (case s of
        [] \<Rightarrow> Some 0
      | c # cs \<Rightarrow>
          if c \<in> {CHR ''e'', CHR ''E''} then
            (case split_sign cs of
               (neg, ds) \<Rightarrow>
                 if ds = [] \<or> \<not> list_all is_digit ds then None
                 else Some (if neg then - int (dec_val ds) else int (dec_val ds)))
          else None)"

definition ten_to :: "int \<Rightarrow> rat" where
  "ten_to e = (if 0 \<le> e then 10 ^ nat e else 1 / 10 ^ nat (- e))"

definition parse_number :: "string \<Rightarrow> rat option" where
  "parse_number s =
     (let ip = takeWhile is_digit s; r1 = dropWhile is_digit s;
          (fp, r2) = (case r1 of
              [] \<Rightarrow> ([], r1)
            | c # cs \<Rightarrow> if c = CHR ''.'' then (takeWhile is_digit cs, dropWhile is_digit cs) else ([], r1))
      in if ip = [] \<and> fp = [] then None
         else map_option (\<lambda>e. of_nat (dec_val (ip @ fp)) * ten_to (e - int (length fp))) (parse_exponent r2))"

definition parse_f32 :: "string \<Rightarrow> float option" where
  "parse_f32 s =
     (case split_sign s of
        (neg, r) \<Rightarrow>
          (case parse_number r of
             Some x \<Rightarrow> Some (f32_round (if neg then - x else x))
           | None \<Rightarrow>
               (let w = map lower r
                in if w = ''inf'' \<or> w = ''infinity'' then Some (Infinite neg)
                   else if w = ''nan'' then Some NaN else None)))"

section \<open>PSI statistics\<close>

record psi_line =
  avg10 :: float
  avg60 :: float
  avg300 :: float
  total :: u64

record psi_stats =
  some_line :: psi_line
  full_line :: psi_line

definition psi_line_default :: psi_line where
  "psi_line_default = \<lparr>avg10 = Finite 0, avg60 = Finite 0, avg300 = Finite 0, total = 0\<rparr>"

definition psi_stats_default :: psi_stats where
  "psi_stats_default = \<lparr>some_line = psi_line_default, full_line = psi_line_default\<rparr>"

definition f32_or_zero :: "string \<Rightarrow> float" where
  "f32_or_zero s = (case parse_f32 s of None \<Rightarrow> Finite 0 | Some x \<Rightarrow> x)"

definition apply_token :: "psi_line \<Rightarrow> string \<Rightarrow> psi_line" where
  "apply_token l token =
     (case split_once CHR ''='' token of
        None \<Rightarrow> l
      | Some (key, v) \<Rightarrow>
          if key = ''avg10'' then l\<lparr>avg10 := f32_or_zero v\<rparr>
          else if key = ''avg60'' then l\<lparr>avg60 := f32_or_zero v\<rparr>
          else if key = ''avg300'' then l\<lparr>avg300 := f32_or_zero v\<rparr>
          else if key = ''total'' then l\<lparr>total := (case parse_u64 v of None \<Rightarrow> 0 | Some n \<Rightarrow> n)\<rparr>
          else l)"

definition parse_line :: "string \<Rightarrow> psi_line" where
  "parse_line line = foldl apply_token psi_line_default (drop 1 (split_whitespace line))"

definition parse_step :: "psi_stats \<Rightarrow> string \<Rightarrow> psi_stats" where
  "parse_step stats raw =
     (let line = trim raw
      in if line = [] then stats
         else if starts_with line ''some'' then stats\<lparr>some_line := parse_line line\<rparr>
         else if starts_with line ''full'' then stats\<lparr>full_line := parse_line line\<rparr>
         else stats)"

definition psi_parse :: "string \<Rightarrow> psi_stats" where
  "psi_parse content = foldl parse_step psi_stats_default (rust_lines content)"

definition psi_read_from :: "string \<Rightarrow> string option \<Rightarrow> animaksm_error + psi_stats" where
  "psi_read_from path content =
     (case content of None \<Rightarrow> Err (SysfsError path) | Some c \<Rightarrow> Ok (psi_parse c))"

section \<open>Pressure levels\<close>

datatype pressure_level = Idle | Low | Medium | High | Critical

primrec level_num :: "pressure_level \<Rightarrow> nat" where
  "level_num Idle = 0"
| "level_num Low = 1"
| "level_num Medium = 2"
| "level_num High = 3"
| "level_num Critical = 4"

instantiation pressure_level :: linorder
begin

definition less_eq_pressure_level :: "pressure_level \<Rightarrow> pressure_level \<Rightarrow> bool" where
  "less_eq_pressure_level a b \<longleftrightarrow> level_num a \<le> level_num b"

definition less_pressure_level :: "pressure_level \<Rightarrow> pressure_level \<Rightarrow> bool" where
  "less_pressure_level a b \<longleftrightarrow> level_num a < level_num b"

instance
proof
  fix a b :: pressure_level
  show "a \<le> b \<Longrightarrow> b \<le> a \<Longrightarrow> a = b"
    by (cases a; cases b) (simp_all add: less_eq_pressure_level_def)
qed (auto simp: less_eq_pressure_level_def less_pressure_level_def)

end

primrec level_display :: "pressure_level \<Rightarrow> string" where
  "level_display Idle = ''idle''"
| "level_display Low = ''low''"
| "level_display Medium = ''medium''"
| "level_display High = ''high''"
| "level_display Critical = ''critical''"

definition psi_score :: "psi_stats \<Rightarrow> float" where
  "psi_score s = f32_add (f32_mul (f32_round (7 / 10)) (avg10 (full_line s)))
                         (f32_mul (f32_round (3 / 10)) (avg10 (some_line s)))"

definition classify :: "psi_stats \<Rightarrow> float \<Rightarrow> float \<Rightarrow> pressure_level" where
  "classify s some_threshold full_threshold =
     (let score = psi_score s
      in if fle (Finite 20) score then Critical
         else if fle (Finite 10) score \<or> fle (f32_mul full_threshold (Finite 2)) (avg10 (full_line s)) then High
         else if fle (Finite 5) score \<or> fle some_threshold (avg10 (some_line s)) then Medium
         else if fle (Finite (1 / 2)) score then Low
         else Idle)"

section \<open>Triggers\<close>

text \<open>
  The descriptors the process holds and what was written to them. \<open>write_ok\<close> is the
  kernel's answer to each write of a trigger string.
\<close>

record fd_table =
  open_fds :: "nat list"
  next_fd :: nat
  fd_writes :: "(nat \<times> string) list"

datatype trigger_kind = TriggerSome | TriggerFull

record psi_trigger =
  trigger_fd :: nat
  trigger_path :: string
  trigger_kind_of :: trigger_kind
  threshold_us :: u64
  window_us :: u64
  trigger_str :: string

definition trigger_string :: "trigger_kind \<Rightarrow> u64 \<Rightarrow> u64 \<Rightarrow> string" where
  "trigger_string k threshold window =
     (case k of TriggerSome \<Rightarrow> ''some'' | TriggerFull \<Rightarrow> ''full'') @ '' '' @ show_nat (unat threshold)
     @ '' '' @ show_nat (unat window)"

definition write_trigger_to_path ::
    "fd_table \<Rightarrow> nat \<Rightarrow> string \<Rightarrow> string \<Rightarrow> bool \<Rightarrow> fd_table \<times> (animaksm_error + unit)" where
  "write_trigger_to_path w fd s path write_ok =
     (if write_ok then (w\<lparr>fd_writes := fd_writes w @ [(fd, s)]\<rparr>, Ok ())
      else (w, Err (SysfsError path)))"

definition trigger_new ::
    "fd_table \<Rightarrow> string \<Rightarrow> bool \<Rightarrow> bool \<Rightarrow> trigger_kind \<Rightarrow> u64 \<Rightarrow> u64
      \<Rightarrow> fd_table \<times> (animaksm_error + psi_trigger)" where
  "trigger_new w path open_ok write_ok k threshold window =
     (if \<not> open_ok then (w, Err (SysfsError path))
      else let fd = next_fd w;
               w1 = w\<lparr>open_fds := fd # open_fds w, next_fd := fd + 1\<rparr>;
               s = trigger_string k threshold window
           in case write_trigger_to_path w1 fd s path write_ok of
                (w2, Inl e) \<Rightarrow> (w2, Err e)
              | (w2, Inr _) \<Rightarrow>
                  (w2, Ok \<lparr>trigger_fd = fd, trigger_path = path, trigger_kind_of = k,
                         threshold_us = threshold, window_us = window, trigger_str = s\<rparr>))"

definition trigger_rearm :: "fd_table \<Rightarrow> psi_trigger \<Rightarrow> bool \<Rightarrow> fd_table \<times> (animaksm_error + unit)" where
  "trigger_rearm w t write_ok = write_trigger_to_path w (trigger_fd t) (trigger_str t) (trigger_path t) write_ok"

definition trigger_drop :: "fd_table \<Rightarrow> psi_trigger \<Rightarrow> fd_table" where
  "trigger_drop w t = w\<lparr>open_fds := remove1 (trigger_fd t) (open_fds w)\<rparr>"

end
