(* ===== verification/Config.thy ===== *)
theory Config
  imports Psi
begin

text \<open>
  Model of \<open>crates/common/src/config.rs\<close>: the configuration records with their defaults and
  the validation of a loaded configuration. The TOML parser (crates \<open>toml\<close> and \<open>serde\<close>)
  is a parameter: \<open>parsed\<close> is what it makes of the file, missing fields taking defaults.
\<close>

record general_config =
  log_level :: string
  poll_interval_ms :: u64
  state_dir :: string

record governor_config =
  gov_enabled :: bool
  use_advisor :: bool
  psi_some_threshold :: float
  psi_full_threshold :: float
  advisor_scan_time_range :: "u64 \<times> u64"
  max_page_sharing_range :: "u32 \<times> u32"
  hysteresis_readings :: u32
  min_level_duration_secs :: u64
  stabilization_secs :: u64
  ksm_path :: string

record scanner_config =
  scan_enabled :: bool
  interval_secs :: u64
  min_anon_rss_mb :: u64
  duplicate_ratio_threshold :: float
  max_mergeable_per_process_mb :: u64
  blocklist :: "string list"
  target_cgroups :: "string list"
  max_candidates_per_cycle :: usize

record swap_proxy_config =
  sp_enabled :: bool
  device_size_gb :: u64
  sp_fingerprint :: string
  dedup_table_max_entries :: u64
  zram_backend :: string
  bloom_capacity :: usize
  bloom_false_positive_rate :: float
  page_store_path :: string

record animaksm_config =
  general :: general_config
  governor_cfg :: governor_config
  scanner_cfg :: scanner_config
  swap_proxy :: swap_proxy_config

definition general_default :: general_config where
  "general_default =
     \<lparr>log_level = ''info'', poll_interval_ms = 2000, state_dir = ''/var/lib/animaksm''\<rparr>"

definition governor_default :: governor_config where
  "governor_default =
     \<lparr>gov_enabled = True, use_advisor = True, psi_some_threshold = Finite 5,
      psi_full_threshold = Finite 2, advisor_scan_time_range = (30, 600),
      max_page_sharing_range = (256, 1024), hysteresis_readings = 4,
      min_level_duration_secs = 30, stabilization_secs = 30,
      ksm_path = ''/sys/kernel/mm/ksm''\<rparr>"

definition scanner_default :: scanner_config where
  "scanner_default =
     \<lparr>scan_enabled = True, interval_secs = 30, min_anon_rss_mb = 100,
      duplicate_ratio_threshold = f32_round (15 / 100), max_mergeable_per_process_mb = 512,
      blocklist = [''animaksm'', ''ksmd'', ''systemd'', ''sshd''], target_cgroups = [],
      max_candidates_per_cycle = 5\<rparr>"

definition swap_proxy_default :: swap_proxy_config where
  "swap_proxy_default =
     \<lparr>sp_enabled = False, device_size_gb = 8, sp_fingerprint = ''xxh3-128'',
      dedup_table_max_entries = 1000000, zram_backend = ''/dev/zram0'',
      bloom_capacity = 1000000, bloom_false_positive_rate = f64_round (1 / 100),
      page_store_path = ''/var/lib/animaksm/pagestore.dat''\<rparr>"

definition animaksm_default :: animaksm_config where
  "animaksm_default =
     \<lparr>general = general_default, governor_cfg = governor_default, scanner_cfg = scanner_default,
      swap_proxy = swap_proxy_default\<rparr>"

definition validate :: "animaksm_config \<Rightarrow> string + unit" where
  "validate c =
     (let g = governor_cfg c; s = scanner_cfg c; p = swap_proxy c
      in if flt (psi_some_threshold g) (Finite 0) \<or> flt (Finite 100) (psi_some_threshold g)
           then Err ''governor.psi_some_threshold must be between 0 and 100''
         else if flt (psi_full_threshold g) (Finite 0) \<or> flt (Finite 100) (psi_full_threshold g)
           then Err ''governor.psi_full_threshold must be between 0 and 100''
         else if snd (advisor_scan_time_range g) \<le> fst (advisor_scan_time_range g)
           then Err ''governor.advisor_scan_time_range: min must be < max''
         else if snd (max_page_sharing_range g) \<le> fst (max_page_sharing_range g)
           then Err ''governor.max_page_sharing_range: min must be < max''
         else if min_anon_rss_mb s = 0 then Err ''scanner.min_anon_rss_mb must be > 0''
         else if fle (duplicate_ratio_threshold s) (Finite 0) \<or> flt (Finite 1) (duplicate_ratio_threshold s)
           then Err ''scanner.duplicate_ratio_threshold must be in (0, 1]''
         else if device_size_gb p = 0 then Err ''swap_proxy.device_size_gb must be > 0''
         else if dedup_table_max_entries p = 0 then Err ''swap_proxy.dedup_table_max_entries must be > 0''
         else Ok ())"

datatype config_error = ConfigIo | ConfigToml | ConfigInvalid string

definition config_load ::
    "string option \<Rightarrow> (string \<Rightarrow> animaksm_config option) \<Rightarrow> config_error + animaksm_config" where
  "config_load content parsed =
     (case content of
        None \<Rightarrow> Err ConfigIo
      | Some text \<Rightarrow>
          (case parsed text of
             None \<Rightarrow> Err ConfigToml
           | Some c \<Rightarrow> (case validate c of Inl msg \<Rightarrow> Err (ConfigInvalid msg) | Inr _ \<Rightarrow> Ok c)))"

end
