(* ===== verification/Swap_Main.thy ===== *)
theory Swap_Main
  imports Ublk Config
begin

text \<open>
  Model of the command layer of \<open>crates/swap-proxy/src/main.rs\<close>: the merge of the TOML
  configuration with the command line, the real and the dry run, the swap bootstrap and the
  cleanup after a crash. Processes that are spawned (\<open>mkswap\<close>, \<open>swapon\<close>, \<open>swapoff\<close>) are
  oracles; what is printed is a list of lines.
\<close>

section \<open>Parameters of a run\<close>

record run_config =
  rc_page_store_path :: string
  rc_size_gb :: u64
  rc_max_entries :: u64
  rc_bloom_capacity :: usize
  rc_bootstrap :: bool

record run_flags =
  fl_size_gb :: "u64 option"
  fl_page_store_path :: "string option"
  fl_max_entries :: "u64 option"
  fl_bloom_capacity :: "usize option"
  fl_dry_run :: bool
  fl_no_bootstrap :: bool

datatype command = CmdRun run_flags | CmdStats string | CmdCleanup

definition opt_or :: "'a option \<Rightarrow> 'a \<Rightarrow> 'a" where
  "opt_or v d = (case v of None \<Rightarrow> d | Some x \<Rightarrow> x)"

definition resolve_run :: "run_flags \<Rightarrow> swap_proxy_config \<Rightarrow> run_config" where
  "resolve_run fl sp =
     \<lparr>rc_page_store_path = opt_or (fl_page_store_path fl) (page_store_path sp),
      rc_size_gb = opt_or (fl_size_gb fl) (device_size_gb sp),
      rc_max_entries = opt_or (fl_max_entries fl) (dedup_table_max_entries sp),
      rc_bloom_capacity = opt_or (fl_bloom_capacity fl) (bloom_capacity sp),
      rc_bootstrap = \<not> fl_no_bootstrap fl\<rparr>"

section \<open>Cleanup after a crash\<close>

definition ubd_suffix :: "string \<Rightarrow> string option" where
  "ubd_suffix name =
     (case strip_prefix name ''/dev/ublkb'' of
        Some rest \<Rightarrow> Some rest
      | None \<Rightarrow> strip_prefix name ''/dev/ubd'')"

definition ubd_device_of_line :: "string \<Rightarrow> string option" where
  "ubd_device_of_line line =
     (case split_whitespace line of
        [] \<Rightarrow> None
      | name # _ \<Rightarrow>
          (case ubd_suffix name of
             None \<Rightarrow> None
           | Some rest \<Rightarrow> if rest = [] \<or> \<not> list_all is_digit rest then None else Some name))"

definition ubd_devices_in_swapon_output :: "string \<Rightarrow> string list" where
  "ubd_devices_in_swapon_output out = List.map_filter ubd_device_of_line (rust_lines out)"

definition cleanup_messages_from_swapon_stdout :: "string \<Rightarrow> string list" where
  "cleanup_messages_from_swapon_stdout out =
     (if contains_str out ''zram0'' then [''zram0 is still active as swap. No cleanup needed.'']
      else [''WARNING: zram0 is not active as swap!'', ''Run: swapon /dev/zram0''])"

text \<open>
  \<open>noheadings\<close> and \<open>show_out\<close> are the outputs of the two \<open>swapon --show\<close> calls (\<open>Inl\<close>: the
  command could not be run) and \<open>swapoff dev\<close> tells whether \<open>swapoff\<close> exited with 0. The
  devices passed to \<open>swapoff\<close> are returned with the printed lines.
\<close>

definition cleanup_after_crash ::
    "string + string \<Rightarrow> string + string \<Rightarrow> (string \<Rightarrow> bool) \<Rightarrow> string list \<times> string list" where
  "cleanup_after_crash noheadings show_out swapoff =
     (let devs = (case noheadings of Inl _ \<Rightarrow> [] | Inr out \<Rightarrow> ubd_devices_in_swapon_output out);
          first = (case noheadings of
              Inl e \<Rightarrow> [''Could not enumerate swap devices (swapon --show): '' @ e]
            | Inr _ \<Rightarrow> map (\<lambda>d. ''swapoff '' @ d @ (if swapoff d then '' ok'' else '' FAILED'')) devs)
      in (devs, first @ cleanup_messages_from_swapon_stdout
                  (case show_out of Inl _ \<Rightarrow> [] | Inr out \<Rightarrow> out)))"

section \<open>The bootstrap of the swap device\<close>

text \<open>A spawned command: \<open>None\<close> when it cannot be run, else whether it succeeded.\<close>

datatype bootstrap_cmd = Mkswap string | Swapon string

definition bootstrap_swap ::
    "bool option \<Rightarrow> bool option \<Rightarrow> string \<Rightarrow> bootstrap_cmd list \<times> (string + unit)" where
  "bootstrap_swap mkswap swapon bdev =
     (case mkswap of
        None \<Rightarrow> ([Mkswap bdev], Err ''failed to exec mkswap'')
      | Some False \<Rightarrow> ([Mkswap bdev], Err ''mkswap exited with status'')
      | Some True \<Rightarrow>
          (case swapon of
             None \<Rightarrow> ([Mkswap bdev, Swapon bdev], Err ''failed to exec swapon'')
           | Some False \<Rightarrow> ([Mkswap bdev, Swapon bdev], Err ''swapon exited with status'')
           | Some True \<Rightarrow> ([Mkswap bdev, Swapon bdev], Ok ())))"

section \<open>The real run\<close>

text \<open>
  What the machine answers: the state of the page store file, the driver, whether the device
  goes live (only then \<open>device_fn\<close> runs and requests arrive), the outcome of the spawned
  commands, and the requests the kernel delivers while the device is live, each for
  a queue and a tag, with the answer to its completion.
\<close>

record proxy_host =
  h_store_exists :: bool
  h_dir_ok :: bool
  h_opened :: "disk_file option"
  h_control :: bool
  h_parallelism :: "nat option"
  h_built :: bool
  h_live :: bool
  h_served :: bool
  h_init_errors :: nat
  h_bdev :: string
  h_mkswap :: "bool option"
  h_swapon :: "bool option"
  h_requests :: "(nat \<times> io_descriptor \<times> nat \<times> (i32 \<Rightarrow> bool)) list"

datatype proxy_error =
    Unavailable string | EngineFailed backend_error | RunFailed ublk_run_error | WrongLength

definition queue_new :: "ublk_setup \<Rightarrow> proxy_engine \<Rightarrow> queue_state" where
  "queue_new s e =
     \<lparr>q_engine = e, q_bufs = replicate (setup_depth s) (replicate (setup_io_buf_bytes s) 0),
      completion_failures = 0, stop_warnings = 0\<rparr>"

text \<open>All queues share the engine; a request runs on the queue it was delivered to.\<close>

definition serve_step ::
    "ublk_codes \<Rightarrow> hash \<Rightarrow> proxy_engine \<times> queue_state list \<Rightarrow> nat \<times> io_descriptor \<times> nat \<times> (i32 \<Rightarrow> bool)
      \<Rightarrow> proxy_engine \<times> queue_state list" where
  "serve_step K h x req =
     (case x of (e, qs) \<Rightarrow> case req of (qid, iod, tag, completed) \<Rightarrow>
        (case handle_io K h ((qs ! qid)\<lparr>q_engine := e\<rparr>) iod tag completed of
           (q, _) \<Rightarrow> (q_engine q, qs[qid := q])))"

definition serve ::
    "ublk_codes \<Rightarrow> hash \<Rightarrow> ublk_setup \<Rightarrow> proxy_engine \<Rightarrow> (nat \<times> io_descriptor \<times> nat \<times> (i32 \<Rightarrow> bool)) list
      \<Rightarrow> proxy_engine \<times> queue_state list" where
  "serve K h s e reqs = foldl (serve_step K h) (e, replicate (setup_queues s) (queue_new s e)) reqs"

text \<open>
  The result of the run, the commands of the bootstrap, and the engine when the device is
  stopped. A failed bootstrap is logged only.
\<close>

definition run_real_proxy ::
    "ublk_codes \<Rightarrow> hash \<Rightarrow> proxy_host \<Rightarrow> run_config
      \<Rightarrow> (proxy_error + unit) \<times> bootstrap_cmd list \<times> proxy_engine option" where
  "run_real_proxy K h host rc =
     (case ensure_available (h_control host) of
        Inl msg \<Rightarrow> (Err (Unavailable msg), [], None)
      | Inr _ \<Rightarrow>
          (case engine_new (h_store_exists host) (h_dir_ok host) (h_opened host) (rc_size_gb rc)
                  (rc_max_entries rc) (rc_bloom_capacity rc) of
             Inl e \<Rightarrow> (Err (EngineFailed e), [], None)
           | Inr engine \<Rightarrow>
               (let res = ublk_run (rc_size_gb rc) (h_parallelism host) (h_built host) (h_served host)
                            (h_init_errors host);
                    out = (case res of Inl e \<Rightarrow> Err (RunFailed e) | Inr _ \<Rightarrow> Ok ())
                in case ublk_setup_of (rc_size_gb rc) (h_parallelism host) of
                     Inl _ \<Rightarrow> (out, [], Some engine)
                   | Inr s \<Rightarrow>
                       if \<not> (h_built host \<and> h_live host) then (out, [], Some engine)
                       else (out,
                             if rc_bootstrap rc then fst (bootstrap_swap (h_mkswap host) (h_swapon host) (h_bdev host))
                             else [],
                             Some (fst (serve K h s engine (h_requests host)))))))"

section \<open>The dry run\<close>

definition num_unique :: nat where "num_unique = 600"
definition num_total :: nat where "num_total = 5000"

definition unique_page :: "nat \<Rightarrow> page" where
  "unique_page i = map (\<lambda>j. word_of_nat ((i * 7 + j * 13) mod 256)) [0 ..< PAGE_SIZE]"

definition sim_offset :: "nat \<Rightarrow> u64" where
  "sim_offset i = word_of_nat (i * PAGE_SIZE)"

definition sim_writes :: "nat \<Rightarrow> nat \<Rightarrow> (u64 \<times> page) list" where
  "sim_writes a b = map (\<lambda>i. (sim_offset i, unique_page (i * 37 mod num_unique))) [a ..< b]"

fun write_pages :: "hash \<Rightarrow> proxy_engine \<Rightarrow> (u64 \<times> page) list \<Rightarrow> proxy_engine \<times> (proxy_error + unit)" where
  "write_pages h e [] = (e, Ok ())"
| "write_pages h e ((off, pg) # xs) =
     (case handle_write h e off pg of
        (e1, Inl err) \<Rightarrow> (e1, Err (EngineFailed err))
      | (e1, Inr _) \<Rightarrow> write_pages h e1 xs)"

text \<open>A page of the wrong length is the failed \<open>assert_eq!\<close>, a panic.\<close>

fun read_pages :: "proxy_engine \<Rightarrow> u64 list \<Rightarrow> proxy_engine \<times> (proxy_error + unit)" where
  "read_pages e [] = (e, Ok ())"
| "read_pages e (off # offs) =
     (case handle_read e off of
        (e1, Inl err) \<Rightarrow> (e1, Err (EngineFailed err))
      | (e1, Inr data) \<Rightarrow>
          if length data \<noteq> PAGE_SIZE then (e1, Err WrongLength) else read_pages e1 offs)"

definition discard_pages :: "proxy_engine \<Rightarrow> u64 list \<Rightarrow> proxy_engine" where
  "discard_pages e offs = foldl handle_discard e offs"

definition dry_run_workload :: "hash \<Rightarrow> proxy_engine \<Rightarrow> proxy_engine \<times> (proxy_error + unit)" where
  "dry_run_workload h e =
     (case write_pages h e (sim_writes 0 num_total) of
        (e1, Inl err) \<Rightarrow> (e1, Err err)
      | (e1, Inr _) \<Rightarrow>
          (case write_pages h (e1\<lparr>passthrough := False\<rparr>) (sim_writes num_total (num_total * 2)) of
             (e2, Inl err) \<Rightarrow> (e2, Err err)
           | (e2, Inr _) \<Rightarrow>
               (case read_pages e2 (map sim_offset [0 ..< 1000]) of
                  (e3, Inl err) \<Rightarrow> (e3, Err err)
                | (e3, Inr _) \<Rightarrow> (discard_pages e3 (map sim_offset [5000 ..< 6000]), Ok ()))))"

text \<open>The report is printed only when the workload got to its end.\<close>

definition run_dry_run_simulation ::
    "hash \<Rightarrow> proxy_host \<Rightarrow> run_config \<Rightarrow> proxy_error + report_line list" where
  "run_dry_run_simulation h host rc =
     (case engine_new (h_store_exists host) (h_dir_ok host) (h_opened host) (rc_size_gb rc)
             (rc_max_entries rc) (rc_bloom_capacity rc) of
        Inl e \<Rightarrow> Err (EngineFailed e)
      | Inr engine \<Rightarrow>
          (case dry_run_workload h engine of
             (e, Inl err) \<Rightarrow> Err err
           | (e, Inr _) \<Rightarrow> Ok (print_stats e)))"

section \<open>The commands\<close>

datatype command_output =
    RunOutput "(proxy_error + unit) \<times> bootstrap_cmd list \<times> proxy_engine option"
  | DryRunOutput "proxy_error + report_line list"
  | StatsOutput "string list"
  | CleanupOutput "string list \<times> string list"

definition run_proxy_v2 :: "ublk_codes \<Rightarrow> hash \<Rightarrow> proxy_host \<Rightarrow> run_config \<Rightarrow> bool \<Rightarrow> command_output" where
  "run_proxy_v2 K h host rc dry =
     (if dry then DryRunOutput (run_dry_run_simulation h host rc)
      else RunOutput (run_real_proxy K h host rc))"

definition show_stats_command :: "string \<Rightarrow> string list" where
  "show_stats_command store_path =
     [''Note: Stats require the proxy to be running.'', ''Store path: '' @ store_path]"

record swap_host =
  sw_noheadings :: "string + string"
  sw_show :: "string + string"
  sw_swapoff :: "string \<Rightarrow> bool"

definition run_command ::
    "ublk_codes \<Rightarrow> hash \<Rightarrow> (string \<Rightarrow> proxy_host) \<Rightarrow> swap_host \<Rightarrow> command \<Rightarrow> animaksm_config \<Rightarrow> command_output" where
  "run_command K h host sw cmd cfg =
     (case cmd of
        CmdRun fl \<Rightarrow>
          (let rc = resolve_run fl (swap_proxy cfg)
           in run_proxy_v2 K h (host (rc_page_store_path rc)) rc (fl_dry_run fl))
      | CmdStats store_path \<Rightarrow> StatsOutput (show_stats_command store_path)
      | CmdCleanup \<Rightarrow> CleanupOutput (cleanup_after_crash (sw_noheadings sw) (sw_show sw) (sw_swapoff sw)))"

text \<open>\<open>main\<close>: \<open>cfg_file\<close> is the file given by \<open>--config\<close>, if any.\<close>

definition proxy_main ::
    "ublk_codes \<Rightarrow> hash \<Rightarrow> (string \<Rightarrow> proxy_host) \<Rightarrow> swap_host \<Rightarrow> (string \<Rightarrow> animaksm_config option)
      \<Rightarrow> string option option \<Rightarrow> command \<Rightarrow> config_error + command_output" where
  "proxy_main K h host sw parsed cfg_file cmd =
     (case cfg_file of
        None \<Rightarrow> Ok (run_command K h host sw cmd animaksm_default)
      | Some text \<Rightarrow>
          (case config_load text parsed of
             Inl e \<Rightarrow> Err e
           | Inr cfg \<Rightarrow> Ok (run_command K h host sw cmd cfg)))"

end
