(* ===== verification/Engine_Run.thy ===== *)
theory Engine_Run
  imports Engine_Device
begin

text \<open>
  Whole runs of the storage engine: the specification of a page device as a checker of
  operation/result sequences, accounting of slots, liveness on a healthy store, and the
  two situations in which the code gives up: a full store and a re-inserted orphan.
\<close>

section \<open>Operations and their specification\<close>

datatype engine_op = EWrite u64 "u8 list" | ERead u64 | EDiscard u64

datatype op_result = Done | Failed backend_error | Data page

primrec op_offset :: "engine_op \<Rightarrow> u64" where
  "op_offset (EWrite off _) = off"
| "op_offset (ERead off) = off"
| "op_offset (EDiscard off) = off"

primrec engine_step :: "hash \<Rightarrow> proxy_engine \<Rightarrow> engine_op \<Rightarrow> proxy_engine \<times> op_result" where
  "engine_step h e (EWrite off data) =
     (case handle_write h e off data of (e', Inl err) \<Rightarrow> (e', Failed err) | (e', Inr _) \<Rightarrow> (e', Done))"
| "engine_step h e (ERead off) =
     (case handle_read e off of (e', Inl err) \<Rightarrow> (e', Failed err) | (e', Inr p) \<Rightarrow> (e', Data p))"
| "engine_step h e (EDiscard off) = (handle_discard e off, Done)"

fun engine_run :: "hash \<Rightarrow> proxy_engine \<Rightarrow> engine_op list \<Rightarrow> proxy_engine \<times> op_result list" where
  "engine_run h e [] = (e, [])"
| "engine_run h e (x # xs) =
     (case engine_step h e x of (e1, r) \<Rightarrow> (case engine_run h e1 xs of (e2, rs) \<Rightarrow> (e2, r # rs)))"

text \<open>
  What an ideal device with contents \<open>f\<close> may answer: a failed operation changes nothing,
  a read that succeeds returns exactly what was stored last.
\<close>

fun spec_step :: "(u64 \<Rightarrow> page) \<Rightarrow> engine_op \<Rightarrow> op_result \<Rightarrow> (u64 \<Rightarrow> page) option" where
  "spec_step f (EWrite off data) Done = Some (f(off := padded data))"
| "spec_step f (EWrite off data) (Failed _) = Some f"
| "spec_step f (ERead off) (Data p) = (if p = f off then Some f else None)"
| "spec_step f (ERead off) (Failed _) = Some f"
| "spec_step f (EDiscard off) Done = Some (f(off := replicate PAGE_SIZE 0))"
| "spec_step f _ _ = None"

fun spec_run :: "(u64 \<Rightarrow> page) \<Rightarrow> engine_op list \<Rightarrow> op_result list \<Rightarrow> (u64 \<Rightarrow> page) option" where
  "spec_run f [] [] = Some f"
| "spec_run f (x # xs) (r # rs) =
     (case spec_step f x r of None \<Rightarrow> None | Some g \<Rightarrow> spec_run g xs rs)"
| "spec_run f _ _ = None"

lemma engine_step_spec:
  assumes inv: "dev_inv V e" and off: "op_offset x \<in> V" and st: "engine_step h e x = (e', r)"
  shows "dev_inv V e'" "spec_step (disk e) x r = Some (disk e')"
proof -
  have "dev_inv V e' \<and> spec_step (disk e) x r = Some (disk e')"
  proof (cases x)
    case (EWrite o' d)
    with dev_write[OF inv, of o' h d] off st show ?thesis
      by (auto split: prod.splits sum.splits)
  next
    case (ERead o')
    with dev_read[OF inv, of o'] dev.rd_inv[OF inv, of o'] dev.rd_ok[OF inv, of o'] st show ?thesis
      by (auto split: prod.splits sum.splits)
  next
    case (EDiscard o')
    with dev.dc_inv[OF inv, of o'] st show ?thesis by auto
  qed
  then show "dev_inv V e'" "spec_step (disk e) x r = Some (disk e')" by simp_all
qed

lemma engine_run_spec:
  assumes "dev_inv V e" "op_offset ` set xs \<subseteq> V" "engine_run h e xs = (e', rs)"
  shows "dev_inv V e' \<and> spec_run (disk e) xs rs = Some (disk e')"
  using assms
proof (induction xs arbitrary: e rs)
  case (Cons x xs)
  obtain e1 r where st: "engine_step h e x = (e1, r)" by (cases "engine_step h e x")
  obtain rs' where rs: "engine_run h e1 xs = (e', rs')" "rs = r # rs'"
    using Cons.prems(3) st by (auto split: prod.splits)
  have off: "op_offset x \<in> V" "op_offset ` set xs \<subseteq> V" using Cons.prems(2) by auto
  note S = engine_step_spec[OF Cons.prems(1) off(1) st]
  show ?case using Cons.IH[OF S(1) off(2) rs(1)] S(2) rs(2) by simp
qed simp

lemma fresh_dev_inv:
  assumes "engine_new ex dir opened gb maxe bc = Ok e" "finite V" "Suc (card V) < 2 ^ 32"
    "b \<or> table_fits V (slots_of_gb gb) maxe"
  shows "dev_inv V (e\<lparr>passthrough := b\<rparr>)" "disk (e\<lparr>passthrough := b\<rparr>) = (\<lambda>_. replicate PAGE_SIZE 0)"
proof -
  note F = engine_new_fields[OF assms(1)]
  have "eng_inv (e\<lparr>passthrough := b\<rparr>)"
    using engine_new_inv(1)[OF assms(1)] by (simp add: eng_inv_def eng_books_def live_def)
  moreover have "\<not> orphaned (e\<lparr>passthrough := b\<rparr>) fp" for fp
    using engine_new_inv(2)[OF assms(1), of fp] by (simp add: orphaned_def live_def)
  ultimately show "dev_inv V (e\<lparr>passthrough := b\<rparr>)"
    using F assms by (simp add: dev_inv_def dedup_new_def)
  show "disk (e\<lparr>passthrough := b\<rparr>) = (\<lambda>_. replicate PAGE_SIZE 0)" using F by (simp add: disk_def fun_eq_iff)
qed

section \<open>Accounting\<close>

text \<open>When every entry owns its slot alone, free slots and entries add up to the capacity.\<close>

lemma count_slots: "count (image_mset backend_slot M) s = users M s"
  by (induction M) (simp_all add: users_def)

lemma books_card:
  assumes b: "books M TR A m" and ex: "\<forall>x \<in># M. exclusive TR x" and A: "A \<subseteq> {..<m}"
  shows "card A + size M = unat m"
proof -
  let ?S = "backend_slot ` set_mset M"
  have "image_mset backend_slot M = mset_set ?S"
  proof (rule multiset_eqI)
    fix s
    show "count (image_mset backend_slot M) s = count (mset_set ?S) s"
    proof (cases "s \<in> ?S")
      case True
      then show ?thesis using booksD(3)[OF b] ex by (auto simp: count_slots)
    next
      case False
      then have "users M s = 0" by (auto simp: users_zero)
      with False show ?thesis by (simp add: count_slots)
    qed
  qed
  then have "size M = card ?S" by (metis size_image_mset size_mset_set)
  moreover have "A \<union> ?S = {..<m}" "A \<inter> ?S = {}"
    using booksD(1,2)[OF b] books_complete[OF b] A by (fastforce simp: users_zero neq0_conv[symmetric])+
  ultimately show ?thesis
    using card_Un_disjoint[of A ?S] finite_subset[OF A] by (simp add: card_lessThan_word)
qed

section \<open>A full store\<close>

lemma write_needs_slot:
  assumes inv: "eng_inv e" and full: "sa_avail (slot_alloc e) = {}"
    and new: "passthrough e \<or> tracked (dedup_tab e) (fingerprint_page h (padded data)) = None"
  shows "snd (handle_write h e off data) = Err StoreFull" "disk (fst (handle_write h e off data)) = disk e"
proof -
  define e0 where "e0 = e\<lparr>pstats := (pstats e)\<lparr>total_writes := total_writes (pstats e) + 1\<rparr>\<rparr>"
  obtain sa r where al: "allocate (slot_alloc e) = (sa, r)" by (cases "allocate (slot_alloc e)")
  have "sa_inv (slot_alloc e)" using eng_booksD(2) inv by (simp add: eng_inv_def)
  from allocate_Some(1)[OF this] al full have r: "r = None" by (cases r) auto
  then have n: "allocate_slot (e0\<lparr>dedup_tab := t\<rparr>) = (e0\<lparr>dedup_tab := t, slot_alloc := sa\<rparr>, Err StoreFull)"
    "allocate_slot e0 = (e0\<lparr>slot_alloc := sa\<rparr>, Err StoreFull)" for t
    using al by (simp_all add: allocate_slot_def e0_def)
  have d: "disk (e0\<lparr>dedup_tab := t, slot_alloc := sa\<rparr>) = disk e" "disk (e0\<lparr>slot_alloc := sa\<rparr>) = disk e" for t
    by (simp_all add: e0_def disk_def fun_eq_iff split: option.split)
  have "snd (handle_write h e off data) = Err StoreFull \<and> disk (fst (handle_write h e off data)) = disk e"
  proof (cases "passthrough e")
    case True
    with n d show ?thesis by (simp add: handle_write_def write_direct_def e0_def Let_def)
  next
    case False
    obtain t l where l: "dedup_lookup (dedup_tab e) (fingerprint_page h (padded data)) (padded data) = (t, l)"
      by (cases "dedup_lookup (dedup_tab e) (fingerprint_page h (padded data)) (padded data)")
    then have "l = Miss"
      using False new rt.look_hit[of "dedup_tab e" "fingerprint_page h (padded data)" "padded data"]
      by (cases l) (auto simp del: tracked_eq_None)
    with False l n d show ?thesis
      by (simp add: handle_write_def write_unique_or_direct_def e0_def Let_def)
  qed
  then show "snd (handle_write h e off data) = Err StoreFull"
    "disk (fst (handle_write h e off data)) = disk e" by simp_all
qed

section \<open>Liveness on a healthy store\<close>

lemma write_goes_through:
  assumes inv: "eng_inv e" and av: "sa_avail (slot_alloc e) \<noteq> {}" and hl: "healthy (pstore e)"
  shows "snd (write_direct e off pg) = Ok ()" "snd (write_unique_or_direct e off fp pg) = Ok ()"
proof -
  have b: "eng_books (live e) e" using inv by (simp add: eng_inv_def)
  note D = eng_booksD[OF b]
  obtain sa r where al: "allocate (slot_alloc e) = (sa, r)" by (cases "allocate (slot_alloc e)")
  with allocate_None(1)[of "slot_alloc e" sa] av obtain slot where s: "r = Some slot" by (cases r) auto
  have "slot < total_slots (pstore e)"
    using allocate_Some(1)[OF D(2) al[unfolded s]] slots.finite_avail[OF D(2)] D(4) by auto
  from write_page_healthy[OF hl this, of pg]
  obtain ps where w: "write_page (pstore e) slot pg = (ps, Ok ())"
    by (cases "write_page (pstore e) slot pg") simp
  show "snd (write_direct e off pg) = Ok ()" "snd (write_unique_or_direct e off fp pg) = Ok ()"
    using al s w
    by (simp_all add: write_direct_def write_unique_or_direct_def allocate_slot_def write_page_to_slot_def
        Let_def split: prod.split)
qed

lemma handle_write_live:
  assumes inv: "eng_inv e" and av: "sa_avail (slot_alloc e) \<noteq> {}" and hl: "healthy (pstore e)"
  shows "snd (handle_write h e off data) = Ok ()"
proof -
  define st where "st = (pstats e)\<lparr>total_writes := total_writes (pstats e) + 1\<rparr>"
  let ?pg = "padded data" and ?fp = "fingerprint_page h (padded data)"
  show ?thesis
  proof (cases "passthrough e")
    case True
    have "eng_inv (e\<lparr>pstats := st\<rparr>)" using inv by (simp add: eng_inv_def)
    from write_goes_through(1)[OF this, of off ?pg] av hl True show ?thesis
      by (simp add: handle_write_def st_def Let_def)
  next
    case False
    obtain t l where l: "dedup_lookup (dedup_tab e) ?fp ?pg = (t, l)"
      by (cases "dedup_lookup (dedup_tab e) ?fp ?pg")
    define e1 where "e1 = e\<lparr>pstats := st, dedup_tab := t\<rparr>"
    have b: "eng_books (live e) e" using inv by (simp add: eng_inv_def)
    have t: "tracked t = tracked (dedup_tab e)" "dt_inv t"
      using rt.look_tr[of "dedup_tab e" ?fp ?pg] dt_inv_lookup[OF eng_booksD(3)[OF b], of ?fp ?pg] l by simp_all
    have b1: "eng_books (live e1) e1"
      using b t by (simp add: e1_def eng_books_def live_def)
    then have i1: "eng_inv e1" by (simp add: eng_inv_def)
    show ?thesis
    proof (cases l)
      case Miss
      with write_goes_through(2)[OF i1, of off ?fp ?pg] av hl l False show ?thesis
        by (simp add: handle_write_def e1_def st_def Let_def)
    next
      case (Duplicate slot)
      obtain c where c: "tracked (dedup_tab e) ?fp = Some (c, slot)"
        using rt.look_hit[of "dedup_tab e" ?fp ?pg slot] l Duplicate by auto
      note tr = books_trackedD(4)[OF eng_booksD(6)[OF b] c]
      obtain p where p: "slot_page (pstore e) slot = Some p" using eng_booksD(7)[OF b tr] by auto
      obtain s where r: "read_page (pstore e) slot = (s, Ok p)" "healthy s"
        using read_page_healthy[OF hl eng_booksD(1)[OF b] p] by (cases "read_page (pstore e) slot") auto
      have "ps_inv s" "total_slots s = total_slots (pstore e)" "slot_page s = slot_page (pstore e)"
        using read_page_same[OF eng_booksD(1)[OF b], of slot] r by simp_all
      then have i2: "eng_inv (e1\<lparr>pstore := s\<rparr>)"
        using b1 by (auto simp: eng_inv_def e1_def intro!: eng_store_same)
      have "snd (write_unique_or_direct (e1\<lparr>pstore := s\<rparr>) off ?fp ?pg) = Ok ()"
        using write_goes_through(2)[OF i2, of off ?fp ?pg] av r(2) by (simp add: e1_def)
      moreover have "\<exists>t'. dedup_add_reference t ?fp = (t', True)"
      proof -
        have "tracked t ?fp = Some (c, slot)" using c t(1) by simp
        then show ?thesis using tracked_SomeD by (fastforce simp: dedup_add_reference_def)
      qed
      ultimately show ?thesis
        using l Duplicate r False
        by (auto simp: handle_write_def write_duplicate_def e1_def st_def Let_def)
    qed
  qed
qed

lemma handle_read_live:
  assumes inv: "eng_inv e" and hl: "healthy (pstore e)"
  shows "snd (handle_read e off) = Ok (disk e off)"
proof (cases "map_of (translation e) off")
  case None
  then show ?thesis by (simp add: handle_read_def translation_lookup_def disk_def Let_def)
next
  case (Some ent)
  have b: "eng_books (live e) e" using inv by (simp add: eng_inv_def)
  have "ent \<in># live e" using map_of_in_vals[OF Some] by (simp add: live_def)
  then obtain p where p: "slot_page (pstore e) (backend_slot ent) = Some p" using eng_booksD(7)[OF b] by auto
  from read_page_healthy[OF hl eng_booksD(1)[OF b] p] Some p show ?thesis
    by (simp add: handle_read_def translation_lookup_def disk_def Let_def split: prod.split) (metis snd_conv)
qed

text \<open>The engine never makes a healthy store fail.\<close>

lemma healthy_write: "healthy ps \<Longrightarrow> healthy (fst (write_page ps slot pg))"
  using write_page_healthy[of ps slot pg] write_page_out_of_range(1)[of ps slot pg]
  by (cases "slot < total_slots ps") (auto simp: not_less)

lemma healthy_read: "healthy ps \<Longrightarrow> healthy (fst (read_page ps slot))"
  by (simp add: read_page_def healthy_def file_seek_def next_outcome_def Let_def file_read_exact_def)

lemma healthy_replace [simp]: "pstore (replace_mapping e off x) = pstore e"
  by (simp add: replace_mapping_def translation_insert_def split: option.split)

lemma pstore_direct:
  assumes "healthy (pstore e)"
  shows "healthy (pstore (fst (write_direct e off pg)))"
    "healthy (pstore (fst (write_unique_or_direct e off fp pg)))"
  using assms healthy_write[of "pstore e"]
  by (auto simp: write_direct_def write_unique_or_direct_def allocate_slot_def write_page_to_slot_def
      count_unique_def free_slot_def Let_def split: prod.split option.split sum.split) (metis fst_conv)+

lemma pstore_duplicate:
  assumes "healthy (pstore e)"
  shows "healthy (pstore (fst (write_duplicate e off fp pg slot)))"
proof -
  have "healthy (fst (read_page (pstore e) slot))" by (rule healthy_read[OF assms])
  then show ?thesis
    using pstore_direct(2)
    by (auto simp: write_duplicate_def Let_def split: prod.split sum.split bool.split)
qed

lemma handle_write_healthy:
  assumes "healthy (pstore e)"
  shows "healthy (pstore (fst (handle_write h e off data)))"
  using assms pstore_direct pstore_duplicate
  by (auto simp: handle_write_def Let_def split: prod.split lookup_result.split)

section \<open>Writing an untracked page\<close>

text \<open>
  With room in the table, the page gets a slot of its own and an entry in the table with a
  single reference.
\<close>

lemma write_untracked_engine:
  assumes mode: "\<not> passthrough e" and room: "has_room (dedup_tab e)"
    and fp: "fp = fingerprint_page h (padded data)" and un: "tracked (dedup_tab e) fp = None"
    and new: "map_of (translation e) off = None" and w: "handle_write h e off data = (e1, Ok u)"
  obtains s n where "allocate (slot_alloc e) = (slot_alloc e1, Some s)"
    "translation e1 = AList.update off (entry_deduplicated fp s) (translation e)"
    "dedup_tab e1 = dedup_track ((dedup_tab e)\<lparr>bloom_false_positives := n\<rparr>) fp (padded data) s"
proof -
  let ?pg = "padded data"
  obtain t l where l: "dedup_lookup (dedup_tab e) fp ?pg = (t, l)"
    by (cases "dedup_lookup (dedup_tab e) fp ?pg")
  have "l = Miss \<and> (\<exists>n. t = (dedup_tab e)\<lparr>bloom_false_positives := n\<rparr>)"
    using l un by (auto simp: dedup_lookup_def split: if_splits intro: exI[of _ "bloom_false_positives (dedup_tab e)"])
  then obtain n where Miss: "l = Miss" and t: "t = (dedup_tab e)\<lparr>bloom_false_positives := n\<rparr>" by blast
  define e2 where "e2 = e\<lparr>pstats := (pstats e)\<lparr>total_writes := total_writes (pstats e) + 1\<rparr>, dedup_tab := t\<rparr>"
  have w2: "write_unique_or_direct e2 off fp ?pg = (e1, Ok u)"
    using w mode l Miss fp by (simp add: handle_write_def e2_def Let_def)
  obtain sa r where al: "allocate (slot_alloc e) = (sa, r)" by (cases "allocate (slot_alloc e)")
  with w2 obtain s where s: "r = Some s"
    by (cases r) (auto simp: write_unique_or_direct_def allocate_slot_def e2_def)
  obtain ps wr where ps: "write_page (pstore e) s ?pg = (ps, wr)" by (cases "write_page (pstore e) s ?pg")
  have "dedup_insert t fp ?pg s = (dedup_track t fp ?pg s, True)"
    using room un t by (simp add: dedup_insert_def has_room_def)
  then have "e1 = replace_mapping (count_unique (e2\<lparr>slot_alloc := sa, pstore := ps, dedup_tab := dedup_track t fp ?pg s\<rparr>))
      off (entry_deduplicated fp s)"
    using w2 al s ps
    by (cases wr) (auto simp: write_unique_or_direct_def allocate_slot_def e2_def write_page_to_slot_def)
  with new al s t show thesis
    by (intro that[of s n])
       (simp_all add: replace_mapping_def translation_insert_def count_unique_def e2_def)
qed

lemma allocated_in_range:
  assumes "eng_inv e" "allocate (slot_alloc e) = (sa, Some s)"
  shows "s < max_slots sa"
proof -
  have "eng_books (live e) e" using assms(1) by (simp add: eng_inv_def)
  note D = eng_booksD[OF this]
  show ?thesis
    using allocate_Some(1)[OF D(2) assms(2)] slots.finite_avail[OF D(2)] allocate_inv(2)[OF D(2)] assms(2)
    by auto
qed

section \<open>Re-inserting an orphan\<close>

text \<open>
  The page of \<open>off1\<close> lost its metadata. Writing the same page elsewhere tracks its
  fingerprint anew with the new slot; discarding \<open>off1\<close> then drops the only reference of
  the new entry and frees the slot that \<open>off2\<close> still maps to.
\<close>

lemma write_untracked:
  assumes inv: "eng_inv e" and mode: "\<not> passthrough e" and room: "has_room (dedup_tab e)"
    and fp: "fp = fingerprint_page h (padded data)" and un: "tracked (dedup_tab e) fp = None"
    and new: "map_of (translation e) off = None" and w: "handle_write h e off data = (e1, Ok u)"
  obtains s where "translation e1 = AList.update off (entry_deduplicated fp s) (translation e)"
    "tracked (dedup_tab e1) fp = Some (1, s)" "s < max_slots (slot_alloc e1)"
proof -
  obtain s n where "allocate (slot_alloc e) = (slot_alloc e1, Some s)"
    "translation e1 = AList.update off (entry_deduplicated fp s) (translation e)"
    "dedup_tab e1 = dedup_track ((dedup_tab e)\<lparr>bloom_false_positives := n\<rparr>) fp (padded data) s"
    by (rule write_untracked_engine[OF mode room fp un new w])
  with allocated_in_range[OF inv] show thesis by (intro that[of s]) simp_all
qed

lemma discard_last_reference:
  assumes "map_of (translation e) off = Some ent" "kind ent = Deduplicated fp"
    and "tracked (dedup_tab e) fp = Some (1, s)" "s < max_slots (slot_alloc e)"
  shows "free_slots (slot_alloc (handle_discard e off)) = free_slots (slot_alloc e) @ [s]"
    "translation (handle_discard e off) = AList.delete off (translation e)"
proof -
  obtain t where "dedup_remove_reference (dedup_tab e) fp = (t, Removed s)"
    using rt.remove_last[OF assms(3)] by (cases "dedup_remove_reference (dedup_tab e) fp") auto
  with assms show "free_slots (slot_alloc (handle_discard e off)) = free_slots (slot_alloc e) @ [s]"
    "translation (handle_discard e off) = AList.delete off (translation e)"
    by (simp_all add: handle_discard_def translation_remove_def release_mapping_def free_slot_def
        free_slot_of_def Let_def)
qed

end
