(* ===== verification/Ublk_Laws.thy ===== *)
theory Ublk_Laws
  imports Ublk
begin

text \<open>
  Correctness of the ublk frontend of theory \<open>Ublk\<close>: the pages of a request are served at
  consecutive offsets, a write request is what a read request of the same range returns,
  and a request that is refused leaves the engine alone. The loops are the ones of theory
  \<open>Block_Device\<close>; its laws apply through the interpretation \<open>dev\<close> on the engine.
\<close>

section \<open>Chunks and offsets\<close>

lemma chunks_Nil [simp]: "chunks n [] = []"
  by (subst chunks.simps) simp

lemma chunks_step: "0 < n \<Longrightarrow> xs \<noteq> [] \<Longrightarrow> chunks n xs = take n xs # chunks n (drop n xs)"
  by (subst chunks.simps) simp

lemma concat_chunks [simp]: "0 < n \<Longrightarrow> concat (chunks n xs) = xs"
  by (induction "length xs" arbitrary: xs rule: less_induct) (case_tac "xs = []", simp_all add: chunks_step)

lemma chunks_full_mult:
  assumes "0 < n"
  shows "length xs = k * n \<Longrightarrow> length (chunks n xs) = k \<and> (\<forall>c \<in> set (chunks n xs). length c = n)"
proof (induction k arbitrary: xs)
  case (Suc k)
  then have ne: "xs \<noteq> []" and d: "length (drop n xs) = k * n" and t: "length (take n xs) = n"
    using assms by auto
  show ?case using Suc.IH[OF d] t unfolding chunks_step[OF assms ne] by simp
qed simp

lemma chunks_full:
  assumes "0 < n" "n dvd length xs"
  shows "length (chunks n xs) = length xs div n" "\<forall>c \<in> set (chunks n xs). length c = n"
proof -
  obtain k where "length xs = k * n" using assms(2) by (metis dvdE mult.commute)
  with chunks_full_mult[OF assms(1) this] assms(1)
  show "length (chunks n xs) = length xs div n" "\<forall>c \<in> set (chunks n xs). length c = n" by simp_all
qed

lemma page_offset_inj:
  assumes "page_offset r i = page_offset r j" "i * PAGE_SIZE < 2 ^ 64" "j * PAGE_SIZE < 2 ^ 64"
  shows "i = j"
proof -
  have "(word_of_nat (i * PAGE_SIZE) :: u64) = word_of_nat (j * PAGE_SIZE)"
    using assms(1) by (simp add: page_offset_def)
  then have "unat (word_of_nat (i * PAGE_SIZE) :: u64) = unat (word_of_nat (j * PAGE_SIZE) :: u64)"
    by simp
  then have "i * PAGE_SIZE = j * PAGE_SIZE"
    using assms(2,3) by (simp add: unat_of_nat del: of_nat_mult)
  then show ?thesis by (simp add: PAGE_SIZE_def)
qed

definition req_offsets :: "block_request \<Rightarrow> u64 list" where
  "req_offsets r = map (page_offset r) (page_indices r)"

lemma distinct_req_offsets: "distinct (req_offsets r)"
proof -
  have "i * PAGE_SIZE < 2 ^ 64" if "i < unat (req_bytes r) div PAGE_SIZE" for i
  proof -
    have "i * PAGE_SIZE \<le> (unat (req_bytes r) div PAGE_SIZE) * PAGE_SIZE"
      using that by (intro mult_le_mono1) simp
    also have "\<dots> \<le> unat (req_bytes r)" by simp
    finally show ?thesis using unat_u64_less[of "req_bytes r"] by linarith
  qed
  then show ?thesis
    by (auto simp: req_offsets_def page_indices_def distinct_map intro!: inj_onI dest: page_offset_inj)
qed

definition aligned :: "block_request \<Rightarrow> bool" where
  "aligned r \<longleftrightarrow> PAGE_SIZE dvd unat (req_offset r) \<and> PAGE_SIZE dvd unat (req_bytes r)"

lemma validate_iff: "validate_page_aligned r = (if aligned r then Ok r else Err (- EINVAL))"
  by (auto simp: validate_page_aligned_def aligned_def PAGE_SIZE_def word_unat_eq_iff unat_mod
      mod_eq_0_iff_dvd)

lemma map_fst_with_offsets:
  assumes "aligned r" "length cs = unat (req_bytes r) div PAGE_SIZE"
  shows "map fst (with_offsets r cs) = req_offsets r" "map snd (with_offsets r cs) = cs"
  using assms by (simp_all add: with_offsets_def req_offsets_def page_indices_def)

definition req_chunks :: "block_request \<Rightarrow> u8 list \<Rightarrow> (u64 \<times> page) list" where
  "req_chunks r buf = with_offsets r (chunks PAGE_SIZE (take (unat (req_bytes r)) buf))"

lemma req_chunks:
  assumes "aligned r" "unat (req_bytes r) \<le> length buf"
  shows "map fst (req_chunks r buf) = req_offsets r"
    "concat (map snd (req_chunks r buf)) = take (unat (req_bytes r)) buf"
    "\<forall>c \<in> snd ` set (req_chunks r buf). length c = PAGE_SIZE"
proof -
  have len: "length (take (unat (req_bytes r)) buf) = unat (req_bytes r)" using assms(2) by simp
  have d: "PAGE_SIZE dvd length (take (unat (req_bytes r)) buf)"
    using assms(1) by (simp only: len aligned_def)
  note c = chunks_full[OF PAGE_SIZE_pos d]
  have n: "length (chunks PAGE_SIZE (take (unat (req_bytes r)) buf)) = unat (req_bytes r) div PAGE_SIZE"
    using c(1) len by simp
  note m = map_fst_with_offsets[OF assms(1) n]
  show "map fst (req_chunks r buf) = req_offsets r"
    "concat (map snd (req_chunks r buf)) = take (unat (req_bytes r)) buf"
    by (simp_all only: req_chunks_def m) (simp add: PAGE_SIZE_def)
  show "\<forall>c \<in> snd ` set (req_chunks r buf). length c = PAGE_SIZE"
    using c(2) m(2) unfolding req_chunks_def by (metis list.set_map)
qed

section \<open>Write requests\<close>

lemma execute_write_Ok:
  assumes "execute_write h e r buf = (e1, Ok n)"
  shows "aligned r" "unat (req_bytes r) \<le> length buf" "n = req_bytes r"
    "write_loop (handle_write h) e (req_chunks r buf) = (e1, Ok ())"
  using assms
  by (auto simp: execute_write_def validate_iff req_chunks_def split: if_splits sum.splits prod.splits)

lemma execute_read_Ok:
  assumes "execute_read e r buf = (e1, buf', Ok n)"
  obtains cs where "aligned r" "unat (req_bytes r) \<le> length buf" "n = req_bytes r"
    "read_loop handle_read (- EIO) e (req_chunks r buf) = (e1, Ok (), cs)"
    "buf' = concat cs @ drop (unat (req_bytes r)) buf"
  using assms
  by (auto simp: execute_read_def validate_iff req_chunks_def Let_def split: if_splits sum.splits prod.splits)

lemma write_read_request:
  assumes inv: "dev_inv V e" and V: "set (req_offsets r) \<subseteq> V"
    and w: "execute_write h e r buf = (e1, Ok n)" and rd: "execute_read e1 r buf2 = (e2, buf3, Ok m)"
  shows "buf3 = take (unat (req_bytes r)) buf @ drop (unat (req_bytes r)) buf2"
proof -
  note W = execute_write_Ok[OF w]
  obtain cs where R: "unat (req_bytes r) \<le> length buf2"
    "read_loop handle_read (- EIO) e1 (req_chunks r buf2) = (e2, Ok (), cs)"
    "buf3 = concat cs @ drop (unat (req_bytes r)) buf2"
    using execute_read_Ok[OF rd] by blast
  note C = req_chunks[OF W(1,2)]
  have off: "fst ` set (req_chunks r buf) \<subseteq> V" "distinct (map fst (req_chunks r buf))"
    using V distinct_req_offsets[of r] C(1) by (simp_all flip: list.set_map)
  have "map fst (req_chunks r buf2) = map fst (req_chunks r buf)"
    using C(1) req_chunks(1)[OF W(1) R(1)] by simp
  from dev.write_then_read[OF inv off W(4) this R(2)]
  have "cs = map (padded \<circ> snd) (req_chunks r buf)" .
  also have "\<dots> = map snd (req_chunks r buf)"
    using C(3) by (auto simp: padded_def)
  finally show ?thesis using R(3) C(2) by simp
qed

text \<open>The loops look at the range of a request, not at its operation.\<close>

lemma range_op [simp]:
  "aligned (r\<lparr>req_op := x\<rparr>) = aligned r" "page_offset (r\<lparr>req_op := x\<rparr>) = page_offset r"
  "with_offsets (r\<lparr>req_op := x\<rparr>) cs = with_offsets r cs"
  by (simp_all add: aligned_def page_offset_def with_offsets_def fun_eq_iff cong: map_cong)

lemma req_offsets_op: "req_offsets (r\<lparr>req_op := x\<rparr>) = req_offsets r"
  by (simp add: req_offsets_def page_indices_def)

lemma execute_read_op: "execute_read e (r\<lparr>req_op := x\<rparr>) buf = execute_read e (r\<lparr>req_op := y\<rparr>) buf"
  by (simp add: execute_read_def validate_iff Let_def split: prod.split sum.split)

section \<open>Requests that touch nothing\<close>

lemma refused_unchanged:
  assumes "\<not> aligned r" "req_op r \<in> {UblkRead, UblkWrite, UblkDiscard, UblkWriteZeroes}"
  shows "execute_request h e r buf = (e, buf, Err (- EINVAL))"
  using assms by (auto simp: execute_request_def validate_iff execute_read_def execute_write_def)

lemma short_buffer_unchanged:
  assumes "length buf < unat (req_bytes r)" "req_op r \<in> {UblkRead, UblkWrite}"
  shows "execute_request h e r buf = (e, buf, Err (- EINVAL))"
  using assms by (auto simp: execute_request_def validate_iff execute_read_def execute_write_def)

section \<open>Sizes\<close>

lemma req_bytes_exact:
  assumes "unat ns < 2 ^ 23"
  shows "unat (req_bytes (block_request_new op s ns)) = unat ns * 512"
proof -
  have "unat (push_bit 9 ns) = unat ns * 512"
    using assms by (simp add: push_bit_eq_mult unat_word_ariths)
  moreover have "unat ns * 512 < 2 ^ 64" using assms by simp
  ultimately show ?thesis
    by (simp add: block_request_new_def unsigned_ucast_eq take_bit_nat_eq_self)
qed

end
