(* ===== verification/Swap_Laws.thy ===== *)
theory Swap_Laws
  imports Swap_Main Engine_Run Ublk_Laws
begin

text \<open>
  Laws of the command layer of the swap proxy: the devices that the cleanup turns off, the
  engine of a real run, which never leaves passthrough mode, and the dry run, which always
  gets to its end on a healthy store.
\<close>

section \<open>Devices\<close>

text \<open>A ublk device: one of the two prefixes and a number, nothing else.\<close>

definition ubd_name :: "string \<Rightarrow> bool" where
  "ubd_name d \<longleftrightarrow> (\<exists>n. n \<noteq> [] \<and> list_all is_digit n \<and> (d = ''/dev/ublkb'' @ n \<or> d = ''/dev/ubd'' @ n))"

lemma strip_prefix_Some: "strip_prefix s p = Some r \<longleftrightarrow> s = p @ r"
  by (auto simp: strip_prefix_def prefix_def)

lemma not_both_prefixes: "''/dev/ublkb'' @ a \<noteq> ''/dev/ubd'' @ b"
  by simp

lemma ubd_suffix_digits:
  "(case ubd_suffix w of None \<Rightarrow> False | Some rest \<Rightarrow> rest \<noteq> [] \<and> list_all is_digit rest) \<longleftrightarrow> ubd_name w"
proof (cases "strip_prefix w ''/dev/ublkb''")
  case (Some r)
  then have w: "w = ''/dev/ublkb'' @ r" by (simp add: strip_prefix_Some)
  have "ubd_name w \<longleftrightarrow> r \<noteq> [] \<and> list_all is_digit r" by (simp add: ubd_name_def w)
  with Some show ?thesis by (simp add: ubd_suffix_def)
next
  case none: None
  then have n: "w \<noteq> ''/dev/ublkb'' @ r" for r using strip_prefix_Some[of w "''/dev/ublkb''" r] by simp
  show ?thesis
  proof (cases "strip_prefix w ''/dev/ubd''")
    case (Some r)
    then have w: "w = ''/dev/ubd'' @ r" by (simp add: strip_prefix_Some)
    have "ubd_name w \<longleftrightarrow> r \<noteq> [] \<and> list_all is_digit r"
      using n unfolding ubd_name_def w by (metis same_append_eq)
    with none Some show ?thesis by (simp add: ubd_suffix_def)
  next
    case None
    then have "w \<noteq> ''/dev/ubd'' @ r" for r using strip_prefix_Some[of w "''/dev/ubd''" r] by simp
    with none None n show ?thesis by (simp add: ubd_suffix_def ubd_name_def)
  qed
qed

lemma ubd_device_of_line:
  "ubd_device_of_line line = Some d \<longleftrightarrow> (\<exists>ws. split_whitespace line = d # ws) \<and> ubd_name d"
proof (cases "split_whitespace line")
  case (Cons w ws)
  have "ubd_device_of_line line = Some d \<longleftrightarrow> ubd_name w \<and> w = d"
    unfolding ubd_suffix_digits[of w, symmetric] using Cons
    by (auto simp: ubd_device_of_line_def split: option.split)
  with Cons show ?thesis by auto
qed (simp add: ubd_device_of_line_def)

lemma ubd_devices:
  "d \<in> set (ubd_devices_in_swapon_output out)
    \<longleftrightarrow> ubd_name d \<and> (\<exists>line \<in> set (rust_lines out). \<exists>ws. split_whitespace line = d # ws)"
  by (auto simp: ubd_devices_in_swapon_output_def map_filter_def ubd_device_of_line
      intro!: image_eqI[of _ "\<lambda>x. the (ubd_device_of_line x)"])
     (metis option.sel ubd_device_of_line)+

section \<open>Real runs stay in passthrough mode\<close>

definition direct_only :: "dedup_table \<Rightarrow> proxy_engine \<Rightarrow> bool" where
  "direct_only t e \<longleftrightarrow> passthrough e \<and> dedup_tab e = t \<and> duplicate_writes (pstats e) = 0
     \<and> (\<forall>x \<in> set (translation e). kind (snd x) = Direct)"

lemma set_update_subset: "set (AList.update k v al) \<subseteq> insert (k, v) (set al)"
  by (induction al) auto

lemma set_delete_subset: "set (AList.delete k al) \<subseteq> set al"
  by (induction al) auto

lemma direct_release: "kind x = Direct \<Longrightarrow> release_mapping e x = free_slot e (backend_slot x)"
  by (simp add: release_mapping_def)

lemma direct_fields:
  "direct_only t (e\<lparr>slot_alloc := sa\<rparr>) = direct_only t e" "direct_only t (e\<lparr>pstore := ps\<rparr>) = direct_only t e"
  "duplicate_writes st = duplicate_writes (pstats e) \<Longrightarrow> direct_only t (e\<lparr>pstats := st\<rparr>) = direct_only t e"
  by (simp_all add: direct_only_def)

lemma direct_free: "direct_only t (free_slot e s) = direct_only t e"
  by (simp add: free_slot_def direct_fields)

lemma direct_replace:
  assumes "direct_only t e"
  shows "direct_only t (replace_mapping e off (entry_direct s))"
proof -
  have new: "direct_only t (e\<lparr>translation := AList.update off (entry_direct s) (translation e)\<rparr>)"
    using assms set_update_subset[of off "entry_direct s" "translation e"] by (auto simp: direct_only_def)
  show ?thesis
  proof (cases "map_of (translation e) off")
    case None
    with new show ?thesis by (simp add: replace_mapping_def translation_insert_def)
  next
    case (Some old)
    then have "kind old = Direct" using assms map_of_SomeD[OF Some] by (auto simp: direct_only_def)
    with Some new show ?thesis
      by (simp add: replace_mapping_def translation_insert_def direct_release direct_free)
  qed
qed

lemma direct_write:
  assumes "direct_only t e"
  shows "direct_only t (fst (handle_write h e off d))"
proof -
  define e0 where "e0 = e\<lparr>pstats := (pstats e)\<lparr>total_writes := total_writes (pstats e) + 1\<rparr>\<rparr>"
  have e0: "direct_only t e0" "passthrough e0" using assms by (simp_all add: e0_def direct_fields direct_only_def)
  have "direct_only t (fst (write_direct e0 off pg))" for pg
    using e0(1)
    by (auto simp: write_direct_def allocate_slot_def write_page_to_slot_def count_unique_def
        direct_fields direct_free intro!: direct_replace split: prod.split sum.split option.split)
  with e0(2) show ?thesis by (simp add: handle_write_def Let_def e0_def)
qed

lemma direct_read: "direct_only t e \<Longrightarrow> direct_only t (fst (handle_read e off))"
  by (simp add: handle_read_def Let_def direct_fields split: option.split prod.split)

lemma direct_discard:
  assumes "direct_only t e"
  shows "direct_only t (handle_discard e off)"
proof -
  define e0 where "e0 = e\<lparr>pstats := (pstats e)\<lparr>discards := discards (pstats e) + 1\<rparr>\<rparr>"
  have "direct_only t (e0\<lparr>translation := AList.delete off (translation e0)\<rparr>)"
    using assms set_delete_subset[of off "translation e"] by (auto simp: direct_only_def e0_def)
  moreover have "kind ent = Direct" if "map_of (translation e) off = Some ent" for ent
    using assms map_of_SomeD[OF that] by (auto simp: direct_only_def)
  ultimately show ?thesis
    by (auto simp: handle_discard_def Let_def translation_remove_def e0_def direct_release direct_free
        split: option.split)
qed

text \<open>Loops and requests keep whatever the operations keep.\<close>

lemma write_loop_keeps:
  assumes "\<And>s off d. P s \<Longrightarrow> P (fst (wr s off d))" "P s"
  shows "P (fst (write_loop wr s xs))"
  using assms(2)
proof (induction xs arbitrary: s)
  case (Cons x xs)
  obtain off d where x: "x = (off, d)" by (cases x)
  obtain s1 r where w: "wr s off d = (s1, r)" by fastforce
  have "P s1" using assms(1)[OF Cons.prems, of off d] w by simp
  with Cons.IH[OF this] w x show ?case by (simp split: sum.split)
qed simp

lemma read_loop_keeps:
  assumes "\<And>s off. P s \<Longrightarrow> P (fst (rd s off))" "P s"
  shows "P (fst (read_loop rd x s xs))"
  using assms(2)
proof (induction xs arbitrary: s)
  case (Cons y xs)
  obtain off d where y: "y = (off, d)" by (cases y)
  obtain s1 r where w: "rd s off = (s1, r)" by fastforce
  have "P s1" using assms(1)[OF Cons.prems, of off] w by simp
  with Cons.IH[OF this] w y show ?case by (auto split: sum.split prod.split)
qed simp

lemma direct_request:
  assumes d: "direct_only t e"
  shows "direct_only t (fst (handle_request h e r buf))"
proof -
  have w: "direct_only t (fst (write_loop (handle_write h) e xs))" for xs
    by (rule write_loop_keeps[where P = "direct_only t"]) (simp_all add: direct_write d)
  have rd: "direct_only t (fst (read_loop handle_read x e xs))" for x :: i32 and xs
    by (rule read_loop_keeps[where P = "direct_only t"]) (simp_all add: direct_read d)
  have dc: "direct_only t (discard_loop handle_discard e offs)" for offs
    unfolding discard_loop_def by (rule foldl_pres[where P = "direct_only t"]) (simp_all add: direct_discard d)
  have ew: "direct_only t (fst (execute_write h e r' b))" for r' b
    using w d by (auto simp: execute_write_def split: sum.split prod.split) (metis fst_conv)+
  have er: "direct_only t (fst (execute_read e r' b))" for r' b
    using rd d by (auto simp: execute_read_def Let_def split: sum.split prod.split) (metis fst_conv)+
  have "direct_only t (fst (execute_request h e r buf))"
  proof (cases "req_op r")
    case UblkWriteZeroes
    with w d show ?thesis
      by (auto simp: execute_request_def split: sum.split prod.split) (metis fst_conv)+
  qed (use ew er dc d in \<open>auto simp: execute_request_def split: sum.split prod.split, metis fst_conv\<close>)
  then show ?thesis by (auto simp: handle_request_def split: prod.split sum.split)
qed

lemma direct_io:
  assumes "direct_only t (q_engine q)"
  shows "direct_only t (q_engine (fst (handle_io K h q iod tag completed)))"
  using direct_request[OF assms] by (auto simp: handle_io_def Let_def split: prod.split) (metis fst_conv)+

lemma direct_serve:
  assumes "direct_only t e"
  shows "direct_only t (fst (serve K h s e reqs))"
  unfolding serve_def
proof (rule foldl_pres[where P = "\<lambda>x. direct_only t (fst x)"])
  fix x :: "proxy_engine \<times> queue_state list" and req :: "nat \<times> io_descriptor \<times> nat \<times> (i32 \<Rightarrow> bool)"
  assume "direct_only t (fst x)"
  then have "direct_only t (q_engine ((snd x ! qid)\<lparr>q_engine := fst x\<rparr>))" for qid by simp
  from direct_io[OF this] show "direct_only t (fst (serve_step K h x req))"
    by (auto simp: serve_step_def split: prod.split) (metis fst_conv)
qed (simp add: assms)

lemma direct_new:
  assumes "engine_new ex dir opened gb maxe bc = Ok e"
  shows "direct_only (dedup_new maxe bc) e"
proof -
  have "pstats e = proxy_stats_new"
    using assms by (auto simp: engine_new_def Let_def split: sum.splits)
  with engine_new_fields[OF assms] show ?thesis by (simp add: direct_only_def proxy_stats_new_def)
qed

lemma real_run_direct:
  assumes "run_real_proxy K h host rc = (res, cmds, Some e)"
  shows "direct_only (dedup_new (rc_max_entries rc) (rc_bloom_capacity rc)) e"
  using assms direct_new direct_serve
  by (auto simp: run_real_proxy_def Let_def split: sum.splits if_splits)

section \<open>Requests keep the device invariant\<close>

definition request_of :: "ublk_codes \<Rightarrow> io_descriptor \<Rightarrow> block_request" where
  "request_of K iod =
     block_request_new (from_raw K (op_flags iod AND 0xff)) (start_sector iod) (nr_sectors iod)"

lemma dev_request:
  assumes inv: "dev_inv V e" and off: "set (req_offsets r) \<subseteq> V"
  shows "dev_inv V (fst (handle_request h e r buf))"
proof -
  have w: "dev_inv V (fst (execute_write h e r b))" for b
  proof (cases "aligned r \<and> unat (req_bytes r) \<le> length b")
    case True
    then have "fst ` set (req_chunks r b) \<subseteq> V"
      using req_chunks(1)[of r b] off by (metis list.set_map)
    from dev.write_loop_prefix[OF inv this, of h] True show ?thesis
      by (auto simp: execute_write_def validate_iff req_chunks_def split: prod.split sum.split)
  qed (auto simp: execute_write_def validate_iff inv)
  have rd: "dev_inv V (fst (execute_read e r b))" for b
  proof (cases "aligned r \<and> unat (req_bytes r) \<le> length b")
    case True
    obtain e1 res cs where l: "read_loop handle_read (- EIO) e (with_offsets r (chunks PAGE_SIZE (take (unat (req_bytes r)) b)))
        = (e1, res, cs)" by (metis prod.exhaust)
    from dev.read_loop_same[OF inv, of "- EIO" "with_offsets r (chunks PAGE_SIZE (take (unat (req_bytes r)) b))"] l
    have "dev_inv V e1" by simp
    with l True show ?thesis by (simp add: execute_read_def validate_iff Let_def split: sum.split)
  qed (auto simp: execute_read_def validate_iff inv)
  have z: "dev_inv V (fst (write_loop (handle_write h) e (map (\<lambda>i. (page_offset r i, replicate PAGE_SIZE 0)) (page_indices r))))"
    using dev.write_loop_prefix[OF inv, of "map (\<lambda>i. (page_offset r i, replicate PAGE_SIZE 0)) (page_indices r)" h] off
    by (auto simp: req_offsets_def image_image)
  have "dev_inv V (fst (execute_request h e r buf))"
  proof (cases "req_op r")
    case UblkRead
    with rd show ?thesis by (simp add: execute_request_def)
  next
    case UblkWrite
    with w show ?thesis by (auto simp: execute_request_def split: prod.split) (metis fst_conv)
  next
    case UblkDiscard
    with dev.discard_loop_blank[OF inv] show ?thesis
      by (auto simp: execute_request_def validate_iff inv)
  next
    case UblkWriteZeroes
    with z show ?thesis
      by (auto simp: execute_request_def validate_iff inv split: prod.split sum.split)
  qed (simp_all add: execute_request_def inv)
  then show ?thesis by (auto simp: handle_request_def split: prod.split sum.split)
qed

lemma dev_serve:
  assumes "dev_inv V e" "\<forall>(qid, iod, tag, completed) \<in> set reqs. set (req_offsets (request_of K iod)) \<subseteq> V"
  shows "dev_inv V (fst (serve K h s e reqs))"
  unfolding serve_def
proof (rule foldl_pres[where P = "\<lambda>x. dev_inv V (fst x)"])
  fix x :: "proxy_engine \<times> queue_state list" and req :: "nat \<times> io_descriptor \<times> nat \<times> (i32 \<Rightarrow> bool)"
  assume req: "req \<in> set reqs" and x: "dev_inv V (fst x)"
  obtain qid iod tag completed where r: "req = (qid, iod, tag, completed)" by (cases req)
  obtain e1 qs where p: "x = (e1, qs)" by (cases x)
  have "dev_inv V (fst (handle_request h e1 (request_of K iod) (q_bufs (qs ! qid) ! tag)))"
    using assms(2) req r x p by (intro dev_request) auto
  then show "dev_inv V (fst (serve_step K h x req))"
    by (auto simp: r p serve_step_def handle_io_def request_of_def Let_def split: prod.split)
qed (simp add: assms(1))

lemma real_run_dev:
  assumes run: "run_real_proxy K h host rc = (res, cmds, Some e)"
    and req: "\<forall>(qid, iod, tag, completed) \<in> set (h_requests host). set (req_offsets (request_of K iod)) \<subseteq> V"
    and V: "finite V" "Suc (card V) < 2 ^ 32"
  shows "dev_inv V e"
proof -
  have new: "dev_inv V e0" if n: "engine_new (h_store_exists host) (h_dir_ok host) (h_opened host) (rc_size_gb rc)
      (rc_max_entries rc) (rc_bloom_capacity rc) = Ok e0" for e0
  proof -
    have "e0\<lparr>passthrough := True\<rparr> = e0" using engine_new_fields(2)[OF n] by simp
    with fresh_dev_inv(1)[OF n V, of True] show ?thesis by simp
  qed
  show ?thesis
    using run new dev_serve[OF new req]
    by (auto simp: run_real_proxy_def Let_def split: sum.splits if_splits)
qed

section \<open>Free slots\<close>

text \<open>Every slot in use is the slot of some mapping, so few mappings leave a free slot.\<close>

lemma free_slot_exists:
  assumes inv: "eng_inv e" and few: "length (translation e) < unat (total_slots (pstore e))"
  shows "sa_avail (slot_alloc e) \<noteq> {}"
proof
  assume none: "sa_avail (slot_alloc e) = {}"
  have b: "eng_books (live e) e" using inv by (simp add: eng_inv_def)
  note D = eng_booksD[OF b]
  have "{..<total_slots (pstore e)} \<subseteq> backend_slot ` set_mset (live e)"
  proof
    fix s assume "s \<in> {..<total_slots (pstore e)}"
    with books_complete[OF D(6), of s] none D(4) have "0 < users (live e) s" by simp
    then show "s \<in> backend_slot ` set_mset (live e)" using users_zero[of "live e" s] by auto
  qed
  then have "card {..<total_slots (pstore e)} \<le> card (backend_slot ` set_mset (live e))"
    by (intro card_mono) simp_all
  also have "\<dots> \<le> card (set_mset (live e))" by (rule card_image_le) simp
  also have "\<dots> \<le> size (live e)" by (rule card_set_mset_le)
  finally show False using few by (simp add: card_lessThan_word live_size)
qed

section \<open>The dry run\<close>

definition ready :: "u64 set \<Rightarrow> proxy_engine \<Rightarrow> bool" where
  "ready V e \<longleftrightarrow> dev_inv V e \<and> healthy (pstore e) \<and> card V < unat (total_slots (pstore e))"

lemma ready_slot: "ready V e \<Longrightarrow> sa_avail (slot_alloc e) \<noteq> {}"
proof -
  assume r: "ready V e"
  then have i: "eng_inv e" and sub: "fst ` set (translation e) \<subseteq> V" and fin: "finite V"
    by (simp_all add: ready_def dev_inv_def)
  have "eng_books (live e) e" using i by (simp add: eng_inv_def)
  from distinct_card[OF eng_booksD(5)[OF this]] card_mono[OF fin sub] r
  show ?thesis by (intro free_slot_exists[OF i]) (simp add: ready_def)
qed

lemma dev_write_config:
  assumes "dev_inv V e"
  shows "config_of (fst (handle_write h e off data)) = config_of e"
proof -
  have i: "eng_inv e" and o: "passthrough e \<or> \<not> orphaned e (fingerprint_page h (padded data))"
    using assms by (auto simp: dev_inv_def)
  show ?thesis using handle_write_inv(1)[OF i dev_inv_length(1)[OF assms] o, of off] by (simp add: write_effect_def)
qed

lemma ready_write:
  assumes r: "ready V e" and off: "off \<in> V"
  obtains e' where "handle_write h e off d = (e', Ok ())" "ready V e'" "config_of e' = config_of e"
    "disk e' = (disk e)(off := padded d)"
proof -
  have D: "dev_inv V e" "eng_inv e" "healthy (pstore e)" using r by (simp_all add: ready_def dev_inv_def)
  obtain e' where w: "handle_write h e off d = (e', Ok ())"
    using handle_write_live[OF D(2) ready_slot[OF r] D(3), of h off d]
    by (cases "handle_write h e off d") simp
  have c: "config_of e' = config_of e" using dev_write_config[OF D(1), of h off d] w by simp
  have "ready V e'"
    using dev_write(1)[OF D(1) off, of h d] handle_write_healthy[OF D(3), of h off d] r w c
    by (simp add: ready_def config_of_def)
  with w c dev_write(2)[OF D(1) off, of h d] show thesis by (intro that) simp_all
qed

lemma write_pages_live:
  assumes "ready V e" "fst ` set xs \<subseteq> V" "distinct (map fst xs)"
  shows "\<exists>e'. write_pages h e xs = (e', Ok ()) \<and> ready V e' \<and> config_of e' = config_of e
    \<and> disk e' = (\<lambda>off. case map_of xs off of None \<Rightarrow> disk e off | Some d \<Rightarrow> padded d)"
  using assms
proof (induction xs arbitrary: e)
  case (Cons x xs)
  obtain off d where x: "x = (off, d)" by (cases x)
  with Cons.prems have off: "off \<in> V" "fst ` set xs \<subseteq> V" "distinct (map fst xs)" "off \<notin> fst ` set xs" by auto
  obtain e1 where w: "handle_write h e off d = (e1, Ok ())" "ready V e1" "config_of e1 = config_of e"
    "disk e1 = (disk e)(off := padded d)" by (rule ready_write[OF Cons.prems(1) off(1)])
  have "map_of xs off = None" using off(4) by (simp add: map_of_eq_None_iff)
  with Cons.IH[OF w(2) off(2,3)] w x show ?case by (auto simp: fun_eq_iff split: option.split)
qed simp

lemma write_pages_direct:
  "direct_only t e \<Longrightarrow> write_pages h e xs = (e', r) \<Longrightarrow> direct_only t e'"
proof (induction xs arbitrary: e)
  case (Cons x xs)
  obtain off d where x: "x = (off, d)" by (cases x)
  obtain e1 r1 where w: "handle_write h e off d = (e1, r1)" by fastforce
  have "direct_only t e1" using direct_write[OF Cons.prems(1), of h off d] w by simp
  with Cons.IH[OF this] Cons.prems(2) w x show ?case by (auto split: sum.splits)
qed simp

lemma handle_read_healthy: "healthy (pstore e) \<Longrightarrow> healthy (pstore (fst (handle_read e off)))"
  using healthy_read by (auto simp: handle_read_def Let_def split: option.split prod.split) (metis fst_conv)

lemma read_pages_live:
  assumes "dev_inv V e" "healthy (pstore e)"
  shows "\<exists>e'. read_pages e offs = (e', Ok ()) \<and> dev_inv V e' \<and> disk e' = disk e \<and> healthy (pstore e')"
  using assms
proof (induction offs arbitrary: e)
  case (Cons off offs)
  have i: "eng_inv e" using Cons.prems(1) by (simp add: dev_inv_def)
  obtain e1 where rd: "handle_read e off = (e1, Ok (disk e off))"
    using handle_read_live[OF i Cons.prems(2), of off] by (cases "handle_read e off") simp
  have "dev_inv V e1" "disk e1 = disk e" "healthy (pstore e1)"
    using dev_read[OF Cons.prems(1), of off] dev.rd_inv[OF Cons.prems(1), of off]
      handle_read_healthy[OF Cons.prems(2), of off] rd by simp_all
  with Cons.IH[of e1] rd disk_page_length[OF i, of off] show ?case by simp
qed simp

lemma pstore_discard: "pstore (handle_discard e off) = pstore e"
  by (auto simp: handle_discard_def Let_def translation_remove_def release_mapping_def free_slot_def
      split: option.split mapping_kind.split prod.split reference_removal.split)

lemma discard_pages_blank:
  assumes "dev_inv V e"
  shows "disk (discard_pages e offs) = (\<lambda>off. if off \<in> set offs then replicate PAGE_SIZE 0 else disk e off)"
  using dev.discard_loop_blank[OF assms, of offs] by (simp add: discard_pages_def discard_loop_def)

end
