(* ===== verification/Dry_Run.thy ===== *)
theory Dry_Run
  imports Swap_Laws
begin

text \<open>
  The dry run of \<open>crates/swap-proxy/src/main.rs\<close> from a fresh engine to its end: which page
  each of the ten thousand simulated offsets holds when the report is printed.
\<close>

section \<open>The simulated pages and offsets\<close>

lemma unat_sim_offset:
  assumes "i < 10000"
  shows "unat (sim_offset i) = i * PAGE_SIZE"
proof -
  have "i * PAGE_SIZE < 10000 * PAGE_SIZE" using assms PAGE_SIZE_pos by (rule mult_less_mono1)
  also have "\<dots> < 2 ^ LENGTH(64)" by (simp add: PAGE_SIZE_def)
  finally show ?thesis unfolding sim_offset_def unat_of_nat by (rule mod_less)
qed

lemma sim_offset_inj: "inj_on sim_offset {..<10000}"
proof (rule inj_onI)
  fix i j assume "i \<in> {..<10000}" "j \<in> {..<10000}" "sim_offset i = sim_offset j"
  then have "i * PAGE_SIZE = j * PAGE_SIZE" using unat_sim_offset[of i] unat_sim_offset[of j] by (simp only: lessThan_iff)
  then show "i = j" using PAGE_SIZE_pos by (simp only: mult_cancel2) simp
qed

lemma map_of_indexed:
  assumes "inj_on f {..<n}" "i < n" "b \<le> n"
  shows "map_of (map (\<lambda>j. (f j, g j)) [a ..< b]) (f i) = (if a \<le> i \<and> i < b then Some (g i) else None)"
  using assms(3)
proof (induction b)
  case (Suc b)
  have "f i = f b \<longleftrightarrow> i = b" using assms(1,2) Suc.prems by (auto dest: inj_onD)
  moreover have "map_of (map (\<lambda>j. (f j, g j)) [a ..< b]) (f i) = None" if "i = b"
    using Suc that by simp
  ultimately show ?case using Suc by (auto simp: map_add_Some_iff split: option.split)
qed simp

lemma sim_writes_offsets:
  assumes "b \<le> 10000"
  shows "fst ` set (sim_writes a b) \<subseteq> sim_offset ` {..<10000}" "distinct (map fst (sim_writes a b))"
proof -
  show "fst ` set (sim_writes a b) \<subseteq> sim_offset ` {..<10000}"
    using assms by (auto simp: sim_writes_def)
  have "map fst (sim_writes a b) = map sim_offset [a ..< b]" by (simp add: sim_writes_def)
  moreover have "inj_on sim_offset (set [a ..< b])"
    by (rule inj_on_subset[OF sim_offset_inj]) (use assms in auto)
  ultimately show "distinct (map fst (sim_writes a b))" by (simp add: distinct_map)
qed

lemma map_of_sim_writes:
  "i < 10000 \<Longrightarrow> b \<le> 10000 \<Longrightarrow> map_of (sim_writes a b) (sim_offset i)
    = (if a \<le> i \<and> i < b then Some (unique_page (i * 37 mod num_unique)) else None)"
  unfolding sim_writes_def by (rule map_of_indexed[OF sim_offset_inj])

lemma padded_unique: "padded (unique_page i) = unique_page i"
  by (simp add: padded_def unique_page_def)

text \<open>A page repeats after 256 indices: the 600 pages called unique are 256 pages.\<close>

lemma unique_page_mod: "unique_page (i mod 256) = unique_page i"
proof -
  have "(i mod 256 * 7 + j * 13) mod 256 = (i * 7 + j * 13) mod 256" for j
    by (metis mod_add_left_eq mod_mult_left_eq)
  then show ?thesis by (simp add: unique_page_def)
qed

lemma unique_page_range: "unique_page ` UNIV = unique_page ` {..<256}"
proof (intro equalityI subsetI)
  fix p assume "p \<in> unique_page ` UNIV"
  then obtain i where "p = unique_page i" by blast
  then show "p \<in> unique_page ` {..<256}"
    using unique_page_mod[of i, symmetric] by (intro image_eqI[of _ _ "i mod 256"]) simp_all
qed auto

lemma sim_offset_in:
  assumes "i < 10000" "b \<le> 10000"
  shows "sim_offset i \<in> set (map sim_offset [a ..< b]) \<longleftrightarrow> a \<le> i \<and> i < b"
proof -
  have "sim_offset i = sim_offset j \<longleftrightarrow> i = j" if "j < b" for j
    using inj_on_eq_iff[OF sim_offset_inj] assms that by simp
  then show ?thesis by (auto simp: image_iff)
qed

section \<open>Turning passthrough off\<close>

lemma eng_inv_passthrough: "eng_inv (e\<lparr>passthrough := b\<rparr>) = eng_inv e"
  by (simp add: eng_inv_def eng_books_def live_def)

lemma disk_passthrough: "disk (e\<lparr>passthrough := b\<rparr>) = disk e"
  by (simp add: disk_def fun_eq_iff split: option.split)

lemma direct_not_orphaned: "direct_only t e \<Longrightarrow> \<not> orphaned e fp"
  by (auto simp: direct_only_def orphaned_def orphan_def live_def vals_def)

lemma ready_passthrough:
  assumes "ready V e" "direct_only t e" "card V < unat (max_entries (dedup_tab e))"
  shows "ready V (e\<lparr>passthrough := False\<rparr>)"
proof -
  have "\<not> orphaned (e\<lparr>passthrough := False\<rparr>) fp" for fp
    using direct_not_orphaned[OF assms(2), of fp] by (simp add: orphaned_def live_def)
  with assms show ?thesis by (simp add: ready_def dev_inv_def eng_inv_passthrough table_fits_def)
qed

lemma discard_pages_inv: "dev_inv V e \<Longrightarrow> eng_inv (discard_pages e offs)"
  using dev.discard_loop_blank[of V e offs] by (simp add: discard_pages_def discard_loop_def dev_inv_def)

lemma discard_pages_healthy: "healthy (pstore e) \<Longrightarrow> healthy (pstore (discard_pages e offs))"
  unfolding discard_pages_def
  by (rule foldl_pres[where P = "\<lambda>e. healthy (pstore e)"]) (simp_all add: pstore_discard)

section \<open>The whole workload\<close>

definition dry_page :: "nat \<Rightarrow> page" where
  "dry_page i =
     (if 5000 \<le> i \<and> i < 6000 then replicate PAGE_SIZE 0 else unique_page (i * 37 mod num_unique))"

lemma dry_run_end:
  assumes new: "engine_new ex dir opened gb maxe bc = Ok e" and ok: "healthy (pstore e)"
    and size: "10000 < unat (slots_of_gb gb)" and table: "10000 < unat maxe"
  shows "\<exists>e'. dry_run_workload h e = (e', Ok ()) \<and> eng_inv e' \<and> healthy (pstore e')
    \<and> (\<forall>i<10000. disk e' (sim_offset i) = dry_page i)"
proof -
  let ?V = "sim_offset ` {..<10000 :: nat}"
  note F = engine_new_fields[OF new]
  have V: "finite ?V" "card ?V = 10000" using card_image[OF sim_offset_inj] by simp_all
  have pt: "e\<lparr>passthrough := True\<rparr> = e" using F(2) by simp
  have r0: "ready ?V e"
    using fresh_dev_inv(1)[OF new V(1), of True] V(2) F(5) ok size unfolding pt by (simp add: ready_def)
  note off = sim_writes_offsets
  obtain e1 where w1: "write_pages h e (sim_writes 0 5000) = (e1, Ok ())" "ready ?V e1"
    "config_of e1 = config_of e"
    "disk e1 = (\<lambda>off. case map_of (sim_writes 0 5000) off of None \<Rightarrow> disk e off | Some d \<Rightarrow> padded d)"
    using write_pages_live[OF r0 off[of 5000 0], where h = h] by auto
  have d1: "direct_only (dedup_new maxe bc) e1"
    by (rule write_pages_direct[OF direct_new[OF new] w1(1)])
  have big: "card ?V < unat (max_entries (dedup_tab e1))"
    using w1(3) F table V(2) by (simp add: config_of_def dedup_new_def)
  obtain e2 where w2: "write_pages h (e1\<lparr>passthrough := False\<rparr>) (sim_writes 5000 10000) = (e2, Ok ())"
    "ready ?V e2"
    "disk e2 = (\<lambda>off. case map_of (sim_writes 5000 10000) off of None \<Rightarrow> disk e1 off | Some d \<Rightarrow> padded d)"
    using write_pages_live[OF ready_passthrough[OF w1(2) d1 big] off[of 10000 5000], where h = h]
    unfolding disk_passthrough by auto
  obtain e3 where r3: "read_pages e2 (map sim_offset [0 ..< 1000]) = (e3, Ok ())" "dev_inv ?V e3" "disk e3 = disk e2" "healthy (pstore e3)"
    using read_pages_live[of ?V e2] w2(2) by (auto simp: ready_def)
  let ?e4 = "discard_pages e3 (map sim_offset [5000 ..< 6000])"
  have run: "dry_run_workload h e = (?e4, Ok ())"
    using w1(1) w2(1) r3(1) by (simp add: dry_run_workload_def num_total_def)
  have "disk ?e4 (sim_offset i) = dry_page i" if i: "i < 10000" for i
  proof -
    have le: "6000 \<le> (10000 :: nat)" by simp
    have e4: "disk ?e4 (sim_offset i) = (if 5000 \<le> i \<and> i < 6000 then replicate PAGE_SIZE 0 else disk e3 (sim_offset i))"
      unfolding discard_pages_blank[OF r3(2)] by (simp only: sim_offset_in[OF i le])
    note w = map_of_sim_writes[OF i]
    have "disk e3 (sim_offset i) = unique_page (i * 37 mod num_unique)"
    proof (cases "i < 5000")
      case True
      with w[of 10000 5000] w[of 5000 0] show ?thesis unfolding r3(3) w2(3) w1(4) by (simp add: padded_unique)
    next
      case False
      with i w[of 10000 5000] show ?thesis unfolding r3(3) w2(3) by (simp add: padded_unique)
    qed
    with e4 show ?thesis by (simp add: dry_page_def)
  qed
  moreover have "eng_inv ?e4"
    by (rule discard_pages_inv[OF r3(2)])
  moreover have "healthy (pstore ?e4)" by (rule discard_pages_healthy[OF r3(4)])
  ultimately show ?thesis using run by blast
qed

end
