(* ===== verification/Proxy_Properties.thy ===== *)
theory Proxy_Properties
  imports Engine_Run Ublk_Laws
begin

text \<open>
  The properties of the swap proxy: the storage engine as a block device, its accounting
  and its limits, the ublk requests on top of it, and the components below it. Each is a
  short consequence of the component theories; the witnesses instantiate them on the
  engine that \<open>engine_new\<close> creates on an empty file.
\<close>

section \<open>Concrete engines for the witnesses\<close>

definition blank_file :: disk_file where
  "blank_file = \<lparr>content = [], file_pos = 0, io_plan = []\<rparr>"

definition new_engine :: proxy_engine where
  "new_engine =
     \<lparr>dedup_tab = dedup_new 262144 64, pstore = page_store_on blank_file (slots_of_gb 1),
      translation = [], slot_alloc = slot_allocator_new (slots_of_gb 1),
      pstats = proxy_stats_new, passthrough = True\<rparr>"

lemma engine_new_new: "engine_new True True (Some blank_file) 1 262144 64 = Ok new_engine"
  by (simp add: engine_new_def page_store_open_def new_engine_def translation_new_def Let_def)

lemma slots_of_gb_1: "slots_of_gb 1 = 262144"
  by (simp add: slots_of_gb_def PAGE_SIZE_def)

definition dedup_engine :: proxy_engine where
  "dedup_engine = new_engine\<lparr>passthrough := False\<rparr>"

lemma dedup_engine_dev: "dev_inv {0, 4096} dedup_engine"
  using fresh_dev_inv(1)[OF engine_new_new, of "{0, 4096}" False]
  by (simp add: dedup_engine_def slots_of_gb_1 table_fits_def)

lemma dedup_engine_fields:
  "eng_inv dedup_engine" "\<not> passthrough dedup_engine" "translation dedup_engine = []"
  "tracked (dedup_tab dedup_engine) fp = None" "has_room (dedup_tab dedup_engine)"
  "sa_avail (slot_alloc dedup_engine) \<noteq> {}" "healthy (pstore dedup_engine)"
  "disk dedup_engine = (\<lambda>_. replicate PAGE_SIZE 0)" "\<not> orphaned dedup_engine fp"
proof -
  show "eng_inv dedup_engine" "\<not> orphaned dedup_engine fp"
    using dedup_engine_dev by (simp_all add: dev_inv_def dedup_engine_def new_engine_def)
  have "(0 :: u64) \<in> sa_avail (slot_alloc dedup_engine)"
    by (simp add: dedup_engine_def new_engine_def sa_avail_def slot_allocator_new_def slots_of_gb_1)
  then show "sa_avail (slot_alloc dedup_engine) \<noteq> {}" by auto
  show "disk dedup_engine = (\<lambda>_. replicate PAGE_SIZE 0)"
    by (simp add: disk_def dedup_engine_def new_engine_def fun_eq_iff)
qed (simp_all add: dedup_engine_def new_engine_def has_room_def dedup_new_def healthy_def
       page_store_on_def blank_file_def)

text \<open>A store of one slot, in use.\<close>

definition full_engine :: proxy_engine where
  "full_engine =
     \<lparr>dedup_tab = dedup_new 8 64,
      pstore = page_store_on \<lparr>content = replicate PAGE_SIZE 1, file_pos = PAGE_SIZE, io_plan = []\<rparr> 1,
      translation = [(0, entry_direct 0)],
      slot_alloc = \<lparr>free_slots = [], next_slot = 1, max_slots = 1\<rparr>,
      pstats = proxy_stats_new, passthrough = True\<rparr>"

lemma tracked_new [simp]: "tracked (dedup_new m c) = (\<lambda>_. None)"
  by (simp add: tracked_def dedup_new_def fun_eq_iff)

lemma word_less_1: "(s :: u64) < 1 \<longleftrightarrow> s = 0"
  by (simp add: word_less_nat_alt word_unat_eq_iff)

lemma full_engine_inv: "eng_inv full_engine"
  using dt_inv_new[of 8 64]
  by (auto simp: full_engine_def eng_inv_def eng_books_def live_def sa_avail_def sa_inv_def
      page_store_on_def ps_inv_def PAGE_SIZE_def slot_page_def books_def users_def word_less_1)

section \<open>The engine as a block device\<close>

text \<open>
  C1: every run of writes, reads and discards of an engine fresh from \<open>ProxyEngine::new\<close>
  behaves like an ideal page device, in passthrough mode and in deduplicating mode with a
  table as large as the store or larger than the number of pages in use: a read returns the page written last (zeros if none or if
  discarded), and a failed operation changes nothing, whatever I/O errors occur.
\<close>

theorem engine_run_refines:
  assumes "engine_new ex dir opened gb maxe bc = Ok e" "finite V" "Suc (card V) < 2 ^ 32"
    and "b \<or> slots_of_gb gb \<le> maxe \<or> card V < unat maxe" "op_offset ` set ops \<subseteq> V"
  shows "spec_run (\<lambda>_. replicate PAGE_SIZE 0) ops (snd (engine_run h (e\<lparr>passthrough := b\<rparr>) ops)) \<noteq> None"
proof -
  have "b \<or> table_fits V (slots_of_gb gb) maxe" using assms(4) by (simp add: table_fits_def)
  note F = fresh_dev_inv[OF assms(1-3) this]
  obtain e' rs where r: "engine_run h (e\<lparr>passthrough := b\<rparr>) ops = (e', rs)"
    by (cases "engine_run h (e\<lparr>passthrough := b\<rparr>) ops")
  from engine_run_spec[OF F(1) assms(5) r] F(2) r show ?thesis by simp
qed

theorem engine_run_refines_witness:
  "spec_run (\<lambda>_. replicate PAGE_SIZE 0)
     [EWrite 0 [1], EWrite 4096 [1], EDiscard 0, ERead 0, ERead 4096]
     (snd (engine_run (\<lambda>_. 0) (new_engine\<lparr>passthrough := False\<rparr>)
        [EWrite 0 [1], EWrite 4096 [1], EDiscard 0, ERead 0, ERead 4096])) \<noteq> None"
  by (rule engine_run_refines[OF engine_new_new, where V = "{0, 4096}"]) simp_all

text \<open>
  C2: a single write in any state with balanced books, in both modes and with a table that
  may evict, orphans included (pages whose metadata was evicted while a mapping exists): on
  success exactly the page at its offset changes, on failure nothing does. The books stay
  balanced unless the write succeeds in storing an orphan again in deduplicating mode, the
  case of the orphan property below. Fewer than \<open>2 ^ 32 - 1\<close> pages are mapped, so that no
  reference count overflows.
\<close>

theorem handle_write_refines:
  assumes "eng_inv e" "Suc (length (translation e)) < 2 ^ 32" "handle_write h e off data = (e', r)"
  shows "disk e' = (if is_ok r then (disk e)(off := padded data) else disk e)
    \<and> (eng_inv e' \<or> is_ok r \<and> \<not> passthrough e \<and> orphaned e (fingerprint_page h (padded data)))"
proof (cases "passthrough e \<or> \<not> orphaned e (fingerprint_page h (padded data))")
  case True
  from handle_write_inv(1)[OF assms(1,2) this, of off] assms(3) handle_write_disk[OF assms] show ?thesis
    by (simp add: write_effect_def)
next
  case False
  with handle_write_disk[OF assms] show ?thesis by blast
qed

theorem handle_write_refines_witness:
  "\<exists>e' r. handle_write (\<lambda>_. 7) dedup_engine 4096 [1, 2] = (e', r) \<and> eng_inv e'
    \<and> disk e' = (if is_ok r then (disk dedup_engine)(4096 := padded [1, 2]) else disk dedup_engine)"
proof -
  obtain e' r where w: "handle_write (\<lambda>_. 7) dedup_engine 4096 [1, 2] = (e', r)" by fastforce
  from handle_write_refines[OF _ _ w] w show ?thesis by (simp add: dedup_engine_fields)
qed

text \<open>
  C3: a discard zeroes its page, leaves every other page alone, and keeps the books: the
  slot returns to the allocator exactly when no other offset shares it, so no slot is lost
  and none is freed while in use.
\<close>

theorem handle_discard_refines:
  assumes "eng_inv e"
  shows "disk (handle_discard e off) = (disk e)(off := replicate PAGE_SIZE 0)
    \<and> eng_inv (handle_discard e off)
    \<and> (\<forall>x \<in># live (handle_discard e off). backend_slot x \<notin> sa_avail (slot_alloc (handle_discard e off)))
    \<and> (\<forall>s < total_slots (pstore e). s \<in> sa_avail (slot_alloc (handle_discard e off))
         \<or> (\<exists>x \<in># live (handle_discard e off). backend_slot x = s))"
proof -
  note d = handle_discard_inv[OF assms, of off]
  have b: "eng_books (live (handle_discard e off)) (handle_discard e off)"
    using d(1) by (simp add: eng_inv_def)
  note D = eng_booksD[OF b]
  have t: "total_slots (pstore (handle_discard e off)) = total_slots (pstore e)"
    using config_discard[of e off] by (simp add: config_of_def)
  show ?thesis
    using d booksD(2)[OF D(6)] books_complete[OF D(6)] D(4) t
    by (fastforce simp: users_zero neq0_conv[symmetric])
qed

theorem handle_discard_refines_witness:
  "disk (handle_discard full_engine 0) = (disk full_engine)(0 := replicate PAGE_SIZE 0)
    \<and> eng_inv (handle_discard full_engine 0) \<and> 0 \<in> sa_avail (slot_alloc (handle_discard full_engine 0))"
proof -
  have "live (handle_discard full_engine 0) = {#}" "total_slots (pstore full_engine) = 1"
    by (simp_all add: full_engine_def handle_discard_def translation_remove_def release_mapping_def free_slot_def
        live_def Let_def page_store_on_def)
  with handle_discard_refines[OF full_engine_inv, of 0] show ?thesis by (simp add: word_less_1)
qed

text \<open>
  C4: liveness. With balanced books, a free slot and no failing system call, every write
  succeeds, and every read succeeds with the page of its offset.
\<close>

theorem engine_live:
  assumes "eng_inv e" "healthy (pstore e)"
  shows "(sa_avail (slot_alloc e) \<noteq> {} \<longrightarrow> snd (handle_write h e off data) = Ok ())
    \<and> snd (handle_read e off) = Ok (disk e off)"
  using handle_write_live[OF assms(1) _ assms(2)] handle_read_live[OF assms] by blast

theorem engine_live_witness:
  "snd (handle_write (\<lambda>_. 3) dedup_engine 0 [9]) = Ok ()
    \<and> snd (handle_read dedup_engine 0) = Ok (replicate PAGE_SIZE 0)"
  using engine_live[of dedup_engine "\<lambda>_. 3" 0 "[9]"] by (simp add: dedup_engine_fields)

text \<open>
  C5: a device whose every page is mapped to a slot of its own can no longer be written in
  passthrough mode, not even by overwriting a mapped page: the new slot is allocated before
  the old one is released, so the write fails with \<open>page store is full\<close>.
\<close>

theorem overwrite_fails_when_full:
  assumes "eng_inv e" "passthrough e" "length (translation e) = unat (total_slots (pstore e))"
    and "\<forall>x \<in># live e. kind x = Direct"
  shows "snd (handle_write h e off data) = Err StoreFull \<and> disk (fst (handle_write h e off data)) = disk e"
proof -
  have b: "eng_books (live e) e" using assms(1) by (simp add: eng_inv_def)
  note D = eng_booksD[OF b]
  have A: "sa_avail (slot_alloc e) \<subseteq> {..<max_slots (slot_alloc e)}"
    using slots.finite_avail[OF D(2)] by simp
  have "\<forall>x \<in># live e. exclusive (tracked (dedup_tab e)) x" using assms(4) by (simp add: exclusive_def)
  from books_card[OF D(6) this A] have "card (sa_avail (slot_alloc e)) = 0"
    using assms(3) D(4) by (simp add: live_size)
  then have "sa_avail (slot_alloc e) = {}" by (simp add: sa_avail_not_full)
  with write_needs_slot[OF assms(1)] assms(2) show ?thesis by blast
qed

theorem overwrite_fails_when_full_witness:
  "map_of (translation full_engine) 0 \<noteq> None
    \<and> snd (handle_write (\<lambda>_. 0) full_engine 0 [5]) = Err StoreFull
    \<and> disk (fst (handle_write (\<lambda>_. 0) full_engine 0 [5])) = disk full_engine"
  using overwrite_fails_when_full[OF full_engine_inv, of "\<lambda>_. 0" 0 "[5]"]
  by (simp add: full_engine_def live_def page_store_on_def)

text \<open>
  C6: the defect of metadata eviction. If the page of \<open>off1\<close> is an orphan (its metadata
  was evicted) and the same page is written to \<open>off2\<close>, then discarding \<open>off1\<close> puts the
  slot that \<open>off2\<close> still maps to on the free list: the next allocation overwrites live data.
\<close>

theorem orphan_reinsert_frees_live_slot:
  assumes "eng_inv e" "\<not> passthrough e" "has_room (dedup_tab e)" "off1 \<noteq> off2"
    and "map_of (translation e) off1 = Some (entry_deduplicated (fingerprint_page h (padded data)) s1)"
    and "tracked (dedup_tab e) (fingerprint_page h (padded data)) = None"
    and "map_of (translation e) off2 = None" "handle_write h e off2 data = (e1, Ok u)"
  shows "\<exists>ent. map_of (translation (handle_discard e1 off1)) off2 = Some ent
    \<and> backend_slot ent \<in> set (free_slots (slot_alloc (handle_discard e1 off1)))"
proof -
  obtain s where s: "translation e1 = AList.update off2
        (entry_deduplicated (fingerprint_page h (padded data)) s) (translation e)"
    "tracked (dedup_tab e1) (fingerprint_page h (padded data)) = Some (1, s)"
    "s < max_slots (slot_alloc e1)"
    using write_untracked[OF assms(1-3) refl assms(6,7,8)] by blast
  have "map_of (translation e1) off1 = Some (entry_deduplicated (fingerprint_page h (padded data)) s1)"
    using s(1) assms(4,5) by simp
  from discard_last_reference[OF this _ s(2,3)] s(1) assms(4) show ?thesis by simp
qed

definition orphan_engine :: proxy_engine where
  "orphan_engine =
     \<lparr>dedup_tab = dedup_new 8 64,
      pstore = page_store_on \<lparr>content = replicate PAGE_SIZE 1, file_pos = PAGE_SIZE, io_plan = []\<rparr> 2,
      translation = [(0, entry_deduplicated (fingerprint_page (\<lambda>_. 0) (padded [1])) 0)],
      slot_alloc = \<lparr>free_slots = [], next_slot = 1, max_slots = 2\<rparr>,
      pstats = proxy_stats_new, passthrough = False\<rparr>"

lemma word_less_2: "(s :: u64) < 2 \<longleftrightarrow> s = 0 \<or> s = 1"
  by (auto simp: word_less_nat_alt word_unat_eq_iff)

lemma orphan_engine_inv: "eng_inv orphan_engine"
  using dt_inv_new[of 8 64]
  by (auto simp: orphan_engine_def eng_inv_def eng_books_def live_def sa_avail_def sa_inv_def
      page_store_on_def ps_inv_def PAGE_SIZE_def slot_page_def books_def users_def word_less_2
      exclusive_def)

lemma orphan_engine_write:
  obtains e1 where "handle_write (\<lambda>_. 0) orphan_engine 4096 [1] = (e1, Ok ())"
proof -
  have "(1 :: u64) \<in> sa_avail (slot_alloc orphan_engine)"
    by (simp add: orphan_engine_def sa_avail_def)
  then have "snd (handle_write (\<lambda>_. 0) orphan_engine 4096 [1]) = Ok ()"
    by (intro handle_write_live[OF orphan_engine_inv])
       (auto simp: healthy_def orphan_engine_def page_store_on_def)
  then show thesis by (intro that[of "fst (handle_write (\<lambda>_. 0) orphan_engine 4096 [1])"]) (simp add: prod_eq_iff)
qed

theorem orphan_reinsert_frees_live_slot_witness:
  "\<exists>e1. handle_write (\<lambda>_. 0) orphan_engine 4096 [1] = (e1, Ok ())
    \<and> (\<exists>ent. map_of (translation (handle_discard e1 0)) 4096 = Some ent
         \<and> backend_slot ent \<in> set (free_slots (slot_alloc (handle_discard e1 0))))"
proof -
  obtain e1 where e1: "handle_write (\<lambda>_. 0) orphan_engine 4096 [1] = (e1, Ok ())"
    by (rule orphan_engine_write)
  have "\<exists>ent. map_of (translation (handle_discard e1 0)) 4096 = Some ent
      \<and> backend_slot ent \<in> set (free_slots (slot_alloc (handle_discard e1 0)))"
    by (rule orphan_reinsert_frees_live_slot[OF orphan_engine_inv _ _ _ _ _ _ e1, where ?s1.0 = 0])
       (simp_all add: orphan_engine_def has_room_def dedup_new_def)
  with e1 show ?thesis by blast
qed

section \<open>Requests of the ublk frontend\<close>

text \<open>
  C7: a write request followed by a read request of the same range returns the written
  bytes: over any number of pages, on any engine that satisfies the device invariant, in
  both modes; bytes of the read buffer beyond the request are left alone.
\<close>

theorem ublk_write_then_read:
  assumes "dev_inv V e" "set (req_offsets r) \<subseteq> V"
    and "execute_request h e (r\<lparr>req_op := UblkWrite\<rparr>) buf = (e1, buf1, Ok n)"
    and "execute_request h e1 (r\<lparr>req_op := UblkRead\<rparr>) buf2 = (e2, buf3, Ok m)"
  shows "buf3 = take (unat (req_bytes r)) buf @ drop (unat (req_bytes r)) buf2"
proof -
  let ?w = "r\<lparr>req_op := UblkWrite\<rparr>" and ?r = "r\<lparr>req_op := UblkRead\<rparr>"
  have w: "execute_write h e ?w buf = (e1, Ok n)"
    using assms(3) by (auto simp: execute_request_def split: prod.splits)
  have rd: "execute_read e1 ?w buf2 = (e2, buf3, Ok m)"
    using assms(4) execute_read_op[of e1 UblkRead r buf2 UblkWrite] by (simp add: execute_request_def)
  have "set (req_offsets ?w) \<subseteq> V" using assms(2) by (simp add: req_offsets_op)
  from write_read_request[OF assms(1) this w rd] show ?thesis by simp
qed

definition page_request :: block_request where
  "page_request = \<lparr>req_op = UblkWrite, req_offset = 0, req_bytes = 4096\<rparr>"

lemma page_request_facts:
  "aligned page_request" "unat (req_bytes page_request) = PAGE_SIZE"
  "length buf = PAGE_SIZE \<Longrightarrow> req_chunks page_request buf = [(0, buf)]"
  "set (req_offsets page_request) \<subseteq> {0, 4096}"
proof -
  show "aligned page_request" "unat (req_bytes page_request) = PAGE_SIZE"
    by (simp_all add: page_request_def aligned_def PAGE_SIZE_def)
  show "set (req_offsets page_request) \<subseteq> {0, 4096}"
    by (simp add: req_offsets_def page_indices_def page_request_def page_offset_def PAGE_SIZE_def)
  assume "length buf = PAGE_SIZE"
  moreover from this have "buf \<noteq> []" by (auto simp: PAGE_SIZE_def)
  ultimately show "req_chunks page_request buf = [(0, buf)]"
    using chunks_step[OF PAGE_SIZE_pos, of buf]
    by (simp add: req_chunks_def with_offsets_def page_request_def page_offset_def PAGE_SIZE_def)
qed

lemma page_request_write:
  obtains e1 where "execute_write (\<lambda>_. 0) dedup_engine page_request (replicate PAGE_SIZE 5) = (e1, Ok 4096)"
    "dev_inv {0, 4096} e1" "healthy (pstore e1)"
proof -
  let ?b = "replicate PAGE_SIZE (5 :: u8)"
  note D = dedup_engine_fields
  obtain e1 where w: "handle_write (\<lambda>_. 0) dedup_engine 0 ?b = (e1, Ok ())"
    using handle_write_live[OF D(1,6,7), of "\<lambda>_. 0" 0 ?b]
    by (cases "handle_write (\<lambda>_. 0) dedup_engine 0 ?b") simp
  have "dev_inv {0, 4096} e1" using dev_write(1)[OF dedup_engine_dev, of 0 "\<lambda>_. 0" ?b] w by simp
  moreover have "healthy (pstore e1)" using handle_write_healthy[OF D(7), of "\<lambda>_. 0" 0 ?b] w by simp
  moreover have "execute_write (\<lambda>_. 0) dedup_engine page_request ?b = (e1, Ok 4096)"
    using w page_request_facts(3)[of ?b]
    by (simp add: execute_write_def validate_iff page_request_facts req_chunks_def)
       (simp add: page_request_def)
  ultimately show thesis by (intro that) auto
qed

lemma page_request_read:
  assumes "dev_inv {0, 4096} e" "healthy (pstore e)"
  obtains e2 b2 where "execute_read e page_request (replicate PAGE_SIZE 0) = (e2, b2, Ok 4096)"
proof -
  let ?b = "replicate PAGE_SIZE (0 :: u8)"
  have i: "eng_inv e" using assms(1) by (simp add: dev_inv_def)
  obtain e2 where r: "handle_read e 0 = (e2, Ok (disk e 0))"
    using handle_read_live[OF i assms(2), of 0] by (cases "handle_read e 0") simp
  have "length (disk e 0) = PAGE_SIZE" by (rule disk_page_length[OF i])
  then show thesis
    using r page_request_facts(3)[of ?b]
    by (intro that[of e2 "disk e 0"])
       (simp add: execute_read_def validate_iff page_request_facts req_chunks_def, simp add: page_request_def)
qed

theorem ublk_write_then_read_witness:
  "\<exists>e1 e2. execute_request (\<lambda>_. 0) dedup_engine (page_request\<lparr>req_op := UblkWrite\<rparr>) (replicate PAGE_SIZE 5)
        = (e1, replicate PAGE_SIZE 5, Ok 4096)
    \<and> execute_request (\<lambda>_. 0) e1 (page_request\<lparr>req_op := UblkRead\<rparr>) (replicate PAGE_SIZE 0)
        = (e2, replicate PAGE_SIZE 5, Ok 4096)"
proof -
  obtain e1 where w: "execute_write (\<lambda>_. 0) dedup_engine page_request (replicate PAGE_SIZE 5) = (e1, Ok 4096)"
    "dev_inv {0, 4096} e1" "healthy (pstore e1)" by (rule page_request_write)
  obtain e2 b2 where r: "execute_read e1 page_request (replicate PAGE_SIZE 0) = (e2, b2, Ok 4096)"
    by (rule page_request_read[OF w(2,3)])
  have W: "execute_request (\<lambda>_. 0) dedup_engine (page_request\<lparr>req_op := UblkWrite\<rparr>) (replicate PAGE_SIZE 5)
      = (e1, replicate PAGE_SIZE 5, Ok 4096)"
    using w(1) by (simp add: execute_request_def page_request_def)
  have R: "execute_request (\<lambda>_. 0) e1 (page_request\<lparr>req_op := UblkRead\<rparr>) (replicate PAGE_SIZE 0) = (e2, b2, Ok 4096)"
    using r execute_read_op[of e1 UblkRead page_request "replicate PAGE_SIZE 0" UblkWrite]
    by (simp add: execute_request_def page_request_def)
  have "b2 = replicate PAGE_SIZE 5"
    using ublk_write_then_read[OF dedup_engine_dev page_request_facts(4) W R]
    by (simp add: page_request_facts)
  with W R show ?thesis by blast
qed

text \<open>
  C8: a write request that fails has stored a prefix of its pages, in order, and nothing
  else: every page holds either the old or the new contents in full.
\<close>

theorem ublk_write_prefix:
  assumes "dev_inv V e" "set (req_offsets r) \<subseteq> V" "aligned r" "unat (req_bytes r) \<le> length buf"
  shows "\<exists>n \<le> length (req_chunks r buf). \<forall>off.
    disk (fst (execute_write h e r buf)) off =
      (case map_of (take n (req_chunks r buf)) off of None \<Rightarrow> disk e off | Some d \<Rightarrow> padded d)
    \<and> (is_ok (snd (execute_write h e r buf)) \<longleftrightarrow> n = length (req_chunks r buf))"
proof -
  let ?xs = "req_chunks r buf"
  note C = req_chunks[OF assms(3,4)]
  have off: "fst ` set ?xs \<subseteq> V" "distinct (map fst ?xs)"
    using assms(2) distinct_req_offsets[of r] C(1) by (simp_all flip: list.set_map)
  have eq: "execute_write h e r buf =
      (case write_loop (handle_write h) e ?xs of (e', Inl err) \<Rightarrow> (e', Err (- EIO)) | (e', Inr _) \<Rightarrow> (e', Ok (req_bytes r)))"
    using assms(3,4) by (simp add: execute_write_def validate_iff req_chunks_def)
  from dev.write_loop_prefix[OF assms(1) off(1), of h] obtain n where n: "n \<le> length ?xs"
    "disk (fst (write_loop (handle_write h) e ?xs)) = dev.store_pages (take n ?xs) (disk e)"
    "snd (write_loop (handle_write h) e ?xs) = Ok () \<longleftrightarrow> n = length ?xs" by blast
  have d: "distinct (map fst (take n ?xs))" using off(2) by (simp add: take_map[symmetric])
  have "fst (execute_write h e r buf) = fst (write_loop (handle_write h) e ?xs)"
    "is_ok (snd (execute_write h e r buf)) \<longleftrightarrow> snd (write_loop (handle_write h) e ?xs) = Ok ()"
    unfolding eq by (auto split: prod.split sum.split)
  with n dev.store_pages_distinct[OF d] show ?thesis by (intro exI[of _ n]) simp
qed

theorem ublk_write_prefix_witness:
  "\<exists>n \<le> length (req_chunks page_request (replicate PAGE_SIZE 5)). \<forall>off.
    disk (fst (execute_write (\<lambda>_. 0) dedup_engine page_request (replicate PAGE_SIZE 5))) off =
      (case map_of (take n (req_chunks page_request (replicate PAGE_SIZE 5))) off of
         None \<Rightarrow> disk dedup_engine off | Some d \<Rightarrow> padded d)
    \<and> (is_ok (snd (execute_write (\<lambda>_. 0) dedup_engine page_request (replicate PAGE_SIZE 5)))
        \<longleftrightarrow> n = length (req_chunks page_request (replicate PAGE_SIZE 5)))"
  by (rule ublk_write_prefix[OF dedup_engine_dev page_request_facts(4,1)])
     (simp add: page_request_facts)

text \<open>
  Beyond the properties: a request that is not aligned to pages, or whose buffer is too small, is refused with
  \<open>EINVAL\<close>, and an unknown operation with \<open>EOPNOTSUPP\<close>; the engine and the buffer are
  untouched, statistics included.
\<close>

theorem ublk_refused:
  assumes "\<not> aligned r \<and> req_op r \<in> {UblkRead, UblkWrite, UblkDiscard, UblkWriteZeroes}
    \<or> length buf < unat (req_bytes r) \<and> req_op r \<in> {UblkRead, UblkWrite}
    \<or> req_op r = UblkUnsupported code"
  shows "handle_request h e r buf =
    (e, buf, if req_op r = UblkUnsupported code then - EOPNOTSUPP else - EINVAL)"
  using assms refused_unchanged[of r h e buf] short_buffer_unchanged[of buf r h e]
  by (auto simp: handle_request_def execute_request_def)

theorem ublk_refused_witness:
  "handle_request (\<lambda>_. 0) dedup_engine (block_request_new UblkRead 1 1) [0] = (dedup_engine, [0], - 22)"
  using ublk_refused[of "block_request_new UblkRead 1 1" "[0]" 0 "\<lambda>_. 0" dedup_engine]
  by (simp add: block_request_new_def aligned_def PAGE_SIZE_def EINVAL_def)

text \<open>
  C9: decoding a descriptor is exact below \<open>2 ^ 23\<close> sectors: the byte count is 512 times
  the sector count. From \<open>2 ^ 23\<close> sectors on the 32-bit shift drops high bits: a
  request of 4 GiB becomes an empty one that succeeds without doing anything.
\<close>

theorem ublk_request_size:
  "(unat ns < 2 ^ 23 \<longrightarrow> unat (req_bytes (block_request_new op s ns)) = unat ns * 512)
    \<and> execute_request h e (block_request_new UblkDiscard 0 (2 ^ 23)) buf = (e, buf, Ok 0)"
proof -
  have "req_bytes (block_request_new UblkDiscard 0 (2 ^ 23)) = 0"
    "req_offset (block_request_new UblkDiscard 0 (2 ^ 23)) = 0"
    "req_op (block_request_new UblkDiscard 0 (2 ^ 23)) = UblkDiscard"
    by (simp_all add: block_request_new_def push_bit_eq_mult)
  then have "execute_request h e (block_request_new UblkDiscard 0 (2 ^ 23)) buf = (e, buf, Ok 0)"
    by (simp add: execute_request_def validate_iff aligned_def discard_loop_def page_indices_def)
  then show ?thesis using req_bytes_exact by blast
qed

theorem ublk_request_size_witness:
  "unat (req_bytes (block_request_new UblkRead 8 16)) = 8192
    \<and> execute_request (\<lambda>_. 0) dedup_engine (block_request_new UblkDiscard 0 (2 ^ 23)) [] = (dedup_engine, [], Ok 0)"
  using ublk_request_size[of 16 UblkRead 8 "\<lambda>_. 0" dedup_engine "[]"] by simp

section \<open>The components below the engine\<close>

text \<open>One call of the deduplication table; lookups and removals may change it too.\<close>

datatype dedup_op =
    DLookup fingerprint "u8 list" | DInsert fingerprint "u8 list" u64 | DAdd fingerprint | DRemove fingerprint

fun dedup_step :: "dedup_table \<Rightarrow> dedup_op \<Rightarrow> dedup_table" where
  "dedup_step t (DLookup fp d) = fst (dedup_lookup t fp d)"
| "dedup_step t (DInsert fp d s) = fst (dedup_insert t fp d s)"
| "dedup_step t (DAdd fp) = fst (dedup_add_reference t fp)"
| "dedup_step t (DRemove fp) = fst (dedup_remove_reference t fp)"

lemma dedup_steps_inv: "dt_inv t \<Longrightarrow> dt_inv (foldl dedup_step t ops)"
proof (rule foldl_pres[where P = dt_inv])
  fix t op assume "dt_inv t"
  then show "dt_inv (dedup_step t op)"
    by (cases op) (simp_all add: dt_inv_lookup dt_inv_insert dt_inv_add_reference dt_inv_remove_reference)
qed

lemma dedup_steps_max: "max_entries (foldl dedup_step t ops) = max_entries t"
proof (induction ops arbitrary: t)
  case (Cons op ops)
  then show ?case by (cases op) simp_all
qed simp

text \<open>
  C10: after any sequence of calls on a new deduplication table the number of entries stays
  within the configured maximum, the LRU list holds exactly the tracked fingerprints, and no
  tracked page is missed: a lookup of a page that agrees with the stored prefix finds its
  slot, so the Bloom filter has no false negatives.
\<close>

theorem dedup_table_sound:
  assumes "t = foldl dedup_step (dedup_new m c) ops"
  shows "length (dt_map t) \<le> unat m \<and> distinct (map fst (lru t)) \<and> fst ` set (lru t) = fst ` set (dt_map t)
    \<and> (\<forall>fp e d. map_of (dt_map t) fp = Some e \<and> verify_page_prefix (entry_prefix e) d \<longrightarrow>
          snd (dedup_lookup t fp d) = Duplicate (backend_offset e))"
proof -
  have inv: "dt_inv t" unfolding assms by (rule dedup_steps_inv[OF dt_inv_new])
  have "max_entries t = m" unfolding assms dedup_steps_max by (simp add: dedup_new_def)
  moreover have "snd (dedup_lookup t fp d) = Duplicate (backend_offset e)"
    if "map_of (dt_map t) fp = Some e" "verify_page_prefix (entry_prefix e) d" for fp e d
  proof -
    have "might_contain (dt_bloom t) fp" using inv that(1) by (simp add: dt_inv_def)
    with that show ?thesis by (simp add: dedup_lookup_def)
  qed
  ultimately show ?thesis
    using inv by (simp add: dt_inv_def set_eq_iff map_of_eq_None_iff)
qed

theorem dedup_table_sound_witness:
  "snd (dedup_lookup (foldl dedup_step (dedup_new 2 0) [DInsert [1] [7] 5, DAdd [1]]) [1] [7]) = Duplicate 5"
proof -
  let ?t = "foldl dedup_step (dedup_new 2 0) [DInsert [1] [7] 5, DAdd [1]]"
  have "\<exists>e. map_of (dt_map ?t) [1] = Some e \<and> backend_offset e = 5 \<and> verify_page_prefix (entry_prefix e) [7]"
    by (simp add: dedup_insert_def dedup_track_def dedup_new_def dedup_add_reference_def)
  then obtain e where e: "map_of (dt_map ?t) [1] = Some e" "backend_offset e = 5" "verify_page_prefix (entry_prefix e) [7]"
    by blast
  from dedup_table_sound[OF refl, of 2 0 "[DInsert [1] [7] 5, DAdd [1]]"]
  have "map_of (dt_map ?t) [1] = Some e \<and> verify_page_prefix (entry_prefix e) [7] \<longrightarrow>
      snd (dedup_lookup ?t [1] [7]) = Duplicate (backend_offset e)"
    by (elim conjE allE)
  with e show ?thesis by simp
qed

text \<open>
  Beyond the properties: a fingerprint inserted once and referenced \<open>n\<close> more times gives its slot back at
  the removal number \<open>n + 1\<close> and not before; further removals release nothing.
\<close>

theorem references_released_once:
  assumes "dedup_insert t fp d s = (t0, True)" "n + 1 < 2 ^ 32"
  shows "snd (iter_op (\<lambda>t. dedup_remove_reference t fp) (Suc n)
        (fst (iter_op (\<lambda>t. dedup_add_reference t fp) n t0))) = replicate n StillReferenced @ [Removed s]"
  using rt.references_balance[OF assms(1)] assms(2) by simp

theorem references_released_once_witness:
  "snd (iter_op (\<lambda>t. dedup_remove_reference t [1]) 3
     (fst (iter_op (\<lambda>t. dedup_add_reference t [1]) 2 (fst (dedup_insert (dedup_new 2 0) [1] [7] 5)))))
   = [StillReferenced, StillReferenced, Removed 5]"
proof -
  have "dedup_insert (dedup_new 2 0) [1] [7] 5 = (fst (dedup_insert (dedup_new 2 0) [1] [7] 5), True)"
    by (simp add: dedup_insert_def dedup_new_def)
  note r = references_released_once[OF this, of 2]
  have "Suc 2 = 3" "replicate 2 StillReferenced @ [Removed 5] = [StillReferenced, StillReferenced, Removed 5]"
    by (simp_all add: eval_nat_numeral)
  with r show ?thesis by simp
qed

text \<open>
  Beyond the properties: the slot allocator never hands out a slot that is in use: slots handed out by
  successive allocations are pairwise different, below the capacity and not free any more,
  and the first \<open>capacity\<close> allocations of a new allocator all succeed.
\<close>

theorem allocations_distinct:
  assumes "n \<le> unat m"
  shows "\<exists>ss. snd (iter_op allocate n (slot_allocator_new m)) = map Some ss \<and> distinct ss \<and> set ss \<subseteq> {..<m}
    \<and> sa_avail (fst (iter_op allocate n (slot_allocator_new m))) = {..<m} - set ss"
proof -
  have a: "sa_inv (slot_allocator_new m)" "sa_avail (slot_allocator_new m) = {..<m}"
    by (auto simp: slot_allocator_new_def sa_inv_def sa_avail_def)
  let ?rs = "snd (iter_op allocate n (slot_allocator_new m))"
  have all: "\<forall>r \<in> set ?rs. r \<noteq> None"
    by (rule slots.allocs_until_empty[OF a(1)]) (simp add: a(2) card_lessThan_word assms)
  then have "?rs = map Some (slots.handed_out ?rs)"
    by (auto simp: slots.handed_out_def intro!: nth_equalityI)
  with slots.allocs_distinct[OF a(1), of n] a(2) show ?thesis by blast
qed

theorem allocations_distinct_witness:
  "\<exists>ss. snd (iter_op allocate 2 (slot_allocator_new 3)) = map Some ss \<and> distinct ss \<and> set ss \<subseteq> {..<3}
    \<and> sa_avail (fst (iter_op allocate 2 (slot_allocator_new 3))) = {..<3} - set ss"
  by (rule allocations_distinct) simp

text \<open>
  Beyond the properties: the page store returns what was written last: after a successful write of a slot,
  and any further reads and writes of other slots, whatever they return and whatever I/O
  errors occur, a successful read of the slot returns the data padded to a page.
\<close>

theorem store_reads_last_write:
  assumes "ps_inv ps" "write_page ps slot d = (ps1, Ok u)" "\<forall>x \<in> set ops. array_op_index x \<noteq> Some slot"
    and "read_page (foldl (run_array_op read_page write_page) ps1 ops) slot = (ps2, Ok p)"
  shows "p = padded d"
  by (rule pages.read_last_write[OF assms])

theorem store_reads_last_write_witness:
  "\<exists>ps1 ps2. write_page (page_store_on blank_file 2) 0 [8] = (ps1, Ok ())
    \<and> read_page (foldl (run_array_op read_page write_page) ps1 [WrAt 1 [9], RdAt 1]) 0 = (ps2, Ok (padded [8]))"
proof -
  let ?ps = "page_store_on blank_file 2"
  have i: "ps_inv ?ps" by (simp add: ps_inv_def page_store_on_def PAGE_SIZE_def)
  have h: "healthy ?ps" by (simp add: healthy_def page_store_on_def blank_file_def)
  obtain ps1 where w: "write_page ?ps 0 [8] = (ps1, Ok ())" "healthy ps1"
    using write_page_healthy[OF h, of 0 "[8]"] healthy_write[OF h, of 0 "[8]"]
    by (cases "write_page ?ps 0 [8]") (auto simp: page_store_on_def)
  have i1: "ps_inv ps1" using write_page_inv[OF i, of 0 "[8]"] w(1) by simp
  let ?ps3 = "foldl (run_array_op read_page write_page) ps1 [WrAt 1 [9], RdAt 1]"
  have c: "ps_inv ?ps3" by (rule pages.run_inv[OF i1])
  have d: "slot_page ?ps3 0 = Some (padded [8])"
    using pages.run_keeps[OF i1 pages.wr_ok[OF i w(1)], of "[WrAt 1 [9], RdAt 1]"] by simp_all
  have h3: "healthy ?ps3" using healthy_read healthy_write w(2) by simp
  obtain ps2 p where r: "read_page ?ps3 0 = (ps2, Ok p)"
    using read_page_healthy[OF h3 c d] by (cases "read_page ?ps3 0") auto
  have "p = padded [8]" by (rule store_reads_last_write[OF i w(1) _ r]) simp
  with w(1) r show ?thesis by blast
qed

end
