(* ===== verification/Swap_Properties.thy ===== *)
theory Swap_Properties
  imports Dry_Run Proxy_Properties
begin

text \<open>
  The properties of the command layer of the swap proxy: the dry run from start to end, the
  engine of a real run, the bootstrap of the swap device and the cleanup after a crash.
\<close>

section \<open>The dry run\<close>

text \<open>
  C21: on a store with more than 10000 slots, a table with more than 10000 entries and no
  failing system call, the dry run gets to its end and prints the statistics of an engine
  whose ten thousand simulated offsets hold exactly the pages written to them, except the
  thousand that were discarded, which read as zeros.
\<close>

theorem dry_run_completes:
  assumes "engine_new (h_store_exists host) (h_dir_ok host) (h_opened host) (rc_size_gb rc)
      (rc_max_entries rc) (rc_bloom_capacity rc) = Ok e"
    and "healthy (pstore e)" "10000 < unat (slots_of_gb (rc_size_gb rc))" "10000 < unat (rc_max_entries rc)"
  shows "\<exists>e'. run_dry_run_simulation h host rc = Ok (print_stats e') \<and> (\<forall>i<10000. handle_read e' (sim_offset i)
      = (fst (handle_read e' (sim_offset i)), Ok (if 5000 \<le> i \<and> i < 6000 then replicate PAGE_SIZE 0
           else unique_page (i * 37 mod num_unique))))"
proof -
  obtain e' where e': "dry_run_workload h e = (e', Ok ())" "eng_inv e'" "healthy (pstore e')"
    "\<forall>i<10000. disk e' (sim_offset i) = dry_page i"
    using dry_run_end[OF assms] by blast
  have "handle_read e' (sim_offset i) = (fst (handle_read e' (sim_offset i)), Ok (dry_page i))" if "i < 10000" for i
    using handle_read_live[OF e'(2,3), of "sim_offset i"] e'(4) that by (metis prod.collapse)
  with e'(1) assms(1) show ?thesis
    by (intro exI[of _ e']) (simp add: run_dry_run_simulation_def dry_page_def)
qed

definition dry_host :: proxy_host where
  "dry_host =
     \<lparr>h_store_exists = True, h_dir_ok = True, h_opened = Some blank_file, h_control = True,
      h_parallelism = Some 2, h_built = True, h_live = True, h_served = True, h_init_errors = 0,
      h_bdev = ''/dev/ublkb0'', h_mkswap = Some True, h_swapon = Some True, h_requests = []\<rparr>"

definition dry_config :: run_config where
  "dry_config = \<lparr>rc_page_store_path = ''pagestore.dat'', rc_size_gb = 1, rc_max_entries = 262144,
      rc_bloom_capacity = 64, rc_bootstrap = True\<rparr>"

lemma dry_host_engine:
  "engine_new (h_store_exists dry_host) (h_dir_ok dry_host) (h_opened dry_host) (rc_size_gb dry_config)
     (rc_max_entries dry_config) (rc_bloom_capacity dry_config) = Ok new_engine"
  by (simp add: dry_host_def dry_config_def engine_new_new)

theorem dry_run_completes_witness:
  "\<exists>e'. run_dry_run_simulation (\<lambda>_. 0) dry_host dry_config = Ok (print_stats e')
    \<and> snd (handle_read e' (sim_offset 5999)) = Ok (replicate PAGE_SIZE 0)
    \<and> snd (handle_read e' (sim_offset 6001)) = Ok (unique_page 37)"
proof -
  have "10000 < unat (slots_of_gb (rc_size_gb dry_config))" "10000 < unat (rc_max_entries dry_config)"
    "healthy (pstore new_engine)"
    by (simp_all add: dry_config_def slots_of_gb_1 healthy_def new_engine_def page_store_on_def blank_file_def)
  from dry_run_completes[OF dry_host_engine this(3,1,2), of "\<lambda>_. 0"] obtain e' where
    run: "run_dry_run_simulation (\<lambda>_. 0) dry_host dry_config = Ok (print_stats e')" and
    pages: "\<forall>i<10000. handle_read e' (sim_offset i) = (fst (handle_read e' (sim_offset i)),
      Ok (if 5000 \<le> i \<and> i < 6000 then replicate PAGE_SIZE 0 else unique_page (i * 37 mod num_unique)))"
    by blast
  have "snd (handle_read e' (sim_offset 5999)) = Ok (replicate PAGE_SIZE 0)"
    using arg_cong[OF pages[rule_format, of 5999], of snd] by simp
  moreover have "snd (handle_read e' (sim_offset 6001)) = Ok (unique_page 37)"
    using arg_cong[OF pages[rule_format, of 6001], of snd] by (simp add: num_unique_def)
  ultimately show ?thesis using run by blast
qed

section \<open>The real run\<close>

text \<open>
  C22: a real run never deduplicates: whatever requests the kernel delivers, the engine is
  in passthrough mode when the device stops, the deduplication table is the empty one it was
  created with and no duplicate write was counted.
\<close>

theorem real_run_passthrough:
  assumes "run_real_proxy K h host rc = (res, cmds, Some e)"
  shows "passthrough e \<and> dedup_tab e = dedup_new (rc_max_entries rc) (rc_bloom_capacity rc)
    \<and> duplicate_writes (pstats e) = 0"
  using real_run_direct[OF assms] by (simp add: direct_only_def)

text \<open>A host that delivers one write of one page at offset 0 on queue 0.\<close>

definition linux_codes :: ublk_codes where
  "linux_codes = \<lparr>IO_OP_READ = 0, IO_OP_WRITE = 1, IO_OP_FLUSH = 2, IO_OP_DISCARD = 3, IO_OP_WRITE_ZEROES = 5\<rparr>"

definition busy_host :: proxy_host where
  "busy_host = dry_host\<lparr>h_requests :=
     [(0, \<lparr>op_flags = 1, start_sector = 0, nr_sectors = 8\<rparr>, 0, \<lambda>_. True)]\<rparr>"

lemma busy_run:
  obtains res cmds e where "run_real_proxy linux_codes (\<lambda>_. 0) busy_host dry_config = (res, cmds, Some e)"
proof -
  have "engine_new (h_store_exists busy_host) (h_dir_ok busy_host) (h_opened busy_host) (rc_size_gb dry_config)
     (rc_max_entries dry_config) (rc_bloom_capacity dry_config) = Ok new_engine"
    using dry_host_engine by (simp add: busy_host_def)
  with that show thesis
    by (cases "ublk_setup_of (rc_size_gb dry_config) (h_parallelism busy_host)")
       (auto simp: run_real_proxy_def ensure_available_def busy_host_def dry_host_def Let_def)
qed

theorem real_run_passthrough_witness:
  "\<exists>res cmds e. run_real_proxy linux_codes (\<lambda>_. 0) busy_host dry_config = (res, cmds, Some e)
    \<and> passthrough e \<and> duplicate_writes (pstats e) = 0"
proof -
  obtain res cmds e where r: "run_real_proxy linux_codes (\<lambda>_. 0) busy_host dry_config = (res, cmds, Some e)"
    by (rule busy_run)
  with real_run_passthrough[OF r] show ?thesis by blast
qed

text \<open>
  C23: no slot leaks in a real run: whatever requests are served, in whatever order and with
  whatever I/O errors, at the end the free slots and the mapped offsets add up to the
  capacity, and no free slot is mapped. The offsets must fit in \<open>V\<close>, fewer than \<open>2 ^ 32\<close> pages.
\<close>

theorem real_run_accounts:
  assumes "run_real_proxy K h host rc = (res, cmds, Some e)"
    and "\<forall>(qid, iod, tag, completed) \<in> set (h_requests host). set (req_offsets (request_of K iod)) \<subseteq> V"
    and "finite V" "Suc (card V) < 2 ^ 32"
  shows "card (sa_avail (slot_alloc e)) + length (translation e) = unat (total_slots (pstore e))
    \<and> (\<forall>x \<in># live e. backend_slot x \<notin> sa_avail (slot_alloc e))"
proof -
  have d: "direct_only (dedup_new (rc_max_entries rc) (rc_bloom_capacity rc)) e" by (rule real_run_direct[OF assms(1)])
  have "dev_inv V e" by (rule real_run_dev[OF assms])
  then have b: "eng_books (live e) e" by (simp add: dev_inv_def eng_inv_def)
  note D = eng_booksD[OF b]
  have A: "sa_avail (slot_alloc e) \<subseteq> {..<max_slots (slot_alloc e)}"
    using slots.finite_avail[OF D(2)] by simp
  have "\<forall>x \<in># live e. exclusive (tracked (dedup_tab e)) x"
    using d by (auto simp: direct_only_def live_def vals_def exclusive_def)
  from books_card[OF D(6) this A] booksD(2)[OF D(6)] D(4) show ?thesis by (simp add: live_size)
qed

theorem real_run_accounts_witness:
  "\<exists>res cmds e. run_real_proxy linux_codes (\<lambda>_. 0) busy_host dry_config = (res, cmds, Some e)
    \<and> card (sa_avail (slot_alloc e)) + length (translation e) = unat (total_slots (pstore e))"
proof -
  obtain res cmds e where r: "run_real_proxy linux_codes (\<lambda>_. 0) busy_host dry_config = (res, cmds, Some e)"
    by (rule busy_run)
  have "set (req_offsets (request_of linux_codes \<lparr>op_flags = 1, start_sector = 0, nr_sectors = 8\<rparr>)) \<subseteq> {0}"
    by (simp add: request_of_def block_request_new_def req_offsets_def page_indices_def page_offset_def
        push_bit_eq_mult PAGE_SIZE_def)
  with real_run_accounts[OF r, of "{0}"] r show ?thesis by (auto simp: busy_host_def)
qed

section \<open>Cleanup\<close>

text \<open>
  Beyond the properties: the cleanup turns off exactly the ublk devices that \<open>swapon\<close> lists: a line counts
  when its first word is \<open>/dev/ublkb\<close> or \<open>/dev/ubd\<close> followed by one or more digits and
  nothing else, so neither \<open>zram\<close> nor any other swap device is touched.
\<close>

theorem cleanup_only_ublk:
  "d \<in> set (fst (cleanup_after_crash (Ok out) show_out swapoff)) \<longleftrightarrow>
     (\<exists>n. n \<noteq> [] \<and> list_all is_digit n \<and> (d = ''/dev/ublkb'' @ n \<or> d = ''/dev/ubd'' @ n))
     \<and> (\<exists>line \<in> set (rust_lines out). \<exists>ws. split_whitespace line = d # ws)"
  using ubd_devices[of d out] by (simp add: cleanup_after_crash_def Let_def ubd_name_def)

end
