(* ===== verification/Interleave.thy ===== *)
theory Interleave
  imports Engine_Run
begin

text \<open>
  The steps of the requests of \<open>crates/swap-proxy/src/main.rs\<close> when the queues of the ublk
  device run in parallel. \<open>ProxyEngine\<close> is shared without a lock of its own: each access to
  the allocator, the store, the translation and the deduplication table takes and drops one
  lock, so other requests may run between any two of them. A \<open>request\<close> is where a thread
  stands, with the local variables the rest of the method uses. One step is one access; the
  update of a statistics counter belongs to the next access.
\<close>

section \<open>Requests\<close>

datatype request =
    WBegin u64 "u8 list"
  | WLookup u64 page fingerprint
  | WVerify u64 page fingerprint u64
  | WAddRef u64 page fingerprint u64
  | WAlloc u64 page "fingerprint option"
  | WStore u64 page "fingerprint option" u64
  | WUndo u64 backend_error
  | WInsert u64 page fingerprint u64
  | WMap u64 page translation_entry
  | Releasing translation_entry
  | Freeing u64
  | RBegin u64
  | RFetch u64
  | DBegin u64
  | Finished op_result

text \<open>\<open>handle_write\<close> up to the choice of the path.\<close>

definition begin_write :: "hash \<Rightarrow> proxy_engine \<Rightarrow> u64 \<Rightarrow> u8 list \<Rightarrow> proxy_engine \<times> request" where
  "begin_write h e off data =
     (let e0 = e\<lparr>pstats := (pstats e)\<lparr>total_writes := total_writes (pstats e) + 1\<rparr>\<rparr>;
          pg = normalize_page data
      in (e0, if passthrough e0 then WAlloc off pg None else WLookup off pg (fingerprint_page h pg)))"

definition lookup_step :: "proxy_engine \<Rightarrow> u64 \<Rightarrow> page \<Rightarrow> fingerprint \<Rightarrow> proxy_engine \<times> request" where
  "lookup_step e off pg fp =
     (case dedup_lookup (dedup_tab e) fp pg of
        (t, Duplicate slot) \<Rightarrow> (e\<lparr>dedup_tab := t\<rparr>, WVerify off pg fp slot)
      | (t, Miss) \<Rightarrow> (e\<lparr>dedup_tab := t\<rparr>, WAlloc off pg (Some fp)))"

definition verify_step :: "proxy_engine \<Rightarrow> u64 \<Rightarrow> page \<Rightarrow> fingerprint \<Rightarrow> u64 \<Rightarrow> proxy_engine \<times> request" where
  "verify_step e off pg fp slot =
     (case read_page (pstore e) slot of
        (s, Inl err) \<Rightarrow> (e\<lparr>pstore := s\<rparr>, Finished (Failed err))
      | (s, Inr stored_page) \<Rightarrow>
          (e\<lparr>pstore := s\<rparr>, if stored_page = pg then WAddRef off pg fp slot else WAlloc off pg (Some fp)))"

definition add_ref_step :: "proxy_engine \<Rightarrow> u64 \<Rightarrow> page \<Rightarrow> fingerprint \<Rightarrow> u64 \<Rightarrow> proxy_engine \<times> request" where
  "add_ref_step e off pg fp slot =
     (case dedup_add_reference (dedup_tab e) fp of
        (t, True) \<Rightarrow>
          (e\<lparr>dedup_tab := t, pstats := (pstats e)\<lparr>duplicate_writes := duplicate_writes (pstats e) + 1\<rparr>\<rparr>,
           WMap off pg (entry_deduplicated fp slot))
      | (t, False) \<Rightarrow> (e\<lparr>dedup_tab := t\<rparr>, WAlloc off pg (Some fp)))"

definition alloc_step :: "proxy_engine \<Rightarrow> u64 \<Rightarrow> page \<Rightarrow> fingerprint option \<Rightarrow> proxy_engine \<times> request" where
  "alloc_step e off pg fpo =
     (case allocate_slot e of
        (e1, Inl err) \<Rightarrow> (e1, Finished (Failed err))
      | (e1, Inr slot) \<Rightarrow> (e1, WStore off pg fpo slot))"

definition store_step ::
    "proxy_engine \<Rightarrow> u64 \<Rightarrow> page \<Rightarrow> fingerprint option \<Rightarrow> u64 \<Rightarrow> proxy_engine \<times> request" where
  "store_step e off pg fpo slot =
     (case write_page_to_slot e slot pg of
        (e1, Inl err) \<Rightarrow> (e1, WUndo slot err)
      | (e1, Inr _) \<Rightarrow>
          (case fpo of
             None \<Rightarrow> (count_unique e1, WMap off pg (entry_direct slot))
           | Some fp \<Rightarrow> (e1, WInsert off pg fp slot)))"

definition insert_step :: "proxy_engine \<Rightarrow> u64 \<Rightarrow> page \<Rightarrow> fingerprint \<Rightarrow> u64 \<Rightarrow> proxy_engine \<times> request" where
  "insert_step e off pg fp slot =
     (case dedup_insert (dedup_tab e) fp pg slot of
        (t, inserted) \<Rightarrow>
          (count_unique (e\<lparr>dedup_tab := t\<rparr>),
           WMap off pg (if inserted then entry_deduplicated fp slot else entry_direct slot)))"

definition map_step :: "proxy_engine \<Rightarrow> u64 \<Rightarrow> translation_entry \<Rightarrow> proxy_engine \<times> request" where
  "map_step e off ent =
     (case translation_insert (translation e) off ent of
        (tt, None) \<Rightarrow> (e\<lparr>translation := tt\<rparr>, Finished Done)
      | (tt, Some old) \<Rightarrow> (e\<lparr>translation := tt\<rparr>, Releasing old))"

definition release_step :: "proxy_engine \<Rightarrow> translation_entry \<Rightarrow> proxy_engine \<times> request" where
  "release_step e ent =
     (case kind ent of
        Direct \<Rightarrow> (free_slot e (backend_slot ent), Finished Done)
      | Deduplicated fp \<Rightarrow>
          (case dedup_remove_reference (dedup_tab e) fp of
             (t, StillReferenced) \<Rightarrow> (e\<lparr>dedup_tab := t\<rparr>, Finished Done)
           | (t, Removed off) \<Rightarrow> (e\<lparr>dedup_tab := t\<rparr>, Freeing off)
           | (t, NotTracked) \<Rightarrow> (e\<lparr>dedup_tab := t\<rparr>, Freeing (backend_slot ent))))"

definition begin_read :: "proxy_engine \<Rightarrow> u64 \<Rightarrow> proxy_engine \<times> request" where
  "begin_read e off =
     (let e0 = e\<lparr>pstats := (pstats e)\<lparr>total_reads := total_reads (pstats e) + 1\<rparr>\<rparr>
      in case translation_lookup (translation e0) off of
           None \<Rightarrow> (e0, Finished (Data (replicate PAGE_SIZE 0)))
         | Some ent \<Rightarrow> (e0, RFetch (backend_slot ent)))"

definition fetch_step :: "proxy_engine \<Rightarrow> u64 \<Rightarrow> proxy_engine \<times> request" where
  "fetch_step e slot =
     (case read_page (pstore e) slot of
        (s, Inl err) \<Rightarrow> (e\<lparr>pstore := s\<rparr>, Finished (Failed err))
      | (s, Inr p) \<Rightarrow> (e\<lparr>pstore := s\<rparr>, Finished (Data p)))"

definition begin_discard :: "proxy_engine \<Rightarrow> u64 \<Rightarrow> proxy_engine \<times> request" where
  "begin_discard e off =
     (let e0 = e\<lparr>pstats := (pstats e)\<lparr>discards := discards (pstats e) + 1\<rparr>\<rparr>
      in case translation_remove (translation e0) off of
           (tt, None) \<Rightarrow> (e0\<lparr>translation := tt\<rparr>, Finished Done)
         | (tt, Some ent) \<Rightarrow> (e0\<lparr>translation := tt\<rparr>, Releasing ent))"

fun request_step :: "hash \<Rightarrow> proxy_engine \<Rightarrow> request \<Rightarrow> proxy_engine \<times> request" where
  "request_step h e (WBegin off data) = begin_write h e off data"
| "request_step h e (WLookup off pg fp) = lookup_step e off pg fp"
| "request_step h e (WVerify off pg fp slot) = verify_step e off pg fp slot"
| "request_step h e (WAddRef off pg fp slot) = add_ref_step e off pg fp slot"
| "request_step h e (WAlloc off pg fpo) = alloc_step e off pg fpo"
| "request_step h e (WStore off pg fpo slot) = store_step e off pg fpo slot"
| "request_step h e (WUndo slot err) = (free_slot e slot, Finished (Failed err))"
| "request_step h e (WInsert off pg fp slot) = insert_step e off pg fp slot"
| "request_step h e (WMap off pg ent) = map_step e off ent"
| "request_step h e (Releasing ent) = release_step e ent"
| "request_step h e (Freeing slot) = (free_slot e slot, Finished Done)"
| "request_step h e (RBegin off) = begin_read e off"
| "request_step h e (RFetch slot) = fetch_step e slot"
| "request_step h e (DBegin off) = begin_discard e off"
| "request_step h e (Finished r) = (e, Finished r)"

primrec request_of_op :: "engine_op \<Rightarrow> request" where
  "request_of_op (EWrite off data) = WBegin off data"
| "request_of_op (ERead off) = RBegin off"
| "request_of_op (EDiscard off) = DBegin off"

section \<open>A request that runs alone\<close>

text \<open>Ten steps are enough for every request; a finished one stays as it is.\<close>

fun run_alone :: "nat \<Rightarrow> hash \<Rightarrow> proxy_engine \<Rightarrow> request \<Rightarrow> proxy_engine \<times> request" where
  "run_alone 0 h e r = (e, r)"
| "run_alone (Suc n) h e r = (case request_step h e r of (e', r') \<Rightarrow> run_alone n h e' r')"

lemma run_finished [simp]: "run_alone n h e (Finished r) = (e, Finished r)"
  by (induction n) simp_all

text \<open>\<open>settles h k x e\<close>: from \<open>x\<close>, \<open>k\<close> or more steps end in the engine and result \<open>y\<close>.\<close>

definition settles :: "hash \<Rightarrow> nat \<Rightarrow> proxy_engine \<times> request \<Rightarrow> proxy_engine \<times> op_result \<Rightarrow> bool" where
  "settles h k x y \<longleftrightarrow> (\<forall>n \<ge> k. run_alone n h (fst x) (snd x) = (fst y, Finished (snd y)))"

lemma settles_finished [simp]: "settles h k (e, Finished r) (e, r)"
  by (simp add: settles_def)

lemma settles_step:
  assumes "request_step h e r = x" "settles h k x y"
  shows "settles h (Suc k) (e, r) y"
  unfolding settles_def
proof (intro allI impI)
  fix n assume "Suc k \<le> n"
  then obtain m where "n = Suc m" "k \<le> m" by (metis Suc_le_D Suc_le_mono)
  with assms show "run_alone n h (fst (e, r)) (snd (e, r)) = (fst y, Finished (snd y))"
    by (cases x) (simp add: settles_def)
qed

lemma settles_more: "settles h k x y \<Longrightarrow> k \<le> l \<Longrightarrow> settles h l x y"
  by (simp add: settles_def)

definition outcome :: "backend_error + unit \<Rightarrow> op_result" where
  "outcome r = (case r of Inl err \<Rightarrow> Failed err | Inr _ \<Rightarrow> Done)"

lemma outcome_simps [simp]: "outcome (Err err) = Failed err" "outcome (Ok u) = Done"
  by (simp_all add: outcome_def)

lemma settles_free:
  "settles h (Suc 0) (e, WUndo slot err) (free_slot e slot, Failed err)"
  "settles h (Suc 0) (e, Freeing slot) (free_slot e slot, Done)"
  using settles_step[of h e _ _ 0] by simp_all

lemma settles_release: "settles h 2 (e, Releasing ent) (release_mapping e ent, Done)"
proof -
  have "settles h (Suc 0) (release_step e ent) (release_mapping e ent, Done)"
    by (auto simp: release_step_def release_mapping_def settles_free
        split: mapping_kind.split prod.split reference_removal.split)
  from settles_step[OF _ this, of e "Releasing ent"] show ?thesis by (simp add: numeral_2_eq_2)
qed

lemma settles_map: "settles h 3 (e, WMap off pg ent) (replace_mapping e off ent, Done)"
proof -
  have "settles h 2 (map_step e off ent) (replace_mapping e off ent, Done)"
    by (auto simp: map_step_def replace_mapping_def translation_insert_def settles_release split: option.split)
  from settles_step[OF _ this, of e "WMap off pg ent"] show ?thesis by (simp add: numeral_3_eq_3 numeral_2_eq_2)
qed

lemma settles_insert:
  assumes "dedup_insert (dedup_tab e) fp pg slot = (t, inserted)"
  shows "settles h 4 (e, WInsert off pg fp slot)
    (replace_mapping (count_unique (e\<lparr>dedup_tab := t\<rparr>)) off
       (if inserted then entry_deduplicated fp slot else entry_direct slot), Done)"
proof -
  have "settles h 3 (insert_step e off pg fp slot) (replace_mapping (count_unique (e\<lparr>dedup_tab := t\<rparr>)) off
       (if inserted then entry_deduplicated fp slot else entry_direct slot), Done)"
    using assms by (simp add: insert_step_def settles_map)
  from settles_step[OF _ this, of e "WInsert off pg fp slot"] show ?thesis by (simp add: eval_nat_numeral)
qed

text \<open>From the allocation on: the two ways of storing a page in a slot of its own.\<close>

definition store_page :: "proxy_engine \<Rightarrow> u64 \<Rightarrow> page \<Rightarrow> fingerprint option \<Rightarrow> proxy_engine \<times> (backend_error + unit)" where
  "store_page e off pg fpo =
     (case fpo of None \<Rightarrow> write_direct e off pg | Some fp \<Rightarrow> write_unique_or_direct e off fp pg)"

lemma settles_alloc:
  assumes "store_page e off pg fpo = (e', r)"
  shows "settles h 6 (e, WAlloc off pg fpo) (e', outcome r)"
proof -
  obtain e1 r1 where a: "allocate_slot e = (e1, r1)" by fastforce
  have "settles h 5 (alloc_step e off pg fpo) (e', outcome r)"
  proof (cases r1)
    case (Inl err)
    with a assms show ?thesis
      by (auto simp: alloc_step_def store_page_def write_direct_def write_unique_or_direct_def split: option.splits)
  next
    case (Inr slot)
    obtain e2 r2 where s: "write_page_to_slot e1 slot pg = (e2, r2)" by fastforce
    obtain t ins where i: "dedup_insert (dedup_tab e2) (the fpo) pg slot = (t, ins)" by fastforce
    have "settles h 4 (store_step e1 off pg fpo slot) (e', outcome r)"
      using assms a Inr s i settles_insert[OF i] settles_more[OF settles_free(1), of 4] settles_more[OF settles_map, of 4]
      by (auto simp: store_step_def store_page_def write_direct_def write_unique_or_direct_def Let_def
          split: option.splits sum.splits)
    from settles_step[OF _ this, of e1 "WStore off pg fpo slot"] a Inr show ?thesis
      by (simp add: alloc_step_def eval_nat_numeral)
  qed
  from settles_step[OF _ this, of e "WAlloc off pg fpo"] show ?thesis by (simp add: eval_nat_numeral)
qed

lemma settles_duplicate:
  assumes "write_duplicate e off fp pg slot = (e', r)"
  shows "settles h 8 (e, WVerify off pg fp slot) (e', outcome r)"
proof -
  obtain s r1 where rd: "read_page (pstore e) slot = (s, r1)" by fastforce
  have "settles h 7 (verify_step e off pg fp slot) (e', outcome r)"
  proof (cases "r1 = Ok pg")
    case True
    obtain t hit where t: "dedup_add_reference (dedup_tab e) fp = (t, hit)" by fastforce
    have "settles h 6 (add_ref_step (e\<lparr>pstore := s\<rparr>) off pg fp slot) (e', outcome r)"
      using assms rd True t settles_more[OF settles_map, of 6]
        settles_alloc[of "e\<lparr>pstore := s, dedup_tab := t\<rparr>" off pg "Some fp" e' r h]
      by (auto simp: write_duplicate_def add_ref_step_def store_page_def Let_def split: bool.splits)
    from settles_step[OF _ this, of "e\<lparr>pstore := s\<rparr>" "WAddRef off pg fp slot"] rd True show ?thesis
      by (simp add: verify_step_def eval_nat_numeral)
  next
    case False
    with assms rd settles_more[OF settles_alloc[of "e\<lparr>pstore := s\<rparr>" off pg "Some fp" e' r h], of 7] show ?thesis
      by (auto simp: write_duplicate_def verify_step_def store_page_def Let_def split: sum.splits)
  qed
  from settles_step[OF _ this, of e "WVerify off pg fp slot"] show ?thesis by (simp add: eval_nat_numeral)
qed

lemma settles_write:
  assumes "handle_write h e off data = (e', r)"
  shows "settles h 10 (e, WBegin off data) (e', outcome r)"
proof -
  define e0 where "e0 = e\<lparr>pstats := (pstats e)\<lparr>total_writes := total_writes (pstats e) + 1\<rparr>\<rparr>"
  define pg where "pg = normalize_page data"
  obtain t res where l: "dedup_lookup (dedup_tab e0) (fingerprint_page h pg) pg = (t, res)" by fastforce
  have "settles h 9 (begin_write h e off data) (e', outcome r)"
  proof (cases "passthrough e0")
    case True
    with assms settles_more[OF settles_alloc[of e0 off pg None e' r h], of 9] show ?thesis
      by (simp add: handle_write_def begin_write_def Let_def store_page_def del: normalize_page_padded flip: e0_def pg_def)
  next
    case False
    have "settles h 8 (lookup_step e0 off pg (fingerprint_page h pg)) (e', outcome r)"
      using assms False l settles_duplicate[of "e0\<lparr>dedup_tab := t\<rparr>" off "fingerprint_page h pg" pg _ e' r h]
        settles_more[OF settles_alloc[of "e0\<lparr>dedup_tab := t\<rparr>" off pg "Some (fingerprint_page h pg)" e' r h], of 8]
      by (simp add: handle_write_def lookup_step_def Let_def store_page_def del: normalize_page_padded flip: e0_def pg_def split: lookup_result.splits)
    from settles_step[OF _ this, of e0 "WLookup off pg (fingerprint_page h pg)"] False show ?thesis
      by (simp add: begin_write_def Let_def eval_nat_numeral del: normalize_page_padded flip: e0_def pg_def)
  qed
  from settles_step[OF _ this, of e "WBegin off data"] show ?thesis by (simp add: eval_nat_numeral)
qed

text \<open>Run alone, a request does exactly what the method does as one atomic operation.\<close>

lemma run_alone_atomic:
  assumes "engine_step h e op = (e', r)" "10 \<le> n"
  shows "run_alone n h e (request_of_op op) = (e', Finished r)"
proof -
  have "settles h 10 (e, request_of_op op) (e', r)"
  proof (cases op)
    case (EWrite off data)
    with assms(1) settles_write[of h e off data] show ?thesis
      by (auto simp: outcome_def split: prod.splits sum.splits)
  next
    case (ERead off)
    have "settles h 1 (begin_read e off) (e', r)"
      using assms(1) ERead settles_step[of h _ "RFetch _" _ 0]
      by (auto simp: handle_read_def begin_read_def fetch_step_def Let_def split: option.splits prod.splits sum.splits)
    from settles_more[OF settles_step[OF _ this, of e "RBegin off"], of 10] ERead show ?thesis by simp
  next
    case (EDiscard off)
    have "settles h 2 (begin_discard e off) (e', r)"
      using assms(1) EDiscard settles_release
      by (auto simp: handle_discard_def begin_discard_def translation_remove_def Let_def split: option.splits)
    from settles_more[OF settles_step[OF _ this, of e "DBegin off"], of 10] EDiscard show ?thesis by simp
  qed
  with assms(2) show ?thesis by (simp add: settles_def)
qed

end
