(* ===== verification/Interleave_Laws.thy ===== *)
theory Interleave_Laws
  imports Interleave
begin

text \<open>
  One step of a request in passthrough mode, the mode of every real run: which slots the
  request owns before and after it, what it may change in the store, and that only the
  update of the translation changes the contents of the device.
\<close>

section \<open>Ownership\<close>

text \<open>The slots that belong to a request: no other request and no mapping has them.\<close>

fun owned :: "request \<Rightarrow> u64 multiset" where
  "owned (WStore off pg fpo slot) = {#slot#}"
| "owned (WUndo slot err) = {#slot#}"
| "owned (WMap off pg ent) = {#backend_slot ent#}"
| "owned (Releasing ent) = {#backend_slot ent#}"
| "owned (Freeing slot) = {#slot#}"
| "owned r = {#}"

text \<open>The requests of passthrough mode; a page about to be mapped is in its slot already.\<close>

fun direct_request :: "page_store \<Rightarrow> request \<Rightarrow> bool" where
  "direct_request ps (WAlloc off pg fpo) \<longleftrightarrow> fpo = None \<and> length pg = PAGE_SIZE"
| "direct_request ps (WStore off pg fpo slot) \<longleftrightarrow> fpo = None \<and> length pg = PAGE_SIZE"
| "direct_request ps (WMap off pg ent) \<longleftrightarrow> kind ent = Direct \<and> slot_page ps (backend_slot ent) = Some pg"
| "direct_request ps (Releasing ent) \<longleftrightarrow> kind ent = Direct"
| "direct_request ps (WLookup off pg fp) \<longleftrightarrow> False"
| "direct_request ps (WVerify off pg fp slot) \<longleftrightarrow> False"
| "direct_request ps (WAddRef off pg fp slot) \<longleftrightarrow> False"
| "direct_request ps (WInsert off pg fp slot) \<longleftrightarrow> False"
| "direct_request ps r \<longleftrightarrow> True"

definition slots_held :: "proxy_engine \<Rightarrow> u64 multiset" where
  "slots_held e = mset_set (sa_avail (slot_alloc e)) + image_mset backend_slot (live e)"

definition engine_ok :: "proxy_engine \<Rightarrow> bool" where
  "engine_ok e \<longleftrightarrow> passthrough e \<and> ps_inv (pstore e) \<and> sa_inv (slot_alloc e)
     \<and> max_slots (slot_alloc e) = total_slots (pstore e) \<and> distinct (map fst (translation e))
     \<and> (\<forall>x \<in># live e. kind x = Direct \<and> slot_page (pstore e) (backend_slot x) \<noteq> None)"

section \<open>One step of one request\<close>

text \<open>
  What a step may do: slots move between the allocator, the mappings and the request, and a
  page in a slot the request does not own stays as it is.
\<close>

definition step_ok :: "proxy_engine \<Rightarrow> request \<Rightarrow> proxy_engine \<Rightarrow> request \<Rightarrow> bool" where
  "step_ok e r e' r' \<longleftrightarrow> engine_ok e' \<and> direct_request (pstore e') r'
     \<and> slots_held e' + owned r' = slots_held e + owned r
     \<and> total_slots (pstore e') = total_slots (pstore e)
     \<and> (\<forall>s p. s \<notin># owned r \<longrightarrow> slot_page (pstore e) s = Some p \<longrightarrow> slot_page (pstore e') s = Some p)
     \<and> disk e' = (case r of WMap off pg ent \<Rightarrow> (disk e)(off := pg)
                  | DBegin off \<Rightarrow> (disk e)(off := replicate PAGE_SIZE 0) | _ \<Rightarrow> disk e)"

lemma mset_set_insert_new: "finite A \<Longrightarrow> x \<notin> A \<Longrightarrow> mset_set (insert x A) = add_mset x (mset_set A)"
  by simp

lemma mset_set_remove_one: "finite A \<Longrightarrow> x \<in> A \<Longrightarrow> add_mset x (mset_set (A - {x})) = mset_set A"
  by (simp add: mset_set.remove)

text \<open>Fields that ownership and contents do not depend on.\<close>

lemma slots_held_fields [simp]:
  "slots_held (e\<lparr>pstats := st\<rparr>) = slots_held e" "slots_held (e\<lparr>pstore := ps\<rparr>) = slots_held e"
  by (simp_all add: slots_held_def live_def)

lemma engine_ok_stats [simp]: "engine_ok (e\<lparr>pstats := st\<rparr>) = engine_ok e"
  by (simp add: engine_ok_def)

lemma disk_cong:
  assumes "translation e' = translation e"
    and "\<And>x. x \<in># live e \<Longrightarrow> slot_page (pstore e') (backend_slot x) = slot_page (pstore e) (backend_slot x)"
  shows "disk e' = disk e"
proof
  fix off
  show "disk e' off = disk e off"
    using assms map_of_in_vals[of "translation e" off]
    by (auto simp: disk_def live_def split: option.split)
qed

lemma alloc_ok:
  assumes ok: "engine_ok e" and pg: "length pg = PAGE_SIZE" and s: "alloc_step e off pg None = (e', r')"
  shows "step_ok e (WAlloc off pg None) e' r'"
proof -
  have i: "sa_inv (slot_alloc e)" using ok by (simp add: engine_ok_def)
  have fin: "finite (sa_avail (slot_alloc e))" using slots.finite_avail[OF i] by simp
  obtain sa res where a: "allocate (slot_alloc e) = (sa, res)" by fastforce
  have inv: "sa_inv sa" "max_slots sa = max_slots (slot_alloc e)" using allocate_inv[OF i] a by simp_all
  have same: "live (e\<lparr>slot_alloc := sa\<rparr>) = live e" "disk (e\<lparr>slot_alloc := sa\<rparr>) = disk e"
    by (simp_all add: live_def disk_def fun_eq_iff split: option.split)
  have ok': "engine_ok (e\<lparr>slot_alloc := sa\<rparr>)" using ok inv by (simp add: engine_ok_def live_def)
  show ?thesis
  proof (cases res)
    case None
    with a s allocate_None[of "slot_alloc e" sa] have "e' = e" "r' = Finished (Failed StoreFull)"
      by (auto simp: alloc_step_def allocate_slot_def)
    with ok show ?thesis by (simp add: step_ok_def)
  next
    case (Some slot)
    with a s have e: "e' = e\<lparr>slot_alloc := sa\<rparr>" "r' = WStore off pg None slot"
      by (auto simp: alloc_step_def allocate_slot_def)
    from a Some allocate_Some[OF i] have m: "slot \<in> sa_avail (slot_alloc e)" "sa_avail sa = sa_avail (slot_alloc e) - {slot}"
      by auto
    show ?thesis
      using ok' pg same mset_set_remove_one[OF fin m(1)]
      by (simp add: e step_ok_def slots_held_def m(2) live_def)
  qed
qed

lemma free_ok:
  assumes ok: "engine_ok e" and own: "slots_held e + owned r \<subseteq># mset_set {..<total_slots (pstore e)}"
    and r: "owned r = {#slot#}" "\<forall>off pg ent. r \<noteq> WMap off pg ent" "\<forall>off. r \<noteq> DBegin off"
  shows "step_ok e r (free_slot e slot) (Finished x)"
proof -
  have i: "sa_inv (slot_alloc e)" and mx: "max_slots (slot_alloc e) = total_slots (pstore e)"
    using ok by (simp_all add: engine_ok_def)
  have fin: "finite (sa_avail (slot_alloc e))" using slots.finite_avail[OF i] by simp
  have one: "count (slots_held e + owned r) slot \<le> 1"
    using mset_subset_eq_count[OF own, of slot] by (simp add: count_mset_set' split: if_splits)
  then have new: "slot \<notin> sa_avail (slot_alloc e)"
    using r(1) fin by (auto simp: slots_held_def)
  have "slot \<in># slots_held e + owned r" using r(1) by simp
  with own have "slot \<in># mset_set {..<total_slots (pstore e)}" by (rule mset_subset_eqD)
  then have lt: "slot < max_slots (slot_alloc e)" using mx by simp
  note F = free_slot_inv[OF i lt new]
  have same: "live (free_slot e slot) = live e" "disk (free_slot e slot) = disk e"
    by (simp_all add: free_slot_def live_def disk_def fun_eq_iff split: option.split)
  have "engine_ok (free_slot e slot)"
    using ok F by (simp add: engine_ok_def free_slot_def live_def)
  moreover have "slots_held (free_slot e slot) = add_mset slot (slots_held e)"
    using F(2) fin new same(1) by (simp add: slots_held_def free_slot_def)
  moreover have "(case r of WMap off pg ent \<Rightarrow> (disk e)(off := pg)
                  | DBegin off \<Rightarrow> (disk e)(off := replicate PAGE_SIZE 0) | _ \<Rightarrow> disk e) = disk e"
    using r(2,3) by (cases r) auto
  ultimately show ?thesis using r(1) same(2) by (simp add: step_ok_def free_slot_def)
qed

lemma padded_full: "length pg = PAGE_SIZE \<Longrightarrow> padded pg = pg"
  by (simp add: padded_def)

text \<open>A slot owned by a request is not the slot of a mapping.\<close>

lemma owned_not_mapped:
  assumes "slots_held e + owned r \<subseteq># mset_set {..<m}" "slot \<in># owned r" "x \<in># live e"
  shows "backend_slot x \<noteq> slot"
proof
  assume "backend_slot x = slot"
  with assms(3) have "slot \<in># image_mset backend_slot (live e)" by auto
  then have a: "1 \<le> count (image_mset backend_slot (live e)) slot"
    by (simp only: count_greater_eq_one_iff)
  have b: "1 \<le> count (owned r) slot" using assms(2) by (simp only: count_greater_eq_one_iff)
  have "count (slots_held e + owned r) slot \<le> 1"
    using mset_subset_eq_count[OF assms(1), of slot] by (simp add: count_mset_set' split: if_splits)
  with a b show False unfolding slots_held_def count_union by linarith
qed

lemma store_ok:
  assumes ok: "engine_ok e" and pg: "length pg = PAGE_SIZE"
    and own: "slots_held e + owned (WStore off pg None slot) \<subseteq># mset_set {..<total_slots (pstore e)}"
    and s: "store_step e off pg None slot = (e', r')"
  shows "step_ok e (WStore off pg None slot) e' r'"
proof -
  have i: "ps_inv (pstore e)" using ok by (simp add: engine_ok_def)
  obtain ps res where w: "write_page (pstore e) slot pg = (ps, res)" by fastforce
  have keep: "slot_page ps t = Some p" if "t \<noteq> slot" "slot_page (pstore e) t = Some p" for t p
    using write_page_other[OF i _ that(2), of slot pg] that(1) w by simp
  have mapped: "slot_page ps (backend_slot x) = slot_page (pstore e) (backend_slot x)" if x: "x \<in># live e" for x
  proof -
    have "backend_slot x \<noteq> slot" by (rule owned_not_mapped[OF own _ x]) simp
    moreover obtain p where "slot_page (pstore e) (backend_slot x) = Some p"
      using ok x by (auto simp: engine_ok_def)
    ultimately show ?thesis using keep by simp
  qed
  have inv: "ps_inv ps" "total_slots ps = total_slots (pstore e)"
    using write_page_inv[OF i, of slot pg] write_page_total[OF i, of slot pg] w by simp_all
  have ok': "engine_ok (e\<lparr>pstore := ps\<rparr>)"
    using ok inv mapped by (simp add: engine_ok_def live_def)
  have d: "disk (e\<lparr>pstore := ps\<rparr>) = disk e" by (rule disk_cong) (simp_all add: mapped)
  show ?thesis
  proof (cases res)
    case (Inl err)
    with w s have "e' = e\<lparr>pstore := ps\<rparr>" "r' = WUndo slot err"
      by (auto simp: store_step_def write_page_to_slot_def)
    with ok' d keep inv show ?thesis by (simp add: step_ok_def)
  next
    case (Inr u)
    with w s have e: "e' = count_unique (e\<lparr>pstore := ps\<rparr>)" "r' = WMap off pg (entry_direct slot)"
      by (auto simp: store_step_def write_page_to_slot_def)
    have "slot_page ps slot = Some pg"
      using write_page_ok[OF i] w Inr padded_full[OF pg] by auto
    with ok' d keep inv show ?thesis by (simp add: e step_ok_def count_unique_def)
  qed
qed

lemma map_ok:
  assumes ok: "engine_ok e" and r: "direct_request (pstore e) (WMap off pg ent)"
    and s: "map_step e off ent = (e', r')"
  shows "step_ok e (WMap off pg ent) e' r'"
proof -
  let ?e = "e\<lparr>translation := AList.update off ent (translation e)\<rparr>"
  have dist: "distinct (map fst (translation e))" using ok by (simp add: engine_ok_def)
  have live: "live ?e = (case map_of (translation e) off of None \<Rightarrow> add_mset ent (live e)
      | Some old \<Rightarrow> add_mset ent (live e) - {#old#})"
    using vals_update[OF dist, of off ent] by (simp add: live_def split: option.split)
  have "x \<in># live ?e \<Longrightarrow> x = ent \<or> x \<in># live e" for x
    unfolding live by (auto split: option.splits dest: in_diffD)
  then have ok': "engine_ok ?e"
    using ok r distinct_update[OF dist] by (fastforce simp: engine_ok_def)
  have d: "disk ?e = (disk e)(off := pg)"
    using r by (auto simp: disk_def fun_eq_iff split: option.split)
  have e: "e' = ?e" using s by (auto simp: map_step_def translation_insert_def split: option.splits)
  show ?thesis
  proof (cases "map_of (translation e) off")
    case None
    with s have "r' = Finished Done" by (auto simp: map_step_def translation_insert_def)
    with None ok' d show ?thesis by (simp add: e step_ok_def slots_held_def live)
  next
    case (Some old)
    with s have r': "r' = Releasing old" by (auto simp: map_step_def translation_insert_def)
    have old: "old \<in># live e" using map_of_in_vals[OF Some] by (simp add: live_def)
    with ok have k: "kind old = Direct" by (simp add: engine_ok_def)
    obtain N where N: "live e = add_mset old N" using old by (metis multi_member_split)
    have "live ?e = add_mset ent N" using live Some N by (simp add: add_mset_commute)
    with ok' d k N show ?thesis by (simp add: e r' step_ok_def slots_held_def)
  qed
qed

lemma discard_ok:
  assumes ok: "engine_ok e" and s: "begin_discard e off = (e', r')"
  shows "step_ok e (DBegin off) e' r'"
proof -
  define e0 where "e0 = e\<lparr>pstats := (pstats e)\<lparr>discards := discards (pstats e) + 1\<rparr>\<rparr>"
  let ?e = "e0\<lparr>translation := AList.delete off (translation e)\<rparr>"
  have dist: "distinct (map fst (translation e))" using ok by (simp add: engine_ok_def)
  have live: "live ?e = (case map_of (translation e) off of None \<Rightarrow> live e | Some old \<Rightarrow> live e - {#old#})"
    using vals_delete[OF dist, of off] by (simp add: live_def e0_def split: option.split)
  have "x \<in># live ?e \<Longrightarrow> x \<in># live e" for x
    unfolding live by (auto split: option.splits dest: in_diffD)
  then have ok': "engine_ok ?e"
    using ok distinct_delete[OF dist] by (simp add: engine_ok_def e0_def)
  have d: "disk ?e = (disk e)(off := replicate PAGE_SIZE 0)"
    by (auto simp: disk_def e0_def fun_eq_iff split: option.split)
  have e: "e' = ?e"
    using s by (auto simp: begin_discard_def translation_remove_def e0_def Let_def split: option.splits)
  have fields: "sa_avail (slot_alloc ?e) = sa_avail (slot_alloc e)" "pstore ?e = pstore e" by (simp_all add: e0_def)
  show ?thesis
  proof (cases "map_of (translation e) off")
    case None
    with s have "r' = Finished Done" by (auto simp: begin_discard_def translation_remove_def Let_def)
    with None ok' d fields show ?thesis by (simp add: e step_ok_def slots_held_def live)
  next
    case (Some old)
    with s have r': "r' = Releasing old" by (auto simp: begin_discard_def translation_remove_def Let_def)
    have old: "old \<in># live e" using map_of_in_vals[OF Some] by (simp add: live_def)
    with ok have k: "kind old = Direct" by (simp add: engine_ok_def)
    obtain N where N: "live e = add_mset old N" using old by (metis multi_member_split)
    have "live ?e = N" using live Some N by simp
    with ok' d k N fields show ?thesis by (simp add: e r' step_ok_def slots_held_def)
  qed
qed

lemma read_step_ok:
  assumes ok: "engine_ok e" and s: "fetch_step e slot = (e', r')"
  shows "step_ok e (RFetch slot) e' r'"
proof -
  have i: "ps_inv (pstore e)" using ok by (simp add: engine_ok_def)
  obtain ps res where rd: "read_page (pstore e) slot = (ps, res)" by fastforce
  have ps: "slot_page ps = slot_page (pstore e)" "total_slots ps = total_slots (pstore e)"
    using read_page_same[OF i, of slot] rd by simp_all
  have e: "e' = e\<lparr>pstore := ps\<rparr>" "\<exists>x. r' = Finished x" using s rd by (auto simp: fetch_step_def split: sum.splits)
  have "disk e' = disk e" by (rule disk_cong) (simp_all add: e(1) ps)
  moreover have "engine_ok e'"
    using ok ps ps_inv_cong[OF ps(2)] by (simp add: engine_ok_def e(1) live_def)
  ultimately show ?thesis using e(2) ps by (auto simp: step_ok_def e(1))
qed

lemma begin_write_ok:
  assumes "engine_ok e" "begin_write h e off data = (e', r')"
  shows "step_ok e (WBegin off data) e' r'"
proof -
  have "e' = e\<lparr>pstats := (pstats e)\<lparr>total_writes := total_writes (pstats e) + 1\<rparr>\<rparr>" "r' = WAlloc off (normalize_page data) None"
    using assms by (auto simp: begin_write_def Let_def engine_ok_def)
  with assms(1) show ?thesis by (simp add: step_ok_def disk_def fun_eq_iff split: option.split)
qed

lemma begin_read_ok:
  assumes "engine_ok e" "begin_read e off = (e', r')"
  shows "step_ok e (RBegin off) e' r'"
proof -
  have "e' = e\<lparr>pstats := (pstats e)\<lparr>total_reads := total_reads (pstats e) + 1\<rparr>\<rparr>"
    "\<exists>x. r' = Finished x \<or> (\<exists>slot. r' = RFetch slot)"
    using assms by (auto simp: begin_read_def Let_def split: option.splits)
  with assms(1) show ?thesis by (auto simp: step_ok_def disk_def fun_eq_iff split: option.split)
qed

lemma request_step_ok:
  assumes ok: "engine_ok e" and r: "direct_request (pstore e) r"
    and own: "slots_held e + owned r \<subseteq># mset_set {..<total_slots (pstore e)}"
    and s: "request_step h e r = (e', r')"
  shows "step_ok e r e' r'"
proof (cases r)
  case (WBegin off data)
  with begin_write_ok[OF ok] s show ?thesis by simp
next
  case (WAlloc off pg fpo)
  with alloc_ok[OF ok] r s show ?thesis by simp
next
  case (WStore off pg fpo slot)
  with store_ok[OF ok] r s own show ?thesis by simp
next
  case (WUndo slot err)
  with free_ok[OF ok own, of slot "Failed err"] s show ?thesis by simp
next
  case (WMap off pg ent)
  with map_ok[OF ok] r s show ?thesis by simp
next
  case (Releasing ent)
  with free_ok[OF ok own, of "backend_slot ent" "Done"] r s show ?thesis by (simp add: release_step_def)
next
  case (Freeing slot)
  with free_ok[OF ok own, of slot "Done"] s show ?thesis by simp
next
  case (RBegin off)
  with begin_read_ok[OF ok] s show ?thesis by simp
next
  case (RFetch slot)
  with read_step_ok[OF ok] s show ?thesis by simp
next
  case (DBegin off)
  with discard_ok[OF ok] s show ?thesis by simp
next
  case (Finished x)
  with ok r s show ?thesis by (auto simp: step_ok_def)
qed (use r in simp_all)

end
