(* ===== verification/Concurrent.thy ===== *)
theory Concurrent
  imports Interleave_Laws
begin

text \<open>
  All interleavings of any number of requests on one engine, as the queues of the ublk
  device produce them. New requests arrive at any time, and any request that has begun may
  take the next step. \<open>commit_log\<close> is a history variable: the requests in the order in
  which they changed the translation. In passthrough mode every slot has exactly one owner
  at any time, and the device is what the committed requests make of it, in that order.
\<close>

section \<open>The system\<close>

record system =
  engine :: proxy_engine
  operations :: "engine_op list"
  requests :: "request list"
  commit_log :: "nat list"

definition system_start :: "proxy_engine \<Rightarrow> system" where
  "system_start e = \<lparr>engine = e, operations = [], requests = [], commit_log = []\<rparr>"

definition system_arrive :: "engine_op \<Rightarrow> system \<Rightarrow> system" where
  "system_arrive op s =
     s\<lparr>operations := operations s @ [op], requests := requests s @ [request_of_op op]\<rparr>"

fun commits :: "request \<Rightarrow> bool" where
  "commits (WMap off pg ent) \<longleftrightarrow> True"
| "commits (DBegin off) \<longleftrightarrow> True"
| "commits r \<longleftrightarrow> False"

definition system_advance :: "hash \<Rightarrow> nat \<Rightarrow> system \<Rightarrow> system" where
  "system_advance h i s =
     (case request_step h (engine s) (requests s ! i) of
        (e, r) \<Rightarrow>
          s\<lparr>engine := e, requests := (requests s)[i := r],
            commit_log := commit_log s @ (if commits (requests s ! i) then [i] else [])\<rparr>)"

inductive system_step :: "hash \<Rightarrow> system \<Rightarrow> system \<Rightarrow> bool" for h where
  arrive: "system_step h s (system_arrive op s)"
| advance: "i < length (requests s) \<Longrightarrow> system_step h s (system_advance h i s)"

inductive_cases system_stepE [elim]: "system_step h s s'"

inductive reachable :: "hash \<Rightarrow> proxy_engine \<Rightarrow> system \<Rightarrow> bool" for h e0 where
  start: "reachable h e0 (system_start e0)"
| step: "reachable h e0 s \<Longrightarrow> system_step h s s' \<Longrightarrow> reachable h e0 s'"

text \<open>A schedule names the next event: the arrival of an operation, or a step of a request.\<close>

fun run_schedule :: "hash \<Rightarrow> (engine_op + nat) list \<Rightarrow> system \<Rightarrow> system" where
  "run_schedule h [] s = s"
| "run_schedule h (Inl op # es) s = run_schedule h es (system_arrive op s)"
| "run_schedule h (Inr i # es) s =
     run_schedule h es (if i < length (requests s) then system_advance h i s else s)"

lemma run_schedule_reachable: "reachable h e0 s \<Longrightarrow> reachable h e0 (run_schedule h es s)"
proof (induction h es s rule: run_schedule.induct)
  case (2 h op es s)
  from reachable.step[OF 2(2) arrive] show ?case by (simp add: 2(1))
next
  case (3 h i es s)
  then show ?case using reachable.step[OF 3(2) advance, of i] by simp
qed simp

section \<open>Every slot has one owner\<close>

definition slots_owned :: "system \<Rightarrow> u64 multiset" where
  "slots_owned s = slots_held (engine s) + sum_list (map owned (requests s))"

definition system_inv :: "system \<Rightarrow> bool" where
  "system_inv s \<longleftrightarrow> engine_ok (engine s)
     \<and> list_all (direct_request (pstore (engine s))) (requests s)
     \<and> slots_owned s = mset_set {..<total_slots (pstore (engine s))}"

lemma subset_sum_list: "x \<in> set xs \<Longrightarrow> x \<subseteq># sum_list xs"
  by (induction xs) (auto intro: subset_mset.order_trans mset_subset_eq_add_right)

text \<open>The requests other than number \<open>i\<close>.\<close>

lemma sum_list_at:
  fixes f :: "'a \<Rightarrow> 'b multiset"
  assumes "i < length xs"
  obtains R where "sum_list (map f xs) = f (xs ! i) + R"
    and "\<And>x. sum_list (map f (xs[i := x])) = f x + R"
    and "\<And>j. j < length xs \<Longrightarrow> j \<noteq> i \<Longrightarrow> f (xs ! j) \<subseteq># R"
proof
  let ?R = "sum_list (map f (take i xs)) + sum_list (map f (drop (Suc i) xs))"
  show "sum_list (map f xs) = f (xs ! i) + ?R"
    using assms by (subst id_take_nth_drop[OF assms]) simp
  show "sum_list (map f (xs[i := x])) = f x + ?R" for x
    using assms by (simp add: upd_conv_take_nth_drop)
  fix j assume j: "j < length xs" "j \<noteq> i"
  have "xs ! j \<in> set (take i xs @ drop (Suc i) xs)"
  proof (cases "j < i")
    case True
    with j have "xs ! j \<in> set (take i xs)"
      unfolding in_set_conv_nth using assms by (intro exI[of _ j]) simp
    then show ?thesis by simp
  next
    case False
    with j have "xs ! j \<in> set (drop (Suc i) xs)"
      unfolding in_set_conv_nth using assms by (intro exI[of _ "j - Suc i"]) simp
    then show ?thesis by simp
  qed
  then have "f (xs ! j) \<in> set (map f (take i xs @ drop (Suc i) xs))"
    unfolding set_map by (rule imageI)
  then have "f (xs ! j) \<subseteq># sum_list (map f (take i xs @ drop (Suc i) xs))"
    by (rule subset_sum_list)
  then show "f (xs ! j) \<subseteq># ?R" by simp
qed

lemma direct_request_keep:
  assumes "direct_request ps r"
    and "\<And>slot p. slot \<in># owned r \<Longrightarrow> slot_page ps slot = Some p \<Longrightarrow> slot_page ps' slot = Some p"
  shows "direct_request ps' r"
  using assms by (cases r) auto

lemma advance_step_ok:
  assumes inv: "system_inv s" and i: "i < length (requests s)"
    and st: "request_step h (engine s) (requests s ! i) = (e', r')"
  shows "step_ok (engine s) (requests s ! i) e' r'"
proof -
  obtain R where "sum_list (map owned (requests s)) = owned (requests s ! i) + R"
    by (rule sum_list_at[OF i, of owned]) blast
  then have "slots_held (engine s) + owned (requests s ! i) \<subseteq># mset_set {..<total_slots (pstore (engine s))}"
    using inv by (metis add.assoc mset_subset_eq_add_left slots_owned_def system_inv_def)
  moreover have "direct_request (pstore (engine s)) (requests s ! i)"
    using inv i by (simp add: system_inv_def list_all_length)
  ultimately show ?thesis using request_step_ok inv st by (simp add: system_inv_def)
qed

lemma advance_inv:
  assumes inv: "system_inv s" and i: "i < length (requests s)"
  shows "system_inv (system_advance h i s)"
proof -
  obtain e' r' where st: "request_step h (engine s) (requests s ! i) = (e', r')" by fastforce
  note ok = advance_step_ok[OF inv i st]
  obtain R where R: "sum_list (map owned (requests s)) = owned (requests s ! i) + R"
    "\<And>x. sum_list (map owned ((requests s)[i := x])) = owned x + R"
    "\<And>j. j < length (requests s) \<Longrightarrow> j \<noteq> i \<Longrightarrow> owned (requests s ! j) \<subseteq># R"
    by (rule sum_list_at[OF i, of owned]) blast
  have own: "slots_held (engine s) + (owned (requests s ! i) + R) = mset_set {..<total_slots (pstore (engine s))}"
    using inv R(1) by (simp add: system_inv_def slots_owned_def)
  have disj: "slot \<notin># owned (requests s ! i)" if "slot \<in># R" for slot
  proof
    assume "slot \<in># owned (requests s ! i)"
    then have "1 \<le> count (owned (requests s ! i)) slot" by (simp only: count_greater_eq_one_iff)
    moreover have "1 \<le> count R slot" using that by (simp only: count_greater_eq_one_iff)
    moreover have "count (slots_held (engine s) + (owned (requests s ! i) + R)) slot \<le> 1"
      unfolding own by (simp add: count_mset_set')
    ultimately show False unfolding count_union by linarith
  qed
  have "direct_request (pstore e') ((requests s)[i := r'] ! j)" if j: "j < length (requests s)" for j
  proof (cases "j = i")
    case True
    with ok i show ?thesis by (simp add: step_ok_def)
  next
    case False
    have d: "direct_request (pstore (engine s)) (requests s ! j)"
      using inv j by (simp add: system_inv_def list_all_length)
    have keep: "slot_page (pstore e') slot = Some p"
      if sl: "slot \<in># owned (requests s ! j)" "slot_page (pstore (engine s)) slot = Some p" for slot p
    proof -
      have "slot \<notin># owned (requests s ! i)" using disj R(3)[OF j False] sl(1) by (meson mset_subset_eqD)
      with ok sl(2) show ?thesis by (simp add: step_ok_def)
    qed
    have "direct_request (pstore e') (requests s ! j)"
      by (rule direct_request_keep[OF d]) (rule keep)
    with False show ?thesis by simp
  qed
  moreover have "slots_held e' + (owned r' + R) = mset_set {..<total_slots (pstore e')}"
    using ok own by (simp add: step_ok_def add.assoc[symmetric])
  ultimately show ?thesis
    using ok st R(2)[of r'] by (simp add: system_inv_def system_advance_def slots_owned_def list_all_length step_ok_def)
qed

lemma owned_new [simp]: "owned (request_of_op op) = {#}" "direct_request ps (request_of_op op)"
  by (cases op; simp)+

lemma arrive_inv: "system_inv s \<Longrightarrow> system_inv (system_arrive op s)"
  by (simp add: system_inv_def system_arrive_def slots_owned_def)

lemma reachable_inv:
  assumes "reachable h e0 s" "system_inv (system_start e0)"
  shows "system_inv s"
  using assms by (induction rule: reachable.induct) (auto simp: arrive_inv advance_inv)

lemma reachable_total:
  assumes "reachable h e0 s" "system_inv (system_start e0)"
  shows "total_slots (pstore (engine s)) = total_slots (pstore e0)"
  using assms
proof (induction rule: reachable.induct)
  case start
  then show ?case by (simp add: system_start_def)
next
  case (step s s')
  note inv = reachable_inv[OF step.hyps(1) step.prems]
  from step.hyps(2) show ?case
  proof cases
    case (arrive op)
    with step show ?thesis by (simp add: system_arrive_def)
  next
    case (advance i)
    obtain e' r' where st: "request_step h (engine s) (requests s ! i) = (e', r')" by fastforce
    with advance_step_ok[OF inv advance(2) st] step advance show ?thesis
      by (simp add: system_advance_def step_ok_def)
  qed
qed

lemma fresh_system_inv:
  assumes "engine_new ex dir opened gb maxe bc = Ok e"
  shows "system_inv (system_start e)"
proof -
  note F = engine_new_fields[OF assms]
  have "eng_books (live e) e" using engine_new_inv(1)[OF assms] by (simp add: eng_inv_def)
  note D = eng_booksD[OF this]
  have avail: "sa_avail (slot_alloc e) = {..<total_slots (pstore e)}"
    using F D(4) by (auto simp: slot_allocator_new_def sa_avail_def)
  show ?thesis
    using F D avail by (simp add: system_inv_def system_start_def engine_ok_def slots_owned_def slots_held_def live_def)
qed

section \<open>Writes take effect one after the other\<close>

text \<open>The effect of a committed operation on an ideal device.\<close>

primrec op_effect :: "engine_op \<Rightarrow> (u64 \<Rightarrow> page) \<Rightarrow> u64 \<Rightarrow> page" where
  "op_effect (EWrite off data) f = f(off := padded data)"
| "op_effect (ERead off) f = f"
| "op_effect (EDiscard off) f = f(off := replicate PAGE_SIZE 0)"

text \<open>Where the request of an operation can stand before and after it commits.\<close>

primrec pending :: "engine_op \<Rightarrow> request \<Rightarrow> bool" where
  "pending (EWrite off data) r \<longleftrightarrow>
     (case r of
        WBegin off' d \<Rightarrow> off' = off \<and> d = data
      | WAlloc off' pg fpo \<Rightarrow> off' = off \<and> pg = padded data
      | WStore off' pg fpo slot \<Rightarrow> off' = off \<and> pg = padded data
      | WMap off' pg ent \<Rightarrow> off' = off \<and> pg = padded data
      | WUndo slot err \<Rightarrow> True
      | Finished x \<Rightarrow> \<exists>err. x = Failed err
      | _ \<Rightarrow> False)"
| "pending (ERead off) r \<longleftrightarrow>
     (case r of RBegin off' \<Rightarrow> off' = off | RFetch slot \<Rightarrow> True | Finished x \<Rightarrow> x \<noteq> Done | _ \<Rightarrow> False)"
| "pending (EDiscard off) r \<longleftrightarrow> r = DBegin off"

definition committed :: "engine_op \<Rightarrow> request \<Rightarrow> bool" where
  "committed op r \<longleftrightarrow> (\<forall>off. op \<noteq> ERead off)
     \<and> (case r of Releasing ent \<Rightarrow> True | Freeing slot \<Rightarrow> True | Finished x \<Rightarrow> x = Done | _ \<Rightarrow> False)"

lemma pending_new: "pending op (request_of_op op)"
  by (cases op) simp_all

lemma pending_step:
  assumes p: "pending op r" and d: "direct_request ps r" and e: "passthrough e"
    and st: "request_step h e r = (e', r')"
  shows "if commits r then committed op r' else pending op r'"
proof (cases op)
  case (EWrite off data)
  with p d e st show ?thesis
    by (cases r) (auto simp: begin_write_def alloc_step_def store_step_def map_step_def translation_insert_def
        committed_def Let_def split: prod.splits sum.splits option.splits)
next
  case (ERead off)
  with p st show ?thesis
    by (cases r) (auto simp: begin_read_def fetch_step_def Let_def split: prod.splits sum.splits option.splits)
next
  case (EDiscard off)
  with p st show ?thesis
    by (auto simp: begin_discard_def translation_remove_def committed_def Let_def split: option.splits)
qed

lemma committed_step:
  assumes "committed op r" "request_step h e r = (e', r')"
  shows "\<not> commits r \<and> committed op r'"
  using assms
  by (cases r) (auto simp: committed_def release_step_def split: mapping_kind.splits prod.splits reference_removal.splits)

lemma pending_disk:
  assumes "step_ok e r e' r'" "pending op r"
  shows "disk e' = (if commits r then op_effect op (disk e) else disk e)"
  using assms by (cases op; cases r) (auto simp: step_ok_def)

lemma committed_disk:
  assumes "step_ok e r e' r'" "committed op r"
  shows "disk e' = disk e"
  using assms by (cases r) (auto simp: step_ok_def committed_def)

definition committed_contents :: "system \<Rightarrow> u64 \<Rightarrow> page" where
  "committed_contents s =
     foldl (\<lambda>f i. op_effect (operations s ! i) f) (\<lambda>_. replicate PAGE_SIZE 0) (commit_log s)"

definition request_logged :: "system \<Rightarrow> nat \<Rightarrow> bool" where
  "request_logged s i \<longleftrightarrow>
     (if i \<in> set (commit_log s) then committed (operations s ! i) (requests s ! i)
      else pending (operations s ! i) (requests s ! i))"

definition log_inv :: "system \<Rightarrow> bool" where
  "log_inv s \<longleftrightarrow> length (operations s) = length (requests s)
     \<and> distinct (commit_log s) \<and> set (commit_log s) \<subseteq> {..<length (requests s)}
     \<and> disk (engine s) = committed_contents s
     \<and> (\<forall>i < length (requests s). request_logged s i)"

lemma arrive_log: "log_inv s \<Longrightarrow> log_inv (system_arrive op s)"
proof -
  assume L: "log_inv s"
  then have l: "length (operations s) = length (requests s)" "set (commit_log s) \<subseteq> {..<length (requests s)}"
    by (simp_all add: log_inv_def)
  have "committed_contents (system_arrive op s) = committed_contents s"
    unfolding committed_contents_def system_arrive_def
    using l by (auto simp: nth_append intro!: foldl_cong)
  moreover have "length (requests s) \<notin> set (commit_log s)" using l(2) by auto
  ultimately show ?thesis
    using L by (auto simp: log_inv_def request_logged_def system_arrive_def nth_append less_Suc_eq pending_new l(1))
qed

lemma advance_log:
  assumes L: "log_inv s" and inv: "system_inv s" and i: "i < length (requests s)"
  shows "log_inv (system_advance h i s)"
proof -
  obtain e' r' where st: "request_step h (engine s) (requests s ! i) = (e', r')" by fastforce
  note ok = advance_step_ok[OF inv i st]
  let ?op = "operations s ! i" and ?r = "requests s ! i"
  have pt: "passthrough (engine s)" "direct_request (pstore (engine s)) ?r"
    using inv i by (simp_all add: system_inv_def engine_ok_def list_all_length)
  have l: "length (operations s) = length (requests s)" "distinct (commit_log s)"
    "set (commit_log s) \<subseteq> {..<length (requests s)}" "disk (engine s) = committed_contents s"
    using L by (simp_all add: log_inv_def)
  have others: "request_logged s j" if "j < length (requests s)" for j
    using L that by (simp add: log_inv_def)
  define s' where "s' = system_advance h i s"
  have f: "engine s' = e'" "operations s' = operations s" "requests s' = (requests s)[i := r']"
    "commit_log s' = commit_log s @ (if commits ?r then [i] else [])"
    by (simp_all add: s'_def system_advance_def st)
  have all: "\<forall>j < length (requests s'). request_logged s' j" if me: "request_logged s' i"
  proof (intro allI impI)
    fix j assume "j < length (requests s')"
    with me others[of j] show "request_logged s' j"
      by (cases "j = i") (simp_all add: request_logged_def f)
  qed
  have "log_inv s'"
  proof (cases "i \<in> set (commit_log s)")
    case True
    then have c: "committed ?op ?r" using others[OF i] by (simp add: request_logged_def)
    from committed_step[OF this st] have n: "\<not> commits ?r" "committed ?op r'" by simp_all
    have me: "request_logged s' i" using n i True by (simp add: request_logged_def f)
    have d: "disk e' = committed_contents s'"
      using n(1) committed_disk[OF ok c] l(4) by (simp add: committed_contents_def f)
    have "distinct (commit_log s')" "set (commit_log s') \<subseteq> {..<length (requests s)}"
      using l n(1) by (simp_all add: f)
    with l(1) d all[OF me] show ?thesis by (simp add: log_inv_def f(1,2)) (simp add: f(3))
  next
    case False
    then have p: "pending ?op ?r" using others[OF i] by (simp add: request_logged_def)
    note ps = pending_step[OF p pt(2,1) st]
    have me: "request_logged s' i" using ps i False by (simp add: request_logged_def f)
    have d: "disk e' = committed_contents s'"
      using pending_disk[OF ok p] l(4) by (simp add: committed_contents_def f)
    have "distinct (commit_log s')" "set (commit_log s') \<subseteq> {..<length (requests s)}"
      using l False i by (auto simp: f)
    with l(1) d all[OF me] show ?thesis by (simp add: log_inv_def f(1,2)) (simp add: f(3))
  qed
  then show ?thesis by (simp add: s'_def)
qed

lemma reachable_log:
  assumes "reachable h e0 s" "system_inv (system_start e0)" "translation e0 = []"
  shows "log_inv s"
  using assms
proof (induction rule: reachable.induct)
  case start
  then show ?case
    by (simp add: log_inv_def system_start_def committed_contents_def disk_def fun_eq_iff)
next
  case (step s s')
  with reachable_inv[OF step.hyps(1)] show ?case by (auto simp: arrive_log advance_log)
qed

text \<open>A finished request takes no more effect, and the log only grows: commits respect real time.\<close>

lemma finished_stays:
  assumes "(system_step h)\<^sup>*\<^sup>* s s'" "i < length (requests s)" "requests s ! i = Finished x"
  shows "i < length (requests s') \<and> requests s' ! i = Finished x"
  using assms
proof (induction rule: rtranclp_induct)
  case (step t t')
  then show ?case
    by (auto simp: system_arrive_def system_advance_def nth_append nth_list_update split: prod.splits)
qed simp

lemma log_grows:
  assumes "(system_step h)\<^sup>*\<^sup>* s s'"
  shows "\<exists>l. commit_log s' = commit_log s @ l
    \<and> (\<forall>i \<in> set l. i < length (requests s) \<longrightarrow> (\<forall>x. requests s ! i \<noteq> Finished x))"
  using assms
proof (induction rule: rtranclp_induct)
  case (step t t')
  then obtain l where l: "commit_log t = commit_log s @ l"
    "\<forall>i \<in> set l. i < length (requests s) \<longrightarrow> (\<forall>x. requests s ! i \<noteq> Finished x)" by blast
  from step.hyps(2) show ?case
  proof cases
    case (arrive op)
    with l show ?thesis by (simp add: system_arrive_def)
  next
    case (advance i)
    have new: "requests s ! i \<noteq> Finished x" if "commits (requests t ! i)" "i < length (requests s)" for x
      using finished_stays[OF step.hyps(1) that(2), of x] that(1) by auto
    have "commit_log t' = commit_log s @ l @ (if commits (requests t ! i) then [i] else [])"
      by (simp add: advance system_advance_def l(1) split: prod.split)
    with l(2) new show ?thesis by (intro exI[of _ "l @ (if commits (requests t ! i) then [i] else [])"]) auto
  qed
qed simp

section \<open>Reads\<close>

text \<open>A read is right when its slot still belongs to its offset at the moment it is fetched.\<close>

lemma fetch_mapped:
  assumes "engine_ok e" "map_of (translation e) off = Some ent" "fetch_step e (backend_slot ent) = (e', r)"
  shows "r = Finished (Data (disk e off)) \<or> (\<exists>err. r = Finished (Failed err))"
proof -
  have i: "ps_inv (pstore e)" using assms(1) by (simp add: engine_ok_def)
  obtain ps res where rd: "read_page (pstore e) (backend_slot ent) = (ps, res)" by fastforce
  show ?thesis
  proof (cases res)
    case (Inl err)
    with rd assms(3) show ?thesis by (auto simp: fetch_step_def)
  next
    case (Inr p)
    with rd have "slot_page (pstore e) (backend_slot ent) = Some p" using read_page_ok[OF i] by auto
    with Inr rd assms(2,3) show ?thesis by (auto simp: fetch_step_def disk_def)
  qed
qed

end
