(* ===== verification/Stale_Duplicate.thy ===== *)
theory Stale_Duplicate
  imports Concurrent
begin

text \<open>
  A defect of the duplicate path of \<open>handle_write\<close> under overlapping requests.
  \<open>add_reference\<close> names the fingerprint only, not the slot that \<open>lookup\<close> returned and the
  write has compared: when the fingerprint lost its entry and got a new one in between, the
  reference goes to the new entry and the mapping to the old slot, which holds another page
  by then.
\<close>

section \<open>Running schedules\<close>

abbreviation system_of :: "proxy_engine \<Rightarrow> engine_op list \<Rightarrow> request list \<Rightarrow> nat list \<Rightarrow> system" where
  "system_of e ops rs l \<equiv> \<lparr>engine = e, operations = ops, requests = rs, commit_log = l\<rparr>"

text \<open>The steps of one request in a row.\<close>

lemma run_steps:
  assumes "i < length rs"
  shows "\<exists>l'. run_schedule h (replicate k (Inr i) @ es) (system_of e ops rs l) =
    run_schedule h es (system_of (fst (run_alone k h e (rs ! i))) ops (rs[i := snd (run_alone k h e (rs ! i))]) l')"
  using assms
proof (induction k arbitrary: e rs l)
  case (Suc k)
  obtain e' r where st: "request_step h e (rs ! i) = (e', r)" by fastforce
  obtain l' where "system_advance h i (system_of e ops rs l) = system_of e' ops (rs[i := r]) l'"
    using st by (simp add: system_advance_def)
  then have "run_schedule h (replicate (Suc k) (Inr i) @ es) (system_of e ops rs l) =
      run_schedule h (replicate k (Inr i) @ es) (system_of e' ops (rs[i := r]) l')"
    using Suc.prems by simp
  moreover obtain l'' where "run_schedule h (replicate k (Inr i) @ es) (system_of e' ops (rs[i := r]) l') =
      run_schedule h es (system_of (fst (run_alone k h e' r)) ops (rs[i := snd (run_alone k h e' r)]) l'')"
    using Suc.IH[of "rs[i := r]" e' l'] Suc.prems by (auto simp del: run_schedule.simps)
  ultimately show ?case
    using st by (intro exI[of _ l'']) (simp del: run_schedule.simps)
qed auto

text \<open>A request that runs from its arrival to its end.\<close>

definition whole :: "nat \<Rightarrow> engine_op \<Rightarrow> (engine_op + nat) list" where
  "whole i op = Inl op # replicate 10 (Inr i)"

lemma run_whole:
  assumes "i = length rs" "engine_step h e op = (e', r)"
  shows "\<exists>l'. run_schedule h (whole i op @ es) (system_of e ops rs l) =
    run_schedule h es (system_of e' (ops @ [op]) (rs @ [Finished r]) l')"
proof -
  have "run_schedule h (whole i op @ es) (system_of e ops rs l) =
      run_schedule h (replicate 10 (Inr i) @ es) (system_of e (ops @ [op]) (rs @ [request_of_op op]) l)"
    by (simp only: whole_def append_Cons run_schedule.simps) (simp add: system_arrive_def del: replicate.simps)
  with run_steps[of i "rs @ [request_of_op op]" h 10 es e "ops @ [op]" l] run_alone_atomic[OF assms(2), of 10] assms(1)
  show ?thesis by (auto simp del: run_schedule.simps)
qed

section \<open>The two halves of a duplicate write\<close>

lemma dev_inv_same:
  assumes "dev_inv V e" "translation e' = translation e" "slot_alloc e' = slot_alloc e"
    and "passthrough e' = passthrough e" "tracked (dedup_tab e') = tracked (dedup_tab e)"
    and "max_entries (dedup_tab e') = max_entries (dedup_tab e)" "dt_inv (dedup_tab e')"
    and "slot_page (pstore e') = slot_page (pstore e)" "total_slots (pstore e') = total_slots (pstore e)"
  shows "dev_inv V e'"
  using assms ps_inv_cong[OF assms(9)]
  by (simp add: dev_inv_def eng_inv_def eng_books_def live_def orphaned_def)

text \<open>From the arrival to the comparison with the stored page: nothing is claimed yet.\<close>

lemma run_to_add_reference:
  assumes inv: "dev_inv V e" and mode: "\<not> passthrough e" and hl: "healthy (pstore e)"
    and fp: "fp = fingerprint_page h (padded data)"
    and ent: "map_of (dt_map (dedup_tab e)) fp = Some ent" "entry_prefix ent = page_prefix (padded data)" "backend_offset ent = slot"
    and pg: "slot_page (pstore e) slot = Some (padded data)"
  obtains e' where "run_alone 3 h e (WBegin off data) = (e', WAddRef off (padded data) fp slot)"
    "dev_inv V e'" "healthy (pstore e')" "translation e' = translation e" "slot_alloc e' = slot_alloc e"
    "tracked (dedup_tab e') = tracked (dedup_tab e)" "\<not> passthrough e'"
proof -
  let ?t = "(dedup_tab e)\<lparr>duplicate_hits := duplicate_hits (dedup_tab e) + 1\<rparr>"
  have b: "eng_books (live e) e" using inv by (simp add: dev_inv_def eng_inv_def)
  note D = eng_booksD[OF b]
  have t: "dedup_lookup (dedup_tab e) fp (padded data) = (?t, Duplicate slot)"
    using D(3) ent by (simp add: dedup_lookup_def dt_inv_def)
  obtain ps where ps: "read_page (pstore e) slot = (ps, Ok (padded data))" "healthy ps"
    using read_page_healthy[OF hl D(1) pg] by (cases "read_page (pstore e) slot") simp
  have same: "slot_page ps = slot_page (pstore e)" "total_slots ps = total_slots (pstore e)"
    using read_page_same[OF D(1), of slot] ps(1) by simp_all
  define e' where "e' = e\<lparr>pstats := (pstats e)\<lparr>total_writes := total_writes (pstats e) + 1\<rparr>, dedup_tab := ?t, pstore := ps\<rparr>"
  have tr: "tracked ?t = tracked (dedup_tab e)" by (simp add: tracked_def fun_eq_iff)
  show thesis
  proof (rule that)
    show "run_alone 3 h e (WBegin off data) = (e', WAddRef off (padded data) fp slot)"
      using mode t ps(1) fp
      by (simp add: eval_nat_numeral begin_write_def lookup_step_def verify_step_def Let_def e'_def)
    show "dev_inv V e'"
      by (rule dev_inv_same[OF inv]) (use D(3) tr same in \<open>simp_all add: e'_def\<close>)
  qed (use mode ps(2) tr in \<open>simp_all add: e'_def\<close>)
qed

text \<open>The reference goes to whatever entry the fingerprint has now; the slot stays the old one.\<close>

lemma run_from_add_reference:
  assumes "tracked (dedup_tab e) fp \<noteq> None" "map_of (translation e) off = None"
  obtains e' where "run_alone 2 h e (WAddRef off pg fp slot) = (e', Finished Done)"
    "translation e' = AList.update off (entry_deduplicated fp slot) (translation e)" "pstore e' = pstore e"
proof -
  obtain t where t: "dedup_add_reference (dedup_tab e) fp = (t, True)"
    using assms(1) by (auto simp: dedup_add_reference_def split: option.splits)
  let ?e = "e\<lparr>dedup_tab := t, pstats := (pstats e)\<lparr>duplicate_writes := duplicate_writes (pstats e) + 1\<rparr>,
    translation := AList.update off (entry_deduplicated fp slot) (translation e)\<rparr>"
  show thesis
    by (rule that[of ?e])
       (use t assms(2) in \<open>simp_all add: eval_nat_numeral add_ref_step_def map_step_def translation_insert_def\<close>)
qed

section \<open>The race\<close>

text \<open>
  A write of \<open>p\<close> to \<open>b\<close> finds the page that was written to \<open>a\<close> and compares it. Before it
  takes its reference, \<open>a\<close> is discarded, \<open>q\<close> written to \<open>c\<close> and \<open>p\<close> to \<open>d\<close>.
\<close>

definition stale_schedule :: "u64 \<Rightarrow> u64 \<Rightarrow> u64 \<Rightarrow> u64 \<Rightarrow> u8 list \<Rightarrow> u8 list \<Rightarrow> (engine_op + nat) list" where
  "stale_schedule a b c d p q =
     whole 0 (EWrite a p) @ Inl (EWrite b p) # replicate 3 (Inr 1)
     @ whole 2 (EDiscard a) @ whole 3 (EWrite c q) @ whole 4 (EWrite d p) @ replicate 2 (Inr 1)"

text \<open>A write of an untracked page to an unmapped offset, with its effect on the parts of the engine.\<close>

lemma fresh_page_write:
  assumes inv: "dev_inv V e" and mode: "\<not> passthrough e" and hl: "healthy (pstore e)" and off: "off \<in> V"
    and fp: "fp = fingerprint_page h (padded data)" and un: "tracked (dedup_tab e) fp = None"
    and new: "map_of (translation e) off = None" and al: "allocate (slot_alloc e) = (sa, Some s)"
  obtains e1 where "engine_step h e (EWrite off data) = (e1, Done)"
    "dev_inv V e1" "\<not> passthrough e1" "healthy (pstore e1)" "slot_alloc e1 = sa"
    "translation e1 = AList.update off (entry_deduplicated fp s) (translation e)"
    "tracked (dedup_tab e1) = (tracked (dedup_tab e))(fp \<mapsto> (1, s))"
    "map_of (dt_map (dedup_tab e1)) fp = Some \<lparr>ref_count = 1, backend_offset = s, entry_prefix = page_prefix (padded data)\<rparr>"
    "disk e1 = (disk e)(off := padded data)" "slot_page (pstore e1) s = Some (padded data)"
proof -
  have i: "eng_inv e" using inv by (simp add: dev_inv_def)
  then have b: "eng_books (live e) e" by (simp add: eng_inv_def)
  note D = eng_booksD[OF b]
  have av: "s \<in> sa_avail (slot_alloc e)" by (rule allocate_Some(1)[OF D(2) al])
  then have room: "has_room (dedup_tab e)" using dev_roomy[OF inv] mode by (auto simp: roomy_def)
  from av have "sa_avail (slot_alloc e) \<noteq> {}" by auto
  then obtain e1 where w: "handle_write h e off data = (e1, Ok ())"
    using handle_write_live[OF i _ hl, of h off data] by (cases "handle_write h e off data") simp
  note W = dev_write[OF inv off, of h data, unfolded w, simplified]
  obtain s' n where U: "allocate (slot_alloc e) = (slot_alloc e1, Some s')"
    "translation e1 = AList.update off (entry_deduplicated fp s') (translation e)"
    "dedup_tab e1 = dedup_track ((dedup_tab e)\<lparr>bloom_false_positives := n\<rparr>) fp (padded data) s'"
    by (rule write_untracked_engine[OF mode room fp un new w])
  have s: "s' = s" "slot_alloc e1 = sa" using U(1) al by simp_all
  have d: "disk e1 = (disk e)(off := padded data)" using W by simp
  have b1: "eng_books (live e1) e1" using W by (simp add: dev_inv_def eng_inv_def)
  have m: "map_of (translation e1) off = Some (entry_deduplicated fp s)" using U(2) s(1) by simp
  then have "entry_deduplicated fp s \<in># live e1" by (simp add: live_def map_of_in_vals)
  from eng_booksD(7)[OF b1 this] obtain x where x: "slot_page (pstore e1) s = Some x"
    by (auto simp: entry_deduplicated_def)
  with d m have "x = padded data" by (auto simp: disk_def entry_deduplicated_def fun_eq_iff dest: spec[of _ off])
  moreover have "tracked ((dedup_tab e)\<lparr>bloom_false_positives := n\<rparr>) = tracked (dedup_tab e)"
    by (simp add: tracked_def fun_eq_iff)
  then have "tracked (dedup_tab e1) = (tracked (dedup_tab e))(fp \<mapsto> (1, s))"
    using U(3) s(1) by simp
  moreover have "map_of (dt_map (dedup_tab e1)) fp =
      Some \<lparr>ref_count = 1, backend_offset = s, entry_prefix = page_prefix (padded data)\<rparr>"
    using U(3) s(1) by (simp add: dedup_track_def)
  moreover have "\<not> passthrough e1"
    using mode handle_write_inv(1)[OF i dev_inv_length(1)[OF inv], of h data off] inv w
    by (auto simp: write_effect_def config_of_def dev_inv_def)
  ultimately show thesis
    using w W U(2) s d x handle_write_healthy[OF hl, of h off data]
    by (intro that[of e1]) simp_all
qed

text \<open>The discard of the only user of a slot: the fingerprint is forgotten, the slot free.\<close>

lemma last_discard:
  assumes inv: "dev_inv V e" and m: "map_of (translation e) off = Some (entry_deduplicated fp s)"
    and t: "tracked (dedup_tab e) fp = Some (1, s)" and s: "s < max_slots (slot_alloc e)"
  shows "slot_alloc (handle_discard e off) = (slot_alloc e)\<lparr>free_slots := free_slots (slot_alloc e) @ [s]\<rparr>"
    "tracked (dedup_tab (handle_discard e off)) = (tracked (dedup_tab e))(fp := None)"
    "passthrough (handle_discard e off) = passthrough e" "pstore (handle_discard e off) = pstore e"
proof -
  obtain t' where "dedup_remove_reference (dedup_tab e) fp = (t', Removed s)"
    "tracked t' = (tracked (dedup_tab e))(fp := None)"
    using rt.remove_last[OF t] by (cases "dedup_remove_reference (dedup_tab e) fp") auto
  with m s show "slot_alloc (handle_discard e off) = (slot_alloc e)\<lparr>free_slots := free_slots (slot_alloc e) @ [s]\<rparr>"
    "tracked (dedup_tab (handle_discard e off)) = (tracked (dedup_tab e))(fp := None)"
    "passthrough (handle_discard e off) = passthrough e" "pstore (handle_discard e off) = pstore e"
    by (simp_all add: handle_discard_def translation_remove_def release_mapping_def free_slot_def
        free_slot_of_def entry_deduplicated_def Let_def)
qed

text \<open>
  The engine after each part of the schedule, for a fresh engine in deduplicating mode:
  \<open>e2\<close> when the page has been compared, \<open>e5\<close> when the two other writes are done.
\<close>

lemma compared_engine:
  assumes inv: "dev_inv V e" and e: "\<not> passthrough e" "healthy (pstore e)" "translation e = []"
    "tracked (dedup_tab e) = Map.empty" "slot_alloc e = \<lparr>free_slots = [], next_slot = 0, max_slots = n\<rparr>"
    and n: "0 < n" and a: "a \<in> V" and f: "f = fingerprint_page h (padded p)"
  obtains e1 e2 where "engine_step h e (EWrite a p) = (e1, Done)"
    "run_alone 3 h e1 (WBegin b p) = (e2, WAddRef b (padded p) f 0)"
    "dev_inv V e2" "\<not> passthrough e2" "healthy (pstore e2)" "translation e2 = [(a, entry_deduplicated f 0)]"
    "tracked (dedup_tab e2) = [f \<mapsto> (1, 0)]" "slot_alloc e2 = \<lparr>free_slots = [], next_slot = 1, max_slots = n\<rparr>"
proof -
  have al: "allocate (slot_alloc e) = (\<lparr>free_slots = [], next_slot = 1, max_slots = n\<rparr>, Some 0)"
    using allocate_fresh[of "slot_alloc e"] e(5) n by simp
  have un: "tracked (dedup_tab e) f = None" "map_of (translation e) a = None" using e(3,4) by (simp_all del: tracked_eq_None)
  obtain e1 where e1: "engine_step h e (EWrite a p) = (e1, Done)"
    "dev_inv V e1" "\<not> passthrough e1" "healthy (pstore e1)" "slot_alloc e1 = \<lparr>free_slots = [], next_slot = 1, max_slots = n\<rparr>"
    "translation e1 = AList.update a (entry_deduplicated f 0) (translation e)"
    "tracked (dedup_tab e1) = (tracked (dedup_tab e))(f \<mapsto> (1, 0))"
    "map_of (dt_map (dedup_tab e1)) f = Some \<lparr>ref_count = 1, backend_offset = 0, entry_prefix = page_prefix (padded p)\<rparr>"
    "slot_page (pstore e1) 0 = Some (padded p)"
    by (rule fresh_page_write[OF inv e(1,2) a f un al])
  obtain e2 where e2: "run_alone 3 h e1 (WBegin b p) = (e2, WAddRef b (padded p) f 0)"
    "dev_inv V e2" "healthy (pstore e2)" "translation e2 = translation e1" "slot_alloc e2 = slot_alloc e1"
    "tracked (dedup_tab e2) = tracked (dedup_tab e1)" "\<not> passthrough e2"
    by (rule run_to_add_reference[OF e1(2-4) f e1(8) _ _ e1(9), of b]) simp_all
  show thesis
    by (rule that[OF e1(1) e2(1,2,7,3)]) (simp_all add: e2(4-6) e1(5-7) e(3,4))
qed

lemma moved_engine:
  assumes inv: "dev_inv V e2" and e: "\<not> passthrough e2" "healthy (pstore e2)" "translation e2 = [(a, entry_deduplicated f 0)]"
    "tracked (dedup_tab e2) = [f \<mapsto> (1, 0)]" "slot_alloc e2 = \<lparr>free_slots = [], next_slot = 1, max_slots = n\<rparr>"
    and n: "1 < n" and cd: "c \<in> V" "d \<in> V" "c \<noteq> d"
    and fg: "f = fingerprint_page h (padded p)" "g = fingerprint_page h (padded q)" "f \<noteq> g"
  obtains e4 e5 where "engine_step h (handle_discard e2 a) (EWrite c q) = (e4, Done)"
    "engine_step h e4 (EWrite d p) = (e5, Done)" "tracked (dedup_tab e5) f \<noteq> None"
    "translation e5 = [(c, entry_deduplicated g 0), (d, entry_deduplicated f 1)]"
    "slot_page (pstore e5) 0 = Some (padded q)"
proof -
  let ?e3 = "handle_discard e2 a"
  have "(0 :: u64) < n" using n by (simp add: word_less_nat_alt)
  then have m: "map_of (translation e2) a = Some (entry_deduplicated f 0)" "tracked (dedup_tab e2) f = Some (1, 0)"
    "0 < max_slots (slot_alloc e2)" using e by simp_all
  note last = last_discard[OF inv m]
  have tr3: "translation ?e3 = []"
    using discard_last_reference(2)[OF m(1) _ m(2,3)] e(3) by (simp add: entry_deduplicated_def)
  have un: "tracked (dedup_tab ?e3) g = None" "map_of (translation ?e3) c = None"
    using last(2) e(4) tr3 by (simp_all del: tracked_eq_None)
  have al: "allocate (slot_alloc ?e3) = (\<lparr>free_slots = [], next_slot = 1, max_slots = n\<rparr>, Some 0)"
    using allocate_pop[of "slot_alloc ?e3" 0 "[]"] last(1) e(5) by simp
  have e3: "\<not> passthrough ?e3" "healthy (pstore ?e3)" using last(3,4) e(1,2) by simp_all
  obtain e4 where e4: "engine_step h ?e3 (EWrite c q) = (e4, Done)"
    "dev_inv V e4" "\<not> passthrough e4" "healthy (pstore e4)" "slot_alloc e4 = \<lparr>free_slots = [], next_slot = 1, max_slots = n\<rparr>"
    "translation e4 = AList.update c (entry_deduplicated g 0) (translation ?e3)"
    "tracked (dedup_tab e4) = (tracked (dedup_tab ?e3))(g \<mapsto> (1, 0))" "disk e4 = (disk ?e3)(c := padded q)"
    by (rule fresh_page_write[OF dev_discard[OF inv] e3 cd(1) fg(2) un al])
  have un4: "tracked (dedup_tab e4) f = None" "map_of (translation e4) d = None"
    using e4(6,7) last(2) e(4) tr3 fg(3) cd(3) by (simp_all del: tracked_eq_None)
  have al4: "allocate (slot_alloc e4) = (\<lparr>free_slots = [], next_slot = 1 + 1, max_slots = n\<rparr>, Some 1)"
    using allocate_fresh[of "slot_alloc e4"] e4(5) n by simp
  obtain e5 where e5: "engine_step h e4 (EWrite d p) = (e5, Done)" "dev_inv V e5"
    "translation e5 = AList.update d (entry_deduplicated f 1) (translation e4)"
    "tracked (dedup_tab e5) = (tracked (dedup_tab e4))(f \<mapsto> (1, 1))" "disk e5 = (disk e4)(d := padded p)"
    by (rule fresh_page_write[OF e4(2-4) cd(2) fg(1) un4 al4])
  have tr5: "translation e5 = [(c, entry_deduplicated g 0), (d, entry_deduplicated f 1)]"
    using e5(3) e4(6) tr3 cd(3) by simp
  then have m5: "map_of (translation e5) c = Some (entry_deduplicated g 0)" by simp
  then have "entry_deduplicated g 0 \<in># live e5" by (simp add: live_def map_of_in_vals)
  moreover have "eng_books (live e5) e5" using e5(2) by (simp add: dev_inv_def eng_inv_def)
  ultimately obtain x where x: "slot_page (pstore e5) 0 = Some x"
    using eng_booksD(7) by (fastforce simp: entry_deduplicated_def)
  have "disk e5 c = padded q" using e5(5) e4(8) cd(3) by simp
  then have "slot_page (pstore e5) 0 = Some (padded q)" using m5 x by (simp add: disk_def entry_deduplicated_def)
  from that[OF e4(1) e5(1) _ tr5 this] e5(4) show thesis by (simp del: tracked_eq_None)
qed

lemma stale_run:
  assumes inv: "dev_inv {a, b, c, d} e" and e: "\<not> passthrough e" "healthy (pstore e)" "translation e = []"
    "tracked (dedup_tab e) = Map.empty" "slot_alloc e = \<lparr>free_slots = [], next_slot = 0, max_slots = n\<rparr>" "1 < n"
    and dist: "distinct [a, b, c, d]"
    and fp: "fingerprint_page h (padded p) \<noteq> fingerprint_page h (padded q)"
  shows "\<exists>e' l. run_schedule h (stale_schedule a b c d p q) (system_start e) =
      system_of e' [EWrite a p, EWrite b p, EDiscard a, EWrite c q, EWrite d p] (replicate 5 (Finished Done)) l
    \<and> disk e' b = padded q"
proof -
  let ?f = "fingerprint_page h (padded p)" and ?g = "fingerprint_page h (padded q)" and ?r = "Finished Done"
  let ?run = "\<lambda>es e ops rs l. run_schedule h es (system_of e ops rs l)"
  let ?w5 = "replicate 2 (Inr 1) :: (engine_op + nat) list"
  let ?w4 = "whole 4 (EWrite d p) @ ?w5"
  let ?w3 = "whole 3 (EWrite c q) @ ?w4"
  let ?w2 = "whole 2 (EDiscard a) @ ?w3"
  let ?w1 = "Inl (EWrite b p) # replicate 3 (Inr 1) @ ?w2"
  have n: "0 < n" using e(6) by (simp add: word_less_nat_alt)
  obtain e1 e2 where s1: "engine_step h e (EWrite a p) = (e1, Done)"
    "run_alone 3 h e1 (WBegin b p) = (e2, WAddRef b (padded p) ?f 0)"
    and e2: "dev_inv {a, b, c, d} e2" "\<not> passthrough e2" "healthy (pstore e2)" "translation e2 = [(a, entry_deduplicated ?f 0)]"
    "tracked (dedup_tab e2) = [?f \<mapsto> (1, 0)]" "slot_alloc e2 = \<lparr>free_slots = [], next_slot = 1, max_slots = n\<rparr>"
    by (rule compared_engine[OF inv e(1-5) n _ refl, of a h p b]) simp_all
  obtain e4 e5 where s4: "engine_step h (handle_discard e2 a) (EWrite c q) = (e4, Done)"
    "engine_step h e4 (EWrite d p) = (e5, Done)"
    and e5: "tracked (dedup_tab e5) ?f \<noteq> None" "translation e5 = [(c, entry_deduplicated ?g 0), (d, entry_deduplicated ?f 1)]"
    "slot_page (pstore e5) 0 = Some (padded q)"
    by (rule moved_engine[OF e2 e(6) _ _ _ refl refl fp, of c d]) (use dist in simp_all)
  have "map_of (translation e5) b = None" using e5(2) dist by simp
  then obtain e6 where s6: "run_alone 2 h e5 (WAddRef b (padded p) ?f 0) = (e6, ?r)"
    and e6: "translation e6 = AList.update b (entry_deduplicated ?f 0) (translation e5)" "pstore e6 = pstore e5"
    by (rule run_from_add_reference[OF e5(1)])
  have d6: "disk e6 b = padded q" using e6 e5(3) by (simp add: disk_def entry_deduplicated_def)
  let ?s1 = "[EWrite a p]" let ?s2 = "[EWrite a p, EWrite b p]" let ?s3 = "[EWrite a p, EWrite b p, EDiscard a]"
  let ?s4 = "[EWrite a p, EWrite b p, EDiscard a, EWrite c q]"
  let ?s5 = "[EWrite a p, EWrite b p, EDiscard a, EWrite c q, EWrite d p]"
  let ?q = "WAddRef b (padded p) ?f 0"
  have r1: "\<exists>l. ?run (whole 0 (EWrite a p) @ ?w1) e [] [] [] = ?run ?w1 e1 ?s1 [?r] l"
    using run_whole[OF _ s1(1), of 0 "[]" ?w1 "[]" "[]"] by simp
  have r2: "\<exists>l'. ?run ?w1 e1 ?s1 [?r] l = ?run ?w2 e2 ?s2 [?r, ?q] l'" for l
    using run_steps[of 1 "[?r, WBegin b p]" h 3 ?w2 e1 ?s2 l] s1(2)
    by (simp add: system_arrive_def del: replicate.simps replicate_Suc)
  have r3: "\<exists>l'. ?run ?w2 e2 ?s2 [?r, ?q] l = ?run ?w3 (handle_discard e2 a) ?s3 [?r, ?q, ?r] l'" for l
    using run_whole[of 2 "[?r, ?q]" h e2 "EDiscard a" _ _ ?w3 ?s2 l] by simp
  have r4: "\<exists>l'. ?run ?w3 (handle_discard e2 a) ?s3 [?r, ?q, ?r] l = ?run ?w4 e4 ?s4 [?r, ?q, ?r, ?r] l'" for l
    using run_whole[OF _ s4(1), of 3 "[?r, ?q, ?r]" ?w4 ?s3 l] by simp
  have r5: "\<exists>l'. ?run ?w4 e4 ?s4 [?r, ?q, ?r, ?r] l = ?run ?w5 e5 ?s5 [?r, ?q, ?r, ?r, ?r] l'" for l
    using run_whole[OF _ s4(2), of 4 "[?r, ?q, ?r, ?r]" ?w5 ?s4 l] by simp
  have r6: "\<exists>l'. ?run ?w5 e5 ?s5 [?r, ?q, ?r, ?r, ?r] l = ?run [] e6 ?s5 (replicate 5 ?r) l'" for l
    using run_steps[of 1 "[?r, ?q, ?r, ?r, ?r]" h 2 "[]" e5 ?s5 l] s6 by (simp add: eval_nat_numeral)
  have "\<exists>l. ?run (whole 0 (EWrite a p) @ ?w1) e [] [] [] = ?run [] e6 ?s5 (replicate 5 ?r) l"
    using r1 r2 r3 r4 r5 r6 by metis
  with d6 show ?thesis by (simp add: stale_schedule_def system_start_def del: replicate.simps) blast
qed

end
