(* ===== verification/Dedup_Steps.thy ===== *)
theory Dedup_Steps
  imports Dedup_Laws
begin

text \<open>
  The accesses inside the methods of \<open>DedupTable\<close> in \<open>crates/swap-proxy/src/dedup.rs\<close>.
  The table has no lock of its own: the map is a \<open>DashMap\<close>, the bits and counters are
  atomics, and only the LRU list has a mutex. A \<open>table_call\<close> is where a call stands, and
  one step is one access; a counter or tick belongs to the access before or after it. The
  read guard that \<open>add_reference\<close> holds while it takes the LRU lock is not modelled: it
  excludes some interleavings, and the theorems hold for more than can happen.
\<close>

section \<open>Calls and their accesses\<close>

datatype table_op =
    OpLookup fingerprint "u8 list"
  | OpInsert fingerprint "u8 list" u64
  | OpAdd fingerprint
  | OpRemove fingerprint

datatype table_result = RLookup lookup_result | RInsert bool | RAdd bool | RRemoval reference_removal

datatype table_call =
    Idle
  | LBloom fingerprint "u8 list" "usize list"
  | IContains fingerprint "u8 list" u64
  | IFull fingerprint "u8 list" u64
  | ISort fingerprint "u8 list" u64
  | IEvict fingerprint "u8 list" u64 "fingerprint list"
  | IUntrack fingerprint "u8 list" u64 fingerprint
  | IMap fingerprint "u8 list" u64
  | IBloom fingerprint "usize list"
  | IPush fingerprint u64
  | AGet fingerprint
  | ATouch fingerprint u64
  | RRemove fingerprint
  | RRetain fingerprint u64
  | Returned table_result

text \<open>The loop over the Bloom bits; the map is asked only when all of them are set.\<close>

definition bloom_step :: "dedup_table \<Rightarrow> fingerprint \<Rightarrow> u8 list \<Rightarrow> usize list \<Rightarrow> dedup_table \<times> table_call" where
  "bloom_step t fp data is =
     (case is of
        i # rest \<Rightarrow>
          (t, if bloom_test (bloom_bits (dt_bloom t)) i then LBloom fp data rest else Returned (RLookup Miss))
      | [] \<Rightarrow>
          (case map_of (dt_map t) fp of
             Some entry \<Rightarrow>
               if verify_page_prefix (entry_prefix entry) data
               then (t\<lparr>duplicate_hits := duplicate_hits t + 1\<rparr>, Returned (RLookup (Duplicate (backend_offset entry))))
               else (t\<lparr>bloom_false_positives := bloom_false_positives t + 1\<rparr>, Returned (RLookup Miss))
           | None \<Rightarrow> (t\<lparr>bloom_false_positives := bloom_false_positives t + 1\<rparr>, Returned (RLookup Miss))))"

definition contains_step :: "dedup_table \<Rightarrow> fingerprint \<Rightarrow> u8 list \<Rightarrow> u64 \<Rightarrow> dedup_table \<times> table_call" where
  "contains_step t fp data off =
     (t, if map_of (dt_map t) fp \<noteq> None then Returned (RInsert False) else IFull fp data off)"

definition full_step :: "dedup_table \<Rightarrow> fingerprint \<Rightarrow> u8 list \<Rightarrow> u64 \<Rightarrow> dedup_table \<times> table_call" where
  "full_step t fp data off =
     (t, if unat (max_entries t) \<le> length (dt_map t) then ISort fp data off else IMap fp data off)"

definition sort_step :: "dedup_table \<Rightarrow> fingerprint \<Rightarrow> u8 list \<Rightarrow> u64 \<Rightarrow> dedup_table \<times> table_call" where
  "sort_step t fp data off =
     (if lru t = [] then (t, Returned (RInsert False))
      else let sorted = sort_key snd (lru t)
           in (t\<lparr>lru := sorted\<rparr>, IEvict fp data off (map fst sorted)))"

definition evict_step ::
    "dedup_table \<Rightarrow> fingerprint \<Rightarrow> u8 list \<Rightarrow> u64 \<Rightarrow> fingerprint list \<Rightarrow> dedup_table \<times> table_call" where
  "evict_step t fp data off candidates =
     (case candidates of
        [] \<Rightarrow> (t, Returned (RInsert False))
      | victim # rest \<Rightarrow>
          (case map_of (dt_map t) victim of
             Some entry \<Rightarrow>
               if ref_count entry \<le> 1
               then (t\<lparr>dt_map := AList.delete victim (dt_map t)\<rparr>, IUntrack fp data off victim)
               else (t, IEvict fp data off rest)
           | None \<Rightarrow> (t, IEvict fp data off rest)))"

definition untrack_step ::
    "dedup_table \<Rightarrow> fingerprint \<Rightarrow> u8 list \<Rightarrow> u64 \<Rightarrow> fingerprint \<Rightarrow> dedup_table \<times> table_call" where
  "untrack_step t fp data off victim =
     (t\<lparr>evictions := evictions t + 1, lru := lru_retain victim (lru t)\<rparr>, IMap fp data off)"

definition map_insert_step :: "dedup_table \<Rightarrow> fingerprint \<Rightarrow> u8 list \<Rightarrow> u64 \<Rightarrow> dedup_table \<times> table_call" where
  "map_insert_step t fp data off =
     (t\<lparr>dt_map := AList.update fp
          \<lparr>ref_count = 1, backend_offset = off, entry_prefix = page_prefix data\<rparr> (dt_map t)\<rparr>,
      IBloom fp (bloom_indices fp (bloom_num_bits (dt_bloom t))))"

definition bloom_insert_step :: "dedup_table \<Rightarrow> fingerprint \<Rightarrow> usize list \<Rightarrow> dedup_table \<times> table_call" where
  "bloom_insert_step t fp is =
     (case is of
        i # rest \<Rightarrow>
          (t\<lparr>dt_bloom := (dt_bloom t)\<lparr>bloom_bits := bloom_set (bloom_bits (dt_bloom t)) i\<rparr>\<rparr>, IBloom fp rest)
      | [] \<Rightarrow> (t\<lparr>unique_pages := unique_pages t + 1, dt_tick := dt_tick t + 1\<rparr>, IPush fp (dt_tick t)))"

definition push_step :: "dedup_table \<Rightarrow> fingerprint \<Rightarrow> u64 \<Rightarrow> dedup_table \<times> table_call" where
  "push_step t fp now = (t\<lparr>lru := lru t @ [(fp, now)]\<rparr>, Returned (RInsert True))"

definition reference_step :: "dedup_table \<Rightarrow> fingerprint \<Rightarrow> dedup_table \<times> table_call" where
  "reference_step t fp =
     (case map_of (dt_map t) fp of
        Some entry \<Rightarrow>
          (t\<lparr>dt_map := AList.update fp (entry\<lparr>ref_count := ref_count entry + 1\<rparr>) (dt_map t),
             dt_tick := dt_tick t + 1\<rparr>, ATouch fp (dt_tick t))
      | None \<Rightarrow> (t, Returned (RAdd False)))"

definition touch_step :: "dedup_table \<Rightarrow> fingerprint \<Rightarrow> u64 \<Rightarrow> dedup_table \<times> table_call" where
  "touch_step t fp now = (t\<lparr>lru := lru_touch fp now (lru t)\<rparr>, Returned (RAdd True))"

text \<open>\<open>remove_if\<close> decrements and removes under one lock of the map.\<close>

definition remove_step :: "dedup_table \<Rightarrow> fingerprint \<Rightarrow> dedup_table \<times> table_call" where
  "remove_step t fp =
     (case map_of (dt_map t) fp of
        Some entry \<Rightarrow>
          if ref_count entry \<le> 1
          then (t\<lparr>dt_map := AList.delete fp (dt_map t)\<rparr>, RRetain fp (backend_offset entry))
          else (t\<lparr>dt_map := AList.update fp (entry\<lparr>ref_count := ref_count entry - 1\<rparr>) (dt_map t)\<rparr>,
                Returned (RRemoval StillReferenced))
      | None \<Rightarrow> (t, Returned (RRemoval NotTracked)))"

definition retain_step :: "dedup_table \<Rightarrow> fingerprint \<Rightarrow> u64 \<Rightarrow> dedup_table \<times> table_call" where
  "retain_step t fp slot = (t\<lparr>lru := lru_retain fp (lru t)\<rparr>, Returned (RRemoval (Removed slot)))"

primrec call_step :: "dedup_table \<Rightarrow> table_call \<Rightarrow> dedup_table \<times> table_call" where
  "call_step t Idle = (t, Idle)"
| "call_step t (LBloom fp data is) = bloom_step t fp data is"
| "call_step t (IContains fp data off) = contains_step t fp data off"
| "call_step t (IFull fp data off) = full_step t fp data off"
| "call_step t (ISort fp data off) = sort_step t fp data off"
| "call_step t (IEvict fp data off candidates) = evict_step t fp data off candidates"
| "call_step t (IUntrack fp data off victim) = untrack_step t fp data off victim"
| "call_step t (IMap fp data off) = map_insert_step t fp data off"
| "call_step t (IBloom fp is) = bloom_insert_step t fp is"
| "call_step t (IPush fp now) = push_step t fp now"
| "call_step t (AGet fp) = reference_step t fp"
| "call_step t (ATouch fp now) = touch_step t fp now"
| "call_step t (RRemove fp) = remove_step t fp"
| "call_step t (RRetain fp slot) = retain_step t fp slot"
| "call_step t (Returned r) = (t, Returned r)"

primrec begin_call :: "dedup_table \<Rightarrow> table_op \<Rightarrow> table_call" where
  "begin_call t (OpLookup fp data) = LBloom fp data (bloom_indices fp (bloom_num_bits (dt_bloom t)))"
| "begin_call t (OpInsert fp data off) = IContains fp data off"
| "begin_call t (OpAdd fp) = AGet fp"
| "begin_call t (OpRemove fp) = RRemove fp"

section \<open>A call that runs alone\<close>

primrec table_method :: "dedup_table \<Rightarrow> table_op \<Rightarrow> dedup_table \<times> table_result" where
  "table_method t (OpLookup fp data) = map_prod id RLookup (dedup_lookup t fp data)"
| "table_method t (OpInsert fp data off) = map_prod id RInsert (dedup_insert t fp data off)"
| "table_method t (OpAdd fp) = map_prod id RAdd (dedup_add_reference t fp)"
| "table_method t (OpRemove fp) = map_prod id RRemoval (dedup_remove_reference t fp)"

fun run_call :: "nat \<Rightarrow> dedup_table \<Rightarrow> table_call \<Rightarrow> dedup_table \<times> table_call" where
  "run_call 0 t c = (t, c)"
| "run_call (Suc n) t c = (case call_step t c of (t', c') \<Rightarrow> run_call n t' c')"

lemma run_returned [simp]: "run_call n t (Returned r) = (t, Returned r)"
  by (induction n) simp_all

lemma run_add: "run_call (m + n) t c = (case run_call m t c of (t', c') \<Rightarrow> run_call n t' c')"
  by (induction m arbitrary: t c) (auto split: prod.splits)

text \<open>The loops over the Bloom bits and over the eviction candidates.\<close>

lemma run_bloom_test:
  "run_call (Suc (length is)) t (LBloom fp data is) =
     (if list_all (bloom_test (bloom_bits (dt_bloom t))) is then bloom_step t fp data []
      else (t, Returned (RLookup Miss)))"
  by (induction "is") (simp_all add: bloom_step_def split: option.split)

lemma run_bloom_set:
  "run_call (length is) t (IBloom fp is) =
     (t\<lparr>dt_bloom := (dt_bloom t)\<lparr>bloom_bits := foldl bloom_set (bloom_bits (dt_bloom t)) is\<rparr>\<rparr>, IBloom fp [])"
  by (induction "is" arbitrary: t) (simp_all add: bloom_insert_step_def)

lemma run_evict:
  "\<exists>n. n \<le> Suc (length cs) + 1 \<and> run_call n t (IEvict fp data off cs) =
     (case evict_loop cs t of
        (True, t') \<Rightarrow> (t', IMap fp data off)
      | (False, t') \<Rightarrow> (t', Returned (RInsert False)))"
proof (induction cs)
  case Nil
  then show ?case by (intro exI[of _ 1]) (simp add: evict_step_def)
next
  case (Cons v cs)
  show ?case
  proof (cases "\<exists>e. map_of (dt_map t) v = Some e \<and> ref_count e \<le> 1")
    case True
    then show ?thesis
      by (intro exI[of _ 2]) (auto simp: evict_step_def untrack_step_def numeral_2_eq_2)
  next
    case False
    then have "call_step t (IEvict fp data off (v # cs)) = (t, IEvict fp data off cs)"
      "evict_loop (v # cs) t = evict_loop cs t"
      by (auto simp: evict_step_def split: option.split)
    with Cons obtain n where "n \<le> Suc (length cs) + 1" "run_call (Suc n) t (IEvict fp data off (v # cs)) =
     (case evict_loop (v # cs) t of (True, t') \<Rightarrow> (t', IMap fp data off) | (False, t') \<Rightarrow> (t', Returned (RInsert False)))"
      by auto
    then show ?thesis by (intro exI[of _ "Suc n"]) simp
  qed
qed

lemma run_track:
  "run_call 6 t (IMap fp data off) = (dedup_track t fp data off, Returned (RInsert True))"
proof -
  let ?t = "t\<lparr>dt_map := AList.update fp \<lparr>ref_count = 1, backend_offset = off, entry_prefix = page_prefix data\<rparr> (dt_map t)\<rparr>"
  let ?is = "bloom_indices fp (bloom_num_bits (dt_bloom t))"
  have l: "length ?is = 3" by (simp add: bloom_indices_def Let_def)
  have "run_call 6 t (IMap fp data off) = run_call (length ?is + 2) ?t (IBloom fp ?is)"
    by (simp add: map_insert_step_def eval_nat_numeral l)
  also have "\<dots> = run_call 2 (?t\<lparr>dt_bloom := bloom_insert (dt_bloom t) fp\<rparr>) (IBloom fp [])"
    unfolding run_add run_bloom_set by (simp add: bloom_insert_def)
  also have "\<dots> = (dedup_track t fp data off, Returned (RInsert True))"
    by (simp add: bloom_insert_step_def push_step_def dedup_track_def numeral_2_eq_2)
  finally show ?thesis .
qed

text \<open>\<open>call_ends k x y\<close>: from \<open>x\<close>, \<open>k\<close> or more steps end in the table and result \<open>y\<close>.\<close>

definition call_ends :: "nat \<Rightarrow> dedup_table \<times> table_call \<Rightarrow> dedup_table \<times> table_result \<Rightarrow> bool" where
  "call_ends k x y \<longleftrightarrow> (\<forall>n \<ge> k. run_call n (fst x) (snd x) = (fst y, Returned (snd y)))"

lemma ends_returned [simp]: "call_ends k (t, Returned r) (t, r)"
  by (simp add: call_ends_def)

lemma ends_run:
  assumes "run_call m t c = x" "call_ends k x y"
  shows "call_ends (m + k) (t, c) y"
  unfolding call_ends_def
proof (intro allI impI)
  fix n assume "m + k \<le> n"
  then obtain j where "n = m + j" "k \<le> j" using le_Suc_ex by (metis add_le_cancel_left add_leD1 le_add_diff_inverse)
  with assms show "run_call n (fst (t, c)) (snd (t, c)) = (fst y, Returned (snd y))"
    by (cases x) (simp add: run_add call_ends_def)
qed

lemma ends_more: "call_ends k x y \<Longrightarrow> k \<le> l \<Longrightarrow> call_ends l x y"
  by (simp add: call_ends_def)

lemma ends_lookup: "call_ends 4 (t, begin_call t (OpLookup fp data)) (table_method t (OpLookup fp data))"
proof -
  let ?is = "bloom_indices fp (bloom_num_bits (dt_bloom t))"
  have "Suc (length ?is) = 4" by (simp add: bloom_indices_def Let_def)
  with run_bloom_test[of ?is t fp data]
  have r: "run_call 4 t (LBloom fp data ?is) = (if might_contain (dt_bloom t) fp then bloom_step t fp data []
      else (t, Returned (RLookup Miss)))"
    by (simp only: might_contain_def)
  have "call_ends 0 (if might_contain (dt_bloom t) fp then bloom_step t fp data [] else (t, Returned (RLookup Miss)))
      (table_method t (OpLookup fp data))"
    by (simp add: bloom_step_def dedup_lookup_def split: option.split)
  from ends_run[OF r this] show ?thesis by simp
qed

lemma ends_insert:
  "call_ends (length (lru t) + 11) (t, begin_call t (OpInsert fp data off)) (table_method t (OpInsert fp data off))"
proof (cases "map_of (dt_map t) fp")
  case (Some e)
  then have r: "run_call 1 t (IContains fp data off) = (t, Returned (RInsert False))" by (simp add: contains_step_def)
  have "call_ends 1 (t, IContains fp data off) (t, RInsert False)"
    using ends_run[OF r, of 0] by simp
  from ends_more[OF this, of "length (lru t) + 11"] Some show ?thesis by (simp add: dedup_insert_def)
next
  case None
  then have c: "run_call 1 t (IContains fp data off) = (t, IFull fp data off)" by (simp add: contains_step_def)
  have track: "call_ends 6 (t', IMap fp data off) (dedup_track t' fp data off, RInsert True)" for t'
    using ends_run[OF run_track, of 0] by simp
  show ?thesis
  proof (cases "unat (max_entries t) \<le> length (dt_map t)")
    case False
    then have "run_call 1 t (IFull fp data off) = (t, IMap fp data off)" by (simp add: full_step_def)
    from ends_run[OF c ends_run[OF this track]]
    have "call_ends 8 (t, IContains fp data off) (dedup_track t fp data off, RInsert True)" by simp
    from ends_more[OF this, of "length (lru t) + 11"] None False show ?thesis by (simp add: dedup_insert_def)
  next
    case True
    then have f: "run_call 1 t (IFull fp data off) = (t, ISort fp data off)" by (simp add: full_step_def)
    show ?thesis
    proof (cases "lru t = []")
      case empty: True
      then have "run_call 1 t (ISort fp data off) = (t, Returned (RInsert False))" by (simp add: sort_step_def)
      from ends_run[OF c ends_run[OF f ends_run[OF this ends_returned[of 0]]]]
      have "call_ends 3 (t, IContains fp data off) (t, RInsert False)" by (simp add: eval_nat_numeral)
      from ends_more[OF this, of "length (lru t) + 11"] None True empty show ?thesis
        by (simp add: dedup_insert_def evict_lru_metadata_def)
    next
      case False
      define sorted where "sorted = sort_key snd (lru t)"
      have s: "run_call 1 t (ISort fp data off) = (t\<lparr>lru := sorted\<rparr>, IEvict fp data off (map fst sorted))"
        using False by (simp add: sort_step_def sorted_def Let_def)
      obtain b t' where ev: "evict_loop (map fst sorted) (t\<lparr>lru := sorted\<rparr>) = (b, t')" by fastforce
      then obtain n where n: "n \<le> length (lru t) + 2" "run_call n (t\<lparr>lru := sorted\<rparr>) (IEvict fp data off (map fst sorted)) =
          (if b then (t', IMap fp data off) else (t', Returned (RInsert False)))"
        using run_evict[of "map fst sorted" "t\<lparr>lru := sorted\<rparr>" fp data off] by (cases b) (auto simp: sorted_def)
      have "call_ends 6 (if b then (t', IMap fp data off) else (t', Returned (RInsert False)))
          (table_method t (OpInsert fp data off))"
        using track None True False ev by (cases b) (simp_all add: dedup_insert_def evict_lru_metadata_def sorted_def Let_def)
      from ends_run[OF c ends_run[OF f ends_run[OF s ends_run[OF n(2) this]]]] n(1) show ?thesis
        by (auto elim: ends_more)
    qed
  qed
qed

text \<open>Run alone, a call does what the method does as one atomic operation.\<close>

lemma call_alone_atomic:
  assumes "length (lru t) + 11 \<le> n"
  shows "run_call n t (begin_call t op) = (case table_method t op of (t', r) \<Rightarrow> (t', Returned r))"
proof -
  have "call_ends (length (lru t) + 11) (t, begin_call t op) (table_method t op)"
  proof (cases op)
    case (OpLookup fp data)
    with ends_more[OF ends_lookup] show ?thesis by simp
  next
    case (OpInsert fp data off)
    with ends_insert show ?thesis by simp
  next
    case (OpAdd fp)
    have "call_ends 2 (t, AGet fp) (table_method t (OpAdd fp))"
      using ends_run[of 2 t "AGet fp" _ 0]
      by (cases "map_of (dt_map t) fp")
         (simp_all add: numeral_2_eq_2 reference_step_def touch_step_def dedup_add_reference_def)
    from ends_more[OF this, of "length (lru t) + 11"] OpAdd show ?thesis by simp
  next
    case (OpRemove fp)
    have "call_ends 2 (t, RRemove fp) (table_method t (OpRemove fp))"
      using ends_run[of 2 t "RRemove fp" _ 0]
      by (cases "map_of (dt_map t) fp")
         (simp_all add: numeral_2_eq_2 remove_step_def retain_step_def dedup_remove_reference_def)
    from ends_more[OF this, of "length (lru t) + 11"] OpRemove show ?thesis by simp
  qed
  with assms show ?thesis by (auto simp: call_ends_def split: prod.split)
qed

end
