(* ===== verification/Dedup_Overlap.thy ===== *)
theory Dedup_Overlap
  imports Dedup_Steps
begin

text \<open>
  A fixed number of threads that call the methods of one deduplication table, with their
  accesses in any order. What survives every interleaving: no access to the Bloom bits is
  out of range, no fingerprint is tracked twice, a tracked fingerprint is missed only while
  its insertion is under way, and the capacity is exceeded by less than the number of
  threads. What does not: that an insertion which returned true is tracked with its slot.
\<close>

section \<open>Threads\<close>

record table_system =
  shared :: dedup_table
  calls :: "table_call list"

definition table_start :: "nat \<Rightarrow> dedup_table \<Rightarrow> table_system" where
  "table_start threads t = \<lparr>shared = t, calls = replicate threads Idle\<rparr>"

definition at_rest :: "table_call \<Rightarrow> bool" where
  "at_rest c \<longleftrightarrow> (case c of Idle \<Rightarrow> True | Returned r \<Rightarrow> True | _ \<Rightarrow> False)"

text \<open>An event: thread \<open>i\<close> calls a method, or makes the next access of its call.\<close>

datatype thread_event = Call nat table_op | Access nat

fun table_event :: "table_system \<Rightarrow> thread_event \<Rightarrow> table_system" where
  "table_event s (Call i op) =
     (if i < length (calls s) \<and> at_rest (calls s ! i)
      then s\<lparr>calls := (calls s)[i := begin_call (shared s) op]\<rparr> else s)"
| "table_event s (Access i) =
     (if i < length (calls s)
      then case call_step (shared s) (calls s ! i) of (t, c) \<Rightarrow> s\<lparr>shared := t, calls := (calls s)[i := c]\<rparr>
      else s)"

definition run_table :: "table_system \<Rightarrow> thread_event list \<Rightarrow> table_system" where
  "run_table s es = foldl table_event s es"

section \<open>The invariant\<close>

text \<open>A call that will add an entry to the map: its capacity check is over.\<close>

fun will_insert :: "table_call \<Rightarrow> bool" where
  "will_insert (IUntrack fp data off victim) \<longleftrightarrow> True"
| "will_insert (IMap fp data off) \<longleftrightarrow> True"
| "will_insert c \<longleftrightarrow> False"

text \<open>The bits a call still has to set or test are indices of its fingerprint.\<close>

fun bits_ok :: "bloom_filter \<Rightarrow> table_call \<Rightarrow> bool" where
  "bits_ok b (LBloom fp data is) \<longleftrightarrow> set is \<subseteq> set (bloom_indices fp (bloom_num_bits b))"
| "bits_ok b (IBloom fp is) \<longleftrightarrow> set is \<subseteq> set (bloom_indices fp (bloom_num_bits b))
     \<and> (\<forall>i \<in> set (bloom_indices fp (bloom_num_bits b)) - set is. bloom_test (bloom_bits b) i)"
| "bits_ok b c \<longleftrightarrow> True"

fun inserting :: "fingerprint \<Rightarrow> table_call \<Rightarrow> bool" where
  "inserting fp (IBloom f is) \<longleftrightarrow> f = fp"
| "inserting fp c \<longleftrightarrow> False"

definition table_inv :: "table_system \<Rightarrow> bool" where
  "table_inv s \<longleftrightarrow> distinct (map fst (dt_map (shared s))) \<and> wf_bloom (dt_bloom (shared s))
     \<and> list_all (bits_ok (dt_bloom (shared s))) (calls s)
     \<and> (\<forall>fp. map_of (dt_map (shared s)) fp \<noteq> None \<longrightarrow>
          might_contain (dt_bloom (shared s)) fp \<or> list_ex (inserting fp) (calls s))
     \<and> length (dt_map (shared s)) + length (filter will_insert (calls s))
          \<le> unat (max_entries (shared s)) + (length (calls s) - 1)"

text \<open>What one access does to the table, seen from the other threads.\<close>

definition bloom_grows :: "bloom_filter \<Rightarrow> bloom_filter \<Rightarrow> bool" where
  "bloom_grows b b' \<longleftrightarrow> wf_bloom b' \<and> bloom_num_bits b' = bloom_num_bits b
     \<and> (\<forall>fp. \<forall>i \<in> set (bloom_indices fp (bloom_num_bits b)). bloom_test (bloom_bits b) i \<longrightarrow> bloom_test (bloom_bits b') i)"

lemma bloom_grows_refl: "wf_bloom b \<Longrightarrow> bloom_grows b b"
  by (simp add: bloom_grows_def)

lemma bloom_grows_set:
  assumes wf: "wf_bloom b" and i: "i \<in> set (bloom_indices fp (bloom_num_bits b))"
  shows "bloom_grows b (b\<lparr>bloom_bits := bloom_set (bloom_bits b) i\<rparr>)"
    "bloom_test (bloom_set (bloom_bits b) i) i"
  using wf wf_bloom_index[OF wf i] wf_bloom_index[OF wf]
  by (auto simp: bloom_grows_def wf_bloom_def bloom_test_set)

lemma grows_bits_ok: "bloom_grows b b' \<Longrightarrow> bits_ok b c \<Longrightarrow> bits_ok b' c"
  by (cases c) (auto simp: bloom_grows_def)

lemma grows_contain: "bloom_grows b b' \<Longrightarrow> might_contain b fp \<Longrightarrow> might_contain b' fp"
  by (auto simp: bloom_grows_def might_contain_def list_all_iff)

definition access_ok :: "dedup_table \<Rightarrow> table_call \<Rightarrow> dedup_table \<Rightarrow> table_call \<Rightarrow> bool" where
  "access_ok t c t' c' \<longleftrightarrow> distinct (map fst (dt_map t')) \<and> bloom_grows (dt_bloom t) (dt_bloom t')
     \<and> max_entries t' = max_entries t \<and> bits_ok (dt_bloom t') c'
     \<and> (\<forall>fp. map_of (dt_map t') fp \<noteq> None \<longrightarrow> map_of (dt_map t) fp \<noteq> None \<or> inserting fp c')
     \<and> (\<forall>fp. inserting fp c \<longrightarrow> inserting fp c' \<or> might_contain (dt_bloom t') fp)
     \<and> (length (dt_map t') + of_bool (will_insert c') \<le> length (dt_map t) + of_bool (will_insert c)
        \<or> \<not> will_insert c \<and> length (dt_map t') < unat (max_entries t))"

lemma call_step_ok:
  assumes d: "distinct (map fst (dt_map t))" and wf: "wf_bloom (dt_bloom t)" and b: "bits_ok (dt_bloom t) c"
    and st: "call_step t c = (t', c')"
  shows "access_ok t c t' c'"
proof (cases c)
  case (LBloom fp data idxs)
  with st d wf b show ?thesis
    by (auto simp: bloom_step_def access_ok_def bloom_grows_refl split: list.splits option.splits if_splits)
next
  case (IContains fp data off)
  with st d wf show ?thesis by (auto simp: contains_step_def access_ok_def bloom_grows_refl split: if_splits)
next
  case (IFull fp data off)
  with st d wf show ?thesis by (auto simp: full_step_def access_ok_def bloom_grows_refl split: if_splits)
next
  case (ISort fp data off)
  with st d wf show ?thesis by (auto simp: sort_step_def access_ok_def bloom_grows_refl Let_def split: if_splits)
next
  case (IEvict fp data off candidates)
  show ?thesis
  proof (cases candidates)
    case Nil
    with IEvict st d wf show ?thesis by (auto simp: evict_step_def access_ok_def bloom_grows_refl)
  next
    case (Cons v rest)
    show ?thesis
    proof (cases "\<exists>e. map_of (dt_map t) v = Some e \<and> ref_count e \<le> 1")
      case True
      then obtain e where "map_of (dt_map t) v = Some e" by blast
      from length_delete_mem[OF d this] True IEvict Cons st d wf show ?thesis
        by (auto simp: evict_step_def access_ok_def bloom_grows_refl distinct_delete split: if_splits)
    next
      case False
      with IEvict Cons st have "t' = t" "c' = IEvict fp data off rest"
        by (auto simp: evict_step_def split: option.splits)
      with IEvict d wf show ?thesis by (auto simp: access_ok_def bloom_grows_refl)
    qed
  qed
next
  case (IUntrack fp data off victim)
  with st d wf show ?thesis by (auto simp: untrack_step_def access_ok_def bloom_grows_refl)
next
  case (IMap fp data off)
  let ?e = "\<lparr>ref_count = 1, backend_offset = off, entry_prefix = page_prefix data\<rparr>"
  have "length (AList.update fp ?e (dt_map t)) \<le> Suc (length (dt_map t))"
    using length_update_new[of "dt_map t" fp ?e] length_update_old[of "dt_map t" fp _ ?e]
    by (cases "map_of (dt_map t) fp") auto
  with IMap st d wf show ?thesis
    by (auto simp: map_insert_step_def access_ok_def bloom_grows_refl distinct_update split: if_splits)
next
  case (IBloom fp idxs)
  show ?thesis
  proof (cases idxs)
    case Nil
    with IBloom st d wf b show ?thesis
      by (auto simp: bloom_insert_step_def access_ok_def bloom_grows_refl might_contain_def list_all_iff)
  next
    case (Cons i rest)
    with IBloom b have i: "i \<in> set (bloom_indices fp (bloom_num_bits (dt_bloom t)))" by auto
    note g = bloom_grows_set[OF wf i]
    have "bits_ok ((dt_bloom t)\<lparr>bloom_bits := bloom_set (bloom_bits (dt_bloom t)) i\<rparr>) (IBloom fp rest)"
      using grows_bits_ok[OF g(1) b] g(2) IBloom Cons by auto
    with IBloom Cons st d g(1) show ?thesis by (auto simp: bloom_insert_step_def access_ok_def)
  qed
next
  case (IPush fp now)
  with st d wf show ?thesis by (auto simp: push_step_def access_ok_def bloom_grows_refl)
next
  case (AGet fp)
  with st d wf show ?thesis
    by (auto simp: reference_step_def access_ok_def bloom_grows_refl distinct_update length_update_old split: option.splits if_splits)
next
  case (ATouch fp now)
  with st d wf show ?thesis by (auto simp: touch_step_def access_ok_def bloom_grows_refl)
next
  case (RRemove fp)
  show ?thesis
  proof (cases "map_of (dt_map t) fp")
    case None
    with RRemove st d wf show ?thesis by (auto simp: remove_step_def access_ok_def bloom_grows_refl)
  next
    case (Some e)
    with RRemove st d wf length_delete_mem[OF d Some] show ?thesis
      by (auto simp: remove_step_def access_ok_def bloom_grows_refl distinct_update distinct_delete length_update_old
          split: if_splits)
  qed
next
  case (RRetain fp slot)
  with st d wf show ?thesis by (auto simp: retain_step_def access_ok_def bloom_grows_refl)
qed (use st d wf in \<open>auto simp: access_ok_def bloom_grows_refl\<close>)

text \<open>One call changes; the others keep what the table gives them.\<close>

lemma filter_update_length:
  assumes "i < length xs"
  shows "length (filter P (xs[i := x])) + of_bool (P (xs ! i)) = length (filter P xs) + of_bool (P x)"
proof -
  have "length (filter P xs) = length (filter P (take i xs)) + of_bool (P (xs ! i)) + length (filter P (drop (Suc i) xs))"
    by (subst id_take_nth_drop[OF assms]) simp
  then show ?thesis using assms by (simp add: upd_conv_take_nth_drop)
qed

lemma list_ex_update:
  assumes "list_ex P xs" "i < length xs" "P (xs ! i) \<Longrightarrow> P x"
  shows "list_ex P (xs[i := x])"
proof -
  obtain j where "j < length xs" "P (xs ! j)" using assms(1) by (auto simp: list_ex_length)
  with assms(2,3) show ?thesis
    unfolding list_ex_length by (intro exI[of _ j]) (cases "j = i", auto)
qed

lemma filter_length_mono: "(\<And>x. P x \<Longrightarrow> Q x) \<Longrightarrow> length (filter P xs) \<le> length (filter Q xs)"
  by (induction xs) auto

text \<open>
  An access that passes the capacity check finds room for one entry, and no more calls than
  those under way can have passed it before.
\<close>

lemma access_room:
  assumes ok: "access_ok t (cs ! i) t' c'" and i: "i < length cs" and st: "call_step t (cs ! i) = (t', c')"
    and room: "length (dt_map t) + length (filter will_insert cs) \<le> unat (max_entries t) + (k - 1)"
    and k: "length (filter (\<lambda>c. \<not> at_rest c) cs) \<le> k"
  shows "length (dt_map t') + length (filter will_insert (cs[i := c'])) \<le> unat (max_entries t') + (k - 1)"
proof -
  let ?c = "cs ! i" and ?n = "length (filter will_insert cs)" and ?n' = "length (filter will_insert (cs[i := c']))"
  have n: "?n' + of_bool (will_insert ?c) = ?n + of_bool (will_insert c')" by (rule filter_update_length[OF i])
  have m: "max_entries t' = max_entries t" using ok by (simp add: access_ok_def)
  show ?thesis
  proof (cases "length (dt_map t') + of_bool (will_insert c') \<le> length (dt_map t) + of_bool (will_insert ?c)")
    case True
    with n room m show ?thesis by simp
  next
    case False
    with ok have w: "\<not> will_insert ?c" "length (dt_map t') < unat (max_entries t)" by (auto simp: access_ok_def)
    have "\<not> at_rest ?c"
    proof
      assume "at_rest ?c"
      then have "call_step t ?c = (t, ?c)" by (cases ?c) (simp_all add: at_rest_def)
      with st False show False by simp
    qed
    then have "?c \<in> set (filter (\<lambda>c. \<not> at_rest c) cs)" using i by simp
    from length_filter_less[of ?c _ will_insert, OF this w(1)]
    have "length (filter (\<lambda>c. \<not> at_rest c \<and> will_insert c) cs) < k" using k by simp
    moreover have "?n \<le> length (filter (\<lambda>c. \<not> at_rest c \<and> will_insert c) cs)"
    proof (rule filter_length_mono)
      show "will_insert c \<Longrightarrow> \<not> at_rest c \<and> will_insert c" for c by (cases c) (simp_all add: at_rest_def)
    qed
    ultimately show ?thesis using n w m by (cases "will_insert c'") simp_all
  qed
qed

lemma access_inv:
  assumes inv: "table_inv s" and i: "i < length (calls s)" and st: "call_step (shared s) (calls s ! i) = (t', c')"
  shows "table_inv (s\<lparr>shared := t', calls := (calls s)[i := c']\<rparr>)"
proof -
  let ?t = "shared s" and ?c = "calls s ! i"
  have I: "distinct (map fst (dt_map ?t))" "wf_bloom (dt_bloom ?t)" "list_all (bits_ok (dt_bloom ?t)) (calls s)"
    "length (dt_map ?t) + length (filter will_insert (calls s)) \<le> unat (max_entries ?t) + (length (calls s) - 1)"
    and T: "\<And>fp. map_of (dt_map ?t) fp \<noteq> None \<Longrightarrow> might_contain (dt_bloom ?t) fp \<or> list_ex (inserting fp) (calls s)"
    using inv by (simp_all add: table_inv_def)
  have b: "bits_ok (dt_bloom ?t) ?c" using I(3) i by (simp add: list_all_length)
  note ok = call_step_ok[OF I(1,2) b st, unfolded access_ok_def]
  have grow: "bloom_grows (dt_bloom ?t) (dt_bloom t')" using ok by blast
  have bits: "list_all (bits_ok (dt_bloom t')) ((calls s)[i := c'])"
    using I(3) ok grows_bits_ok[OF grow] i by (auto simp: list_all_length nth_list_update)
  have tracked: "might_contain (dt_bloom t') fp \<or> list_ex (inserting fp) ((calls s)[i := c'])"
    if m: "map_of (dt_map t') fp \<noteq> None" for fp
  proof (cases "inserting fp c' \<or> might_contain (dt_bloom t') fp")
    case True
    then show ?thesis using i by (auto simp: list_ex_length intro: exI[of _ i])
  next
    case False
    with ok m have old: "map_of (dt_map ?t) fp \<noteq> None" and c: "\<not> inserting fp ?c" by auto
    with T[OF old] False grows_contain[OF grow] have "list_ex (inserting fp) (calls s)" by blast
    from list_ex_update[OF this i] c show ?thesis by blast
  qed
  have "length (dt_map t') + length (filter will_insert ((calls s)[i := c'])) \<le> unat (max_entries t') + (length (calls s) - 1)"
    by (rule access_room[OF call_step_ok[OF I(1,2) b st] i st I(4)]) simp
  with ok grow bits tracked show ?thesis by (simp add: table_inv_def bloom_grows_def)
qed

lemma call_inv:
  assumes inv: "table_inv s" and i: "i < length (calls s)" and rest: "at_rest (calls s ! i)"
  shows "table_inv (s\<lparr>calls := (calls s)[i := begin_call (shared s) op]\<rparr>)"
proof -
  let ?c = "begin_call (shared s) op"
  have old: "\<not> will_insert (calls s ! i)" "\<not> inserting fp (calls s ! i)" for fp
    using rest by (cases "calls s ! i"; simp add: at_rest_def)+
  have new: "\<not> will_insert ?c" "bits_ok (dt_bloom (shared s)) ?c" by (cases op; simp)+
  have "length (filter will_insert ((calls s)[i := ?c])) = length (filter will_insert (calls s))"
    using filter_update_length[OF i, of will_insert ?c] old new by simp
  moreover have "list_all (bits_ok (dt_bloom (shared s))) ((calls s)[i := ?c])"
    using inv new i by (auto simp: table_inv_def list_all_length nth_list_update)
  moreover have "list_ex (inserting fp) (calls s) \<Longrightarrow> list_ex (inserting fp) ((calls s)[i := ?c])" for fp
    using list_ex_update[OF _ i, of "inserting fp" ?c] old by blast
  ultimately show ?thesis using inv by (auto simp: table_inv_def)
qed

lemma table_event_inv: "table_inv s \<Longrightarrow> table_inv (table_event s ev)"
  by (cases ev) (auto simp: call_inv access_inv split: prod.split)

lemma run_table_inv: "table_inv s \<Longrightarrow> table_inv (run_table s es)"
  unfolding run_table_def by (rule foldl_pres[where P = table_inv]) (auto simp: table_event_inv)

lemma table_start_inv: "table_inv (table_start n (dedup_new m c))"
  by (auto simp: table_inv_def table_start_def dedup_new_def wf_bloom_new list_all_iff)

lemma table_event_fields:
  "length (calls (table_event s ev)) = length (calls s)"
  by (cases ev) (auto split: prod.split)

lemma run_table_threads: "length (calls (run_table s es)) = length (calls s)"
  unfolding run_table_def by (induction es arbitrary: s) (simp_all add: table_event_fields)

lemma call_step_capacity: "call_step t c = (t', c') \<Longrightarrow> max_entries t' = max_entries t"
  by (cases c) (auto simp: bloom_step_def contains_step_def full_step_def sort_step_def evict_step_def untrack_step_def
      map_insert_step_def bloom_insert_step_def push_step_def reference_step_def touch_step_def remove_step_def
      retain_step_def Let_def split: list.splits option.splits if_splits)

lemma run_table_capacity: "max_entries (shared (run_table s es)) = max_entries (shared s)"
  unfolding run_table_def
proof (induction es arbitrary: s)
  case (Cons ev es)
  have "max_entries (shared (table_event s ev)) = max_entries (shared s)"
    by (cases ev) (auto split: prod.split dest: call_step_capacity)
  with Cons show ?case by simp
qed simp

text \<open>Idle tables satisfy the sequential part of the invariant again.\<close>

lemma rest_contains:
  assumes "table_inv s" "list_all at_rest (calls s)" "map_of (dt_map (shared s)) fp \<noteq> None"
  shows "might_contain (dt_bloom (shared s)) fp"
proof -
  have "\<not> list_ex (inserting fp) (calls s)"
  proof
    assume "list_ex (inserting fp) (calls s)"
    then obtain c where "c \<in> set (calls s)" "inserting fp c" by (auto simp: list_ex_iff)
    with assms(2) show False by (cases c) (auto simp: list_all_iff at_rest_def)
  qed
  with assms show ?thesis by (auto simp: table_inv_def)
qed

text \<open>No access to the Bloom bits is out of range.\<close>

fun bits_of :: "table_call \<Rightarrow> usize list" where
  "bits_of (LBloom fp data is) = is"
| "bits_of (IBloom fp is) = is"
| "bits_of c = []"

lemma bits_in_range:
  assumes "table_inv s"
  shows "list_all (\<lambda>c. list_all (\<lambda>i. unat (i div 64) < length (bloom_bits (dt_bloom (shared s)))) (bits_of c)) (calls s)"
proof -
  have wf: "wf_bloom (dt_bloom (shared s))" using assms by (simp add: table_inv_def)
  have "list_all (\<lambda>i. unat (i div 64) < length (bloom_bits (dt_bloom (shared s)))) (bits_of c)"
    if "c \<in> set (calls s)" for c
  proof -
    have "bits_ok (dt_bloom (shared s)) c" using assms that by (simp add: table_inv_def list_all_iff)
    then show ?thesis using wf_bloom_index[OF wf] by (cases c) (auto simp: list_all_iff)
  qed
  then show ?thesis by (simp add: list_all_iff)
qed

section \<open>Two insertions of one fingerprint\<close>

text \<open>Both pass \<open>contains_key\<close> and the capacity check before either writes to the map.\<close>

definition insert_race :: "fingerprint \<Rightarrow> u8 list \<Rightarrow> u64 \<Rightarrow> u64 \<Rightarrow> thread_event list" where
  "insert_race fp d s1 s2 =
     [Call 0 (OpInsert fp d s1), Access 0, Access 0, Call 1 (OpInsert fp d s2), Access 1, Access 1]
     @ replicate 6 (Access 0) @ replicate 6 (Access 1)"

lemma run_table_thread:
  assumes "i < length (calls s)" "run_call n (shared s) (calls s ! i) = (t, c)"
  shows "run_table s (replicate n (Access i)) = s\<lparr>shared := t, calls := (calls s)[i := c]\<rparr>"
  using assms
proof (induction n arbitrary: s)
  case (Suc n)
  obtain t1 c1 where "call_step (shared s) (calls s ! i) = (t1, c1)" by fastforce
  with Suc.prems Suc.IH[of "s\<lparr>shared := t1, calls := (calls s)[i := c1]\<rparr>"] show ?case
    by (simp add: run_table_def)
qed (auto simp: run_table_def)

lemma run_table_append: "run_table s (es @ fs) = run_table (run_table s es) fs"
  by (simp add: run_table_def)

lemma insert_race_run:
  assumes "0 < m"
  shows "\<exists>s. run_table (table_start 2 (dedup_new m c)) (insert_race fp d s1 s2) = s
    \<and> calls s = [Returned (RInsert True), Returned (RInsert True)] \<and> tracked (shared s) fp = Some (1, s2)"
proof -
  have m: "0 < unat m" using assms by (simp add: word_less_nat_alt)
  let ?t = "dedup_new m c" and ?done = "Returned (RInsert True)"
  let ?t1 = "dedup_track ?t fp d s1"
  have r: "replicate 2 Idle = [Idle, Idle]" by (simp add: numeral_2_eq_2)
  have 1: "run_table (table_start 2 ?t)
      [Call 0 (OpInsert fp d s1), Access 0, Access 0, Call 1 (OpInsert fp d s2), Access 1, Access 1] =
    \<lparr>shared = ?t, calls = [IMap fp d s1, IMap fp d s2]\<rparr>"
    using m by (simp add: run_table_def table_start_def r at_rest_def contains_step_def full_step_def dedup_new_def)
  have 2: "run_table \<lparr>shared = ?t, calls = [IMap fp d s1, IMap fp d s2]\<rparr> (replicate 6 (Access 0)) =
    \<lparr>shared = ?t1, calls = [?done, IMap fp d s2]\<rparr>"
    using run_table_thread[of 0 "\<lparr>shared = ?t, calls = [IMap fp d s1, IMap fp d s2]\<rparr>" 6] by (simp add: run_track)
  have 3: "run_table \<lparr>shared = ?t1, calls = [?done, IMap fp d s2]\<rparr> (replicate 6 (Access 1)) =
    \<lparr>shared = dedup_track ?t1 fp d s2, calls = [?done, ?done]\<rparr>"
    using run_table_thread[of 1 "\<lparr>shared = ?t1, calls = [?done, IMap fp d s2]\<rparr>" 6] by (simp add: run_track)
  have "run_table (table_start 2 ?t) (insert_race fp d s1 s2) = \<lparr>shared = dedup_track ?t1 fp d s2, calls = [?done, ?done]\<rparr>"
    unfolding insert_race_def run_table_append 1 2 3 ..
  moreover have "tracked (dedup_track ?t1 fp d s2) fp = Some (1, s2)" by (simp add: tracked_def dedup_track_def)
  ultimately show ?thesis by simp
qed

end
