(* ===== verification/Fine_Steps.thy ===== *)
theory Fine_Steps
  imports Interleave Dedup_Overlap
begin

text \<open>
  The requests of theory \<open>Interleave\<close> with the calls of the deduplication table cut into the
  accesses of theory \<open>Dedup_Steps\<close>: the finest steps of \<open>handle_write\<close>, \<open>handle_read\<close> and
  \<open>handle_discard\<close> in \<open>crates/swap-proxy/src/main.rs\<close>. Two facts about a single request:
  run alone it does what its method does, and it finishes whatever other requests do to the
  engine between its steps.
\<close>

section \<open>Requests with a call under way\<close>

datatype fine_request = Plain request | Calling request table_call

fun table_op_of :: "request \<Rightarrow> table_op option" where
  "table_op_of (WLookup off pg fp) = Some (OpLookup fp pg)"
| "table_op_of (WAddRef off pg fp slot) = Some (OpAdd fp)"
| "table_op_of (WInsert off pg fp slot) = Some (OpInsert fp pg slot)"
| "table_op_of (Releasing ent) =
     (case kind ent of Direct \<Rightarrow> None | Deduplicated fp \<Rightarrow> Some (OpRemove fp))"
| "table_op_of r = None"

text \<open>What the caller does with the result, up to its next access.\<close>

fun resume :: "proxy_engine \<Rightarrow> request \<Rightarrow> table_result \<Rightarrow> proxy_engine \<times> request" where
  "resume e (WLookup off pg fp) res =
     (case res of
        RLookup (Duplicate slot) \<Rightarrow> (e, WVerify off pg fp slot)
      | RLookup Miss \<Rightarrow> (e, WAlloc off pg (Some fp))
      | _ \<Rightarrow> (e, WLookup off pg fp))"
| "resume e (WAddRef off pg fp slot) res =
     (case res of
        RAdd added \<Rightarrow>
          if added
          then (e\<lparr>pstats := (pstats e)\<lparr>duplicate_writes := duplicate_writes (pstats e) + 1\<rparr>\<rparr>,
                WMap off pg (entry_deduplicated fp slot))
          else (e, WAlloc off pg (Some fp))
      | _ \<Rightarrow> (e, WAddRef off pg fp slot))"
| "resume e (WInsert off pg fp slot) res =
     (case res of
        RInsert inserted \<Rightarrow>
          (count_unique e, WMap off pg (if inserted then entry_deduplicated fp slot else entry_direct slot))
      | _ \<Rightarrow> (e, WInsert off pg fp slot))"
| "resume e (Releasing ent) res =
     (case res of
        RRemoval StillReferenced \<Rightarrow> (e, Finished Done)
      | RRemoval (Removed slot) \<Rightarrow> (e, Freeing slot)
      | RRemoval NotTracked \<Rightarrow> (e, Freeing (backend_slot ent))
      | _ \<Rightarrow> (e, Releasing ent))"
| "resume e r res = (e, r)"

lemmas resume_splits = table_result.splits lookup_result.splits reference_removal.splits if_splits

definition fine_step :: "hash \<Rightarrow> proxy_engine \<Rightarrow> fine_request \<Rightarrow> proxy_engine \<times> fine_request" where
  "fine_step h e x =
     (case x of
        Plain r \<Rightarrow>
          (case table_op_of r of
             None \<Rightarrow> map_prod id Plain (request_step h e r)
           | Some op \<Rightarrow> (e, Calling r (begin_call (dedup_tab e) op)))
      | Calling r c \<Rightarrow>
          (case c of
             Returned res \<Rightarrow> map_prod id Plain (resume e r res)
           | _ \<Rightarrow> (case call_step (dedup_tab e) c of (t, c') \<Rightarrow> (e\<lparr>dedup_tab := t\<rparr>, Calling r c'))))"

lemma fine_step_plain:
  "table_op_of r = None \<Longrightarrow> fine_step h e (Plain r) = map_prod id Plain (request_step h e r)"
  "table_op_of r = Some op \<Longrightarrow> fine_step h e (Plain r) = (e, Calling r (begin_call (dedup_tab e) op))"
  by (simp_all add: fine_step_def)

lemma fine_step_returned: "fine_step h e (Calling r (Returned res)) = map_prod id Plain (resume e r res)"
  by (simp add: fine_step_def)

lemma fine_step_access:
  "\<nexists>res. c = Returned res \<Longrightarrow> fine_step h e (Calling r c) =
     (case call_step (dedup_tab e) c of (t, c') \<Rightarrow> (e\<lparr>dedup_tab := t\<rparr>, Calling r c'))"
  by (cases c) (simp_all add: fine_step_def)

lemmas fine_step_calling = fine_step_returned fine_step_access

section \<open>A request that runs alone\<close>

fun run_fine :: "nat \<Rightarrow> hash \<Rightarrow> proxy_engine \<times> fine_request \<Rightarrow> proxy_engine \<times> fine_request" where
  "run_fine 0 h x = x"
| "run_fine (Suc n) h x = run_fine n h (fine_step h (fst x) (snd x))"

lemma run_fine_add: "run_fine (m + n) h x = run_fine n h (run_fine m h x)"
  by (induction m arbitrary: x) simp_all

lemma run_fine_finished [simp]: "run_fine n h (e, Plain (Finished r)) = (e, Plain (Finished r))"
  by (induction n) (simp_all add: fine_step_plain)

text \<open>The accesses of a call, up to its return.\<close>

lemma run_fine_call:
  assumes "run_call n (dedup_tab e) c = (t, Returned res)"
  shows "\<exists>m. run_fine m h (e, Calling r c) = (e\<lparr>dedup_tab := t\<rparr>, Calling r (Returned res))"
  using assms
proof (induction n arbitrary: e c)
  case 0
  then show ?case by (intro exI[of _ 0]) simp
next
  case (Suc n)
  show ?case
  proof (cases "\<exists>res. c = Returned res")
    case True
    with Suc.prems show ?thesis by (intro exI[of _ 0]) auto
  next
    case False
    obtain t1 c1 where st: "call_step (dedup_tab e) c = (t1, c1)" by fastforce
    with Suc.prems Suc.IH[of "e\<lparr>dedup_tab := t1\<rparr>" c1] obtain m where
      "run_fine m h (e\<lparr>dedup_tab := t1\<rparr>, Calling r c1) = (e\<lparr>dedup_tab := t\<rparr>, Calling r (Returned res))" by auto
    with False st show ?thesis by (intro exI[of _ "Suc m"]) (simp add: fine_step_access)
  qed
qed

lemma step_via_table:
  assumes "table_op_of r = Some op" "table_method (dedup_tab e) op = (t, res)"
  shows "request_step h e r = resume (e\<lparr>dedup_tab := t\<rparr>) r res"
  using assms
  by (cases r) (auto simp: lookup_step_def add_ref_step_def insert_step_def release_step_def
      split: mapping_kind.splits prod.splits lookup_result.splits bool.splits reference_removal.splits)

text \<open>A step of theory \<open>Interleave\<close> is a sequence of fine steps.\<close>

lemma run_fine_step:
  assumes "request_step h e r = (e', r')"
  shows "\<exists>m. run_fine m h (e, Plain r) = (e', Plain r')"
proof (cases "table_op_of r")
  case None
  with assms show ?thesis by (intro exI[of _ 1]) (simp add: fine_step_plain)
next
  case (Some op)
  obtain t res where t: "table_method (dedup_tab e) op = (t, res)" by fastforce
  with call_alone_atomic[OF order_refl, of "dedup_tab e" op] obtain m where
    m: "run_fine m h (e, Calling r (begin_call (dedup_tab e) op)) = (e\<lparr>dedup_tab := t\<rparr>, Calling r (Returned res))"
    using run_fine_call[of _ e _ t res h r] by fastforce
  have "run_fine (Suc m + 1) h (e, Plain r) = (e', Plain r')"
    unfolding run_fine_add using Some m assms step_via_table[OF Some t, of h]
    by (simp add: fine_step_plain fine_step_calling)
  then show ?thesis by blast
qed

lemma run_fine_alone:
  assumes "run_alone n h e r = (e', r')"
  shows "\<exists>m. run_fine m h (e, Plain r) = (e', Plain r')"
  using assms
proof (induction n arbitrary: e r)
  case 0
  then show ?case by (intro exI[of _ 0]) simp
next
  case (Suc n)
  obtain e1 r1 where st: "request_step h e r = (e1, r1)" by fastforce
  from run_fine_step[OF st] obtain k where k: "run_fine k h (e, Plain r) = (e1, Plain r1)" by blast
  from Suc st obtain m where "run_fine m h (e1, Plain r1) = (e', Plain r')" by auto
  with k have "run_fine (k + m) h (e, Plain r) = (e', Plain r')" by (simp add: run_fine_add)
  then show ?case by blast
qed

lemma run_fine_atomic:
  assumes "engine_step h e op = (e', r)"
  shows "\<exists>m. \<forall>n \<ge> m. run_fine n h (e, Plain (request_of_op op)) = (e', Plain (Finished r))"
proof -
  obtain m where m: "run_fine m h (e, Plain (request_of_op op)) = (e', Plain (Finished r))"
    using run_fine_alone[OF run_alone_atomic[OF assms order_refl]] by blast
  have "run_fine n h (e, Plain (request_of_op op)) = (e', Plain (Finished r))" if "m \<le> n" for n
    using that m run_fine_add[of m "n - m" h "(e, Plain (request_of_op op))"] by simp
  then show ?thesis by blast
qed

section \<open>A request among others\<close>

text \<open>Which call belongs to which request.\<close>

fun call_for :: "request \<Rightarrow> table_call \<Rightarrow> bool" where
  "call_for (WLookup off pg fp) c \<longleftrightarrow>
     (case c of LBloom _ _ _ \<Rightarrow> True | Returned (RLookup _) \<Rightarrow> True | _ \<Rightarrow> False)"
| "call_for (WAddRef off pg fp slot) c \<longleftrightarrow>
     (case c of AGet _ \<Rightarrow> True | ATouch _ _ \<Rightarrow> True | Returned (RAdd _) \<Rightarrow> True | _ \<Rightarrow> False)"
| "call_for (WInsert off pg fp slot) c \<longleftrightarrow>
     (case c of IContains _ _ off' \<Rightarrow> off' = slot | IFull _ _ off' \<Rightarrow> off' = slot | ISort _ _ off' \<Rightarrow> off' = slot
      | IEvict _ _ off' _ \<Rightarrow> off' = slot | IUntrack _ _ off' _ \<Rightarrow> off' = slot | IMap _ _ off' \<Rightarrow> off' = slot
      | IBloom _ _ \<Rightarrow> True | IPush _ _ \<Rightarrow> True | Returned (RInsert _) \<Rightarrow> True | _ \<Rightarrow> False)"
| "call_for (Releasing ent) c \<longleftrightarrow>
     (case c of RRemove _ \<Rightarrow> True | RRetain _ _ \<Rightarrow> True | Returned (RRemoval _) \<Rightarrow> True | _ \<Rightarrow> False)"
| "call_for r c \<longleftrightarrow> False"

primrec proper :: "fine_request \<Rightarrow> bool" where
  "proper (Plain r) \<longleftrightarrow> True"
| "proper (Calling r c) \<longleftrightarrow> call_for r c"

lemma begin_call_for: "table_op_of r = Some op \<Longrightarrow> call_for r (begin_call t op)"
  by (cases r) (auto split: mapping_kind.splits)

lemmas access_defs = bloom_step_def contains_step_def full_step_def sort_step_def evict_step_def untrack_step_def
  map_insert_step_def bloom_insert_step_def push_step_def reference_step_def touch_step_def remove_step_def
  retain_step_def

lemma call_step_for: "call_for r c \<Longrightarrow> call_step t c = (t', c') \<Longrightarrow> call_for r c'"
  by (cases r; cases c) (auto simp: access_defs Let_def split: list.splits option.splits if_splits)

lemma proper_step: "proper x \<Longrightarrow> proper (snd (fine_step h e x))"
proof (cases x)
  case (Plain r)
  then show ?thesis by (cases "table_op_of r") (simp_all add: fine_step_plain begin_call_for)
next
  case (Calling r c)
  assume "proper x"
  with Calling show ?thesis
    by (cases "\<exists>res. c = Returned res")
       (auto simp: fine_step_calling split: prod.split intro: call_step_for)
qed

text \<open>
  The rank of a request decreases lexicographically at each of its steps: where the method
  stands, where the call stands, and what is left of the loop over the Bloom bits or over
  the eviction candidates, a list the call took at its start.
\<close>

primrec stage :: "request \<Rightarrow> nat" where
  "stage (WBegin off data) = 12"
| "stage (WLookup off pg fp) = 11"
| "stage (WVerify off pg fp slot) = 10"
| "stage (WAddRef off pg fp slot) = 9"
| "stage (WAlloc off pg fpo) = 8"
| "stage (WStore off pg fpo slot) = 7"
| "stage (WInsert off pg fp slot) = 6"
| "stage (WMap off pg ent) = 5"
| "stage (DBegin off) = 5"
| "stage (Releasing ent) = 4"
| "stage (WUndo slot err) = 3"
| "stage (Freeing slot) = 3"
| "stage (RBegin off) = 2"
| "stage (RFetch slot) = 1"
| "stage (Finished r) = 0"

primrec call_stage :: "table_call \<Rightarrow> nat \<times> nat" where
  "call_stage (IContains fp data off) = (10, 0)"
| "call_stage (IFull fp data off) = (9, 0)"
| "call_stage (ISort fp data off) = (8, 0)"
| "call_stage (IEvict fp data off candidates) = (7, length candidates)"
| "call_stage (IUntrack fp data off victim) = (6, 0)"
| "call_stage (IMap fp data off) = (5, 0)"
| "call_stage (IBloom fp idxs) = (4, length idxs)"
| "call_stage (IPush fp now) = (3, 0)"
| "call_stage (LBloom fp data idxs) = (4, length idxs)"
| "call_stage (AGet fp) = (4, 0)"
| "call_stage (ATouch fp now) = (3, 0)"
| "call_stage (RRemove fp) = (4, 0)"
| "call_stage (RRetain fp slot) = (3, 0)"
| "call_stage (Returned r) = (2, 0)"
| "call_stage Idle = (1, 0)"

primrec rank :: "fine_request \<Rightarrow> nat \<times> nat \<times> nat" where
  "rank (Plain r) = (stage r, 11, 0)"
| "rank (Calling r c) = (stage r, call_stage c)"

definition lower_rank :: "(fine_request \<times> fine_request) set" where
  "lower_rank = inv_image (less_than <*lex*> less_than <*lex*> less_than) rank"

lemma wf_lower_rank: "wf lower_rank"
  unfolding lower_rank_def by (intro wf_inv_image wf_lex_prod wf_less_than)

lemma call_step_decreases:
  assumes "call_for r c" "\<And>res. c \<noteq> Returned res" "call_step t c = (t', c')"
  shows "(call_stage c', call_stage c) \<in> less_than <*lex*> less_than"
  using assms
  by (cases r; cases c) (auto simp: access_defs Let_def split: list.splits option.splits if_splits)

lemma resume_decreases:
  assumes "call_for r (Returned res)" "resume e r res = (e', r')"
  shows "stage r' < stage r"
  using assms
  by (cases r; cases res) (auto split: resume_splits)

lemma request_step_decreases:
  assumes "table_op_of r = None" "\<And>x. r \<noteq> Finished x" "request_step h e r = (e', r')"
  shows "stage r' < stage r"
  using assms
  by (cases r) (auto simp: begin_write_def verify_step_def alloc_step_def store_step_def map_step_def release_step_def
      begin_read_def fetch_step_def begin_discard_def translation_insert_def translation_remove_def Let_def
      split: prod.splits sum.splits option.splits mapping_kind.splits)

lemma fine_step_decreases:
  assumes "proper x" "\<And>r. x \<noteq> Plain (Finished r)"
  shows "(snd (fine_step h e x), x) \<in> lower_rank"
proof (cases x)
  case (Plain r)
  show ?thesis
  proof (cases "table_op_of r")
    case None
    obtain e' r' where "request_step h e r = (e', r')" by fastforce
    with None Plain assms(2) request_step_decreases[OF None _ this] show ?thesis
      by (auto simp: fine_step_plain lower_rank_def)
  next
    case (Some op)
    with Plain show ?thesis by (cases op) (simp_all add: fine_step_plain lower_rank_def)
  qed
next
  case (Calling r c)
  show ?thesis
  proof (cases "\<exists>res. c = Returned res")
    case True
    then obtain res where c: "c = Returned res" by blast
    obtain e' r' where "resume e r res = (e', r')" by fastforce
    with resume_decreases[OF _ this] assms(1) Calling c show ?thesis
      by (simp add: fine_step_calling lower_rank_def)
  next
    case False
    obtain t c' where st: "call_step (dedup_tab e) c = (t, c')" by fastforce
    with call_step_decreases[OF _ _ st, of r] assms(1) Calling False show ?thesis
      by (auto simp: fine_step_calling lower_rank_def)
  qed
qed

text \<open>No request runs forever, whatever engine it finds at each of its steps.\<close>

lemma always_finishes:
  assumes "xs 0 = Plain (request_of_op op)" "\<forall>n. \<exists>e. xs (Suc n) = snd (fine_step h e (xs n))"
  shows "\<exists>n r. xs n = Plain (Finished r)"
proof (rule ccontr)
  assume never: "\<not> (\<exists>n r. xs n = Plain (Finished r))"
  have pr: "proper (xs n)" for n
  proof (induction n)
    case (Suc n)
    then show ?case using assms(2) proper_step by metis
  qed (simp add: assms(1))
  have "(xs (Suc n), xs n) \<in> lower_rank" for n
    using fine_step_decreases[OF pr[of n]] never assms(2) by metis
  with wf_lower_rank show False unfolding wf_iff_no_infinite_down_chain by blast
qed

end
