(* ===== verification/Fine_System.thy ===== *)
theory Fine_System
  imports Fine_Steps Concurrent
begin

text \<open>
  All interleavings of any number of requests at the level of theory \<open>Fine_Steps\<close>, where an
  access to the deduplication table is a step of its own. In passthrough mode these are the
  runs of theory \<open>Concurrent\<close>, so its results carry over. In both modes every slot that
  anyone holds exists, every page read is complete, and the table keeps its own invariant.
\<close>

section \<open>The system\<close>

record fine_system =
  fine_engine :: proxy_engine
  fine_operations :: "engine_op list"
  fine_requests :: "fine_request list"

definition fine_start :: "proxy_engine \<Rightarrow> fine_system" where
  "fine_start e = \<lparr>fine_engine = e, fine_operations = [], fine_requests = []\<rparr>"

definition fine_arrive :: "engine_op \<Rightarrow> fine_system \<Rightarrow> fine_system" where
  "fine_arrive op s =
     s\<lparr>fine_operations := fine_operations s @ [op],
       fine_requests := fine_requests s @ [Plain (request_of_op op)]\<rparr>"

definition fine_advance :: "hash \<Rightarrow> nat \<Rightarrow> fine_system \<Rightarrow> fine_system" where
  "fine_advance h i s =
     (case fine_step h (fine_engine s) (fine_requests s ! i) of
        (e, x) \<Rightarrow> s\<lparr>fine_engine := e, fine_requests := (fine_requests s)[i := x]\<rparr>)"

inductive fine_system_step :: "hash \<Rightarrow> fine_system \<Rightarrow> fine_system \<Rightarrow> bool" for h where
  fine_arrives: "fine_system_step h s (fine_arrive op s)"
| fine_advances: "i < length (fine_requests s) \<Longrightarrow> fine_system_step h s (fine_advance h i s)"

inductive fine_reachable :: "hash \<Rightarrow> proxy_engine \<Rightarrow> fine_system \<Rightarrow> bool" for h e0 where
  fine_starts: "fine_reachable h e0 (fine_start e0)"
| fine_steps: "fine_reachable h e0 s \<Longrightarrow> fine_system_step h s s' \<Longrightarrow> fine_reachable h e0 s'"

fun fine_schedule :: "hash \<Rightarrow> (engine_op + nat) list \<Rightarrow> fine_system \<Rightarrow> fine_system" where
  "fine_schedule h [] s = s"
| "fine_schedule h (Inl op # es) s = fine_schedule h es (fine_arrive op s)"
| "fine_schedule h (Inr i # es) s =
     fine_schedule h es (if i < length (fine_requests s) then fine_advance h i s else s)"

lemma fine_schedule_reachable: "fine_reachable h e0 s \<Longrightarrow> fine_reachable h e0 (fine_schedule h es s)"
proof (induction h es s rule: fine_schedule.induct)
  case (2 h op es s)
  from fine_steps[OF 2(2) fine_arrives] show ?case by (simp add: 2(1))
next
  case (3 h i es s)
  then show ?case using fine_steps[OF 3(2) fine_advances, of i] by simp
qed simp

section \<open>In passthrough mode the table is never called\<close>

lemma direct_no_call: "direct_request ps r \<Longrightarrow> table_op_of r = None"
  by (cases r) (auto split: mapping_kind.splits)

definition same_system :: "fine_system \<Rightarrow> system \<Rightarrow> bool" where
  "same_system f s \<longleftrightarrow> engine s = fine_engine f \<and> operations s = fine_operations f
     \<and> fine_requests f = map Plain (requests s)"

lemma fine_simulated:
  assumes "fine_reachable h e0 f" "system_inv (system_start e0)"
  shows "\<exists>s. reachable h e0 s \<and> same_system f s"
  using assms(1)
proof (induction rule: fine_reachable.induct)
  case fine_starts
  have "same_system (fine_start e0) (system_start e0)"
    by (simp add: same_system_def fine_start_def system_start_def)
  with reachable.start show ?case by blast
next
  case (fine_steps f f')
  then obtain s where s: "reachable h e0 s" "same_system f s" by blast
  note same = s(2)[unfolded same_system_def]
  from fine_steps.hyps(2) show ?case
  proof cases
    case (fine_arrives op)
    have "same_system f' (system_arrive op s)"
      using same by (simp add: fine_arrives same_system_def fine_arrive_def system_arrive_def)
    with reachable.step[OF s(1) arrive] show ?thesis by blast
  next
    case (fine_advances i)
    have i: "i < length (requests s)" using fine_advances(2) same by simp
    obtain e' r' where st: "request_step h (engine s) (requests s ! i) = (e', r')" by fastforce
    have "direct_request (pstore (engine s)) (requests s ! i)"
      using reachable_inv[OF s(1) assms(2)] i by (simp add: system_inv_def list_all_length)
    from direct_no_call[OF this] have "fine_step h (fine_engine f) (fine_requests f ! i) = (e', Plain r')"
      using same st i by (simp add: fine_step_plain)
    then have "same_system f' (system_advance h i s)"
      using same st by (simp add: fine_advances same_system_def fine_advance_def system_advance_def map_update)
    with reachable.step[OF s(1) advance[OF i]] show ?thesis by blast
  qed
qed

section \<open>Every slot exists\<close>

text \<open>The errors a request may report: never that of a slot beyond the end of the store.\<close>

definition no_range_error :: "backend_error \<Rightarrow> bool" where
  "no_range_error err \<longleftrightarrow> (case err of OutOfRange _ _ \<Rightarrow> False | _ \<Rightarrow> True)"

primrec result_ok :: "op_result \<Rightarrow> bool" where
  "result_ok Done \<longleftrightarrow> True"
| "result_ok (Failed err) \<longleftrightarrow> no_range_error err"
| "result_ok (Data p) \<longleftrightarrow> length p = PAGE_SIZE"

fun request_in_range :: "u64 \<Rightarrow> request \<Rightarrow> bool" where
  "request_in_range n (WVerify off pg fp slot) \<longleftrightarrow> slot < n"
| "request_in_range n (WAddRef off pg fp slot) \<longleftrightarrow> slot < n"
| "request_in_range n (WStore off pg fpo slot) \<longleftrightarrow> slot < n"
| "request_in_range n (WUndo slot err) \<longleftrightarrow> slot < n \<and> no_range_error err"
| "request_in_range n (WInsert off pg fp slot) \<longleftrightarrow> slot < n"
| "request_in_range n (WMap off pg ent) \<longleftrightarrow> backend_slot ent < n"
| "request_in_range n (Releasing ent) \<longleftrightarrow> backend_slot ent < n"
| "request_in_range n (Freeing slot) \<longleftrightarrow> slot < n"
| "request_in_range n (RFetch slot) \<longleftrightarrow> slot < n"
| "request_in_range n (Finished r) \<longleftrightarrow> result_ok r"
| "request_in_range n r \<longleftrightarrow> True"

fun call_in_range :: "u64 \<Rightarrow> table_call \<Rightarrow> bool" where
  "call_in_range n (IContains fp data off) \<longleftrightarrow> off < n"
| "call_in_range n (IFull fp data off) \<longleftrightarrow> off < n"
| "call_in_range n (ISort fp data off) \<longleftrightarrow> off < n"
| "call_in_range n (IEvict fp data off candidates) \<longleftrightarrow> off < n"
| "call_in_range n (IUntrack fp data off victim) \<longleftrightarrow> off < n"
| "call_in_range n (IMap fp data off) \<longleftrightarrow> off < n"
| "call_in_range n (RRetain fp slot) \<longleftrightarrow> slot < n"
| "call_in_range n (Returned (RLookup (Duplicate slot))) \<longleftrightarrow> slot < n"
| "call_in_range n (Returned (RRemoval (Removed slot))) \<longleftrightarrow> slot < n"
| "call_in_range n c \<longleftrightarrow> True"

primrec in_range :: "u64 \<Rightarrow> fine_request \<Rightarrow> bool" where
  "in_range n (Plain r) \<longleftrightarrow> request_in_range n r"
| "in_range n (Calling r c) \<longleftrightarrow> request_in_range n r \<and> call_in_range n c"

definition table_in_range :: "u64 \<Rightarrow> dedup_table \<Rightarrow> bool" where
  "table_in_range n t \<longleftrightarrow> list_all (\<lambda>ent. backend_offset ent < n) (map snd (dt_map t))"

definition engine_in_range :: "u64 \<Rightarrow> proxy_engine \<Rightarrow> bool" where
  "engine_in_range n e \<longleftrightarrow> ps_inv (pstore e) \<and> total_slots (pstore e) = n \<and> max_slots (slot_alloc e) = n
     \<and> list_all (\<lambda>slot. slot < n) (free_slots (slot_alloc e))
     \<and> list_all (\<lambda>ent. backend_slot ent < n) (map snd (translation e))
     \<and> table_in_range n (dedup_tab e)"

lemma list_all_values_update: "list_all P (map snd al) \<Longrightarrow> P v \<Longrightarrow> list_all P (map snd (AList.update k v al))"
  by (induction al) auto

lemma list_all_values_delete: "list_all P (map snd al) \<Longrightarrow> list_all P (map snd (AList.delete k al))"
  by (induction al) auto

lemma list_all_value: "list_all P (map snd al) \<Longrightarrow> map_of al k = Some v \<Longrightarrow> P v"
  by (auto simp: list_all_iff dest!: map_of_SomeD)

lemma allocate_in_range:
  assumes "allocate sa = (sa', Some slot)" "list_all (\<lambda>s. s < max_slots sa) (free_slots sa)"
  shows "slot < max_slots sa" "max_slots sa' = max_slots sa" "list_all (\<lambda>s. s < max_slots sa) (free_slots sa')"
  by (cases sa rule: allocate_cases; use assms in auto)+

lemma file_errors:
  "file_seek f n = (f', Err err) \<Longrightarrow> no_range_error err"
  "file_write_all f d = (f', Err err) \<Longrightarrow> no_range_error err"
  "file_read_exact f n = (f', Err err) \<Longrightarrow> no_range_error err"
  by (auto simp: file_seek_def file_write_all_def file_read_exact_def no_range_error_def
      split: prod.splits io_outcome.splits if_splits)

lemma page_bytes_errors: "write_page_bytes f d = (f', Err err) \<Longrightarrow> no_range_error err"
  by (auto simp: write_page_bytes_def split: if_splits prod.splits sum.splits dest: file_errors)

lemma store_errors:
  assumes "slot < total_slots ps"
  shows "write_page ps slot data = (ps', Err err) \<Longrightarrow> no_range_error err"
    "read_page ps slot = (ps', Err err) \<Longrightarrow> no_range_error err"
proof -
  have "\<not> total_slots ps \<le> slot" using assms by simp
  then show "write_page ps slot data = (ps', Err err) \<Longrightarrow> no_range_error err"
    "read_page ps slot = (ps', Err err) \<Longrightarrow> no_range_error err"
    by (auto simp: write_page_def read_page_def Let_def split: prod.splits sum.splits
        dest: file_errors page_bytes_errors)
qed

lemma read_page_full: "ps_inv ps \<Longrightarrow> read_page ps slot = (ps', Ok p) \<Longrightarrow> length p = PAGE_SIZE"
  by (drule (1) read_page_ok) (auto simp: slot_page_def split: if_splits)

lemma request_step_in_range:
  assumes e: "engine_in_range n e" and r: "request_in_range n r" and no: "table_op_of r = None"
    and st: "request_step h e r = (e', r')"
  shows "engine_in_range n e' \<and> request_in_range n r' \<and> dedup_tab e' = dedup_tab e"
proof (cases r)
  case (WBegin off data)
  with e st show ?thesis by (auto simp: begin_write_def engine_in_range_def Let_def)
next
  case (WVerify off pg fp slot)
  obtain ps res where rd: "read_page (pstore e) slot = (ps, res)" by fastforce
  have i: "ps_inv (pstore e)" using e by (simp add: engine_in_range_def)
  have "ps_inv ps" "total_slots ps = total_slots (pstore e)" using read_page_same[OF i, of slot] rd by simp_all
  with e r st WVerify rd store_errors(2)[of slot "pstore e" ps] show ?thesis
    by (cases res) (auto simp: verify_step_def engine_in_range_def split: if_splits)
next
  case (WAlloc off pg fpo)
  obtain sa res where a: "allocate (slot_alloc e) = (sa, res)" by fastforce
  show ?thesis
  proof (cases res)
    case None
    with a allocate_None(2)[of "slot_alloc e" sa] WAlloc e st show ?thesis
      by (auto simp: alloc_step_def allocate_slot_def engine_in_range_def no_range_error_def)
  next
    case (Some slot)
    from e have free: "list_all (\<lambda>s. s < max_slots (slot_alloc e)) (free_slots (slot_alloc e))"
      by (simp add: engine_in_range_def)
    from allocate_in_range[OF _ this] a Some WAlloc e st show ?thesis
      by (auto simp: alloc_step_def allocate_slot_def engine_in_range_def)
  qed
next
  case (WStore off pg fpo slot)
  obtain ps res where w: "write_page (pstore e) slot pg = (ps, res)" by fastforce
  have i: "ps_inv (pstore e)" using e by (simp add: engine_in_range_def)
  have "ps_inv ps" "total_slots ps = total_slots (pstore e)"
    using write_page_inv[OF i, of slot pg] write_page_total[OF i, of slot pg] w by simp_all
  with e r st WStore w store_errors(1)[of slot "pstore e" pg ps] show ?thesis
    by (cases res; cases fpo)
       (auto simp: store_step_def write_page_to_slot_def engine_in_range_def count_unique_def entry_direct_def)
next
  case (WMap off pg ent)
  with e r st show ?thesis
    by (auto simp: map_step_def translation_insert_def engine_in_range_def list_all_values_update
        split: option.splits dest: list_all_value)
next
  case (Releasing ent)
  with e r st no show ?thesis
    by (auto simp: release_step_def engine_in_range_def free_slot_def free_slot_of_def split: mapping_kind.splits)
next
  case (RBegin off)
  with e st show ?thesis
    by (auto simp: begin_read_def translation_lookup_def engine_in_range_def Let_def
        split: option.splits dest: list_all_value)
next
  case (RFetch slot)
  obtain ps res where rd: "read_page (pstore e) slot = (ps, res)" by fastforce
  have i: "ps_inv (pstore e)" using e by (simp add: engine_in_range_def)
  have "ps_inv ps" "total_slots ps = total_slots (pstore e)" using read_page_same[OF i, of slot] rd by simp_all
  with e r st RFetch rd store_errors(2)[of slot "pstore e" ps] read_page_full[OF i, of slot ps] show ?thesis
    by (cases res) (auto simp: fetch_step_def engine_in_range_def)
next
  case (DBegin off)
  with e st show ?thesis
    by (auto simp: begin_discard_def translation_remove_def engine_in_range_def list_all_values_delete Let_def
        split: option.splits dest: list_all_value)
qed (use e r st no in \<open>auto simp: engine_in_range_def free_slot_def free_slot_of_def\<close>)

lemma call_step_in_range:
  assumes "table_in_range n t" "call_in_range n c" "call_step t c = (t', c')"
  shows "table_in_range n t' \<and> call_in_range n c'"
proof -
  have ent: "backend_offset ent < n" if "map_of (dt_map t) fp = Some ent" for fp ent
    using list_all_value[OF assms(1)[unfolded table_in_range_def] that] .
  from assms show ?thesis
    by (cases c)
       (auto simp: access_defs table_in_range_def list_all_values_update list_all_values_delete Let_def ent
         split: list.splits option.splits if_splits)
qed

lemma begin_call_in_range: "request_in_range n r \<Longrightarrow> table_op_of r = Some op \<Longrightarrow> call_in_range n (begin_call t op)"
  by (cases r) (auto split: mapping_kind.splits)

lemma resume_in_range:
  assumes "engine_in_range n e" "request_in_range n r" "call_in_range n (Returned res)" "resume e r res = (e', r')"
  shows "engine_in_range n e' \<and> request_in_range n r' \<and> dedup_tab e' = dedup_tab e"
  using assms
  by (cases r)
     (auto simp: engine_in_range_def count_unique_def entry_deduplicated_def entry_direct_def split: resume_splits)

lemma engine_table_in_range:
  "engine_in_range n e \<Longrightarrow> table_in_range n t \<Longrightarrow> engine_in_range n (e\<lparr>dedup_tab := t\<rparr>)"
  by (simp add: engine_in_range_def)

section \<open>The table among the requests\<close>

text \<open>The calls under way make up a system of theory \<open>Dedup_Overlap\<close>.\<close>

primrec call_of :: "fine_request \<Rightarrow> table_call" where
  "call_of (Plain r) = Idle"
| "call_of (Calling r c) = c"

definition table_view :: "fine_system \<Rightarrow> table_system" where
  "table_view s = \<lparr>shared = dedup_tab (fine_engine s), calls = map call_of (fine_requests s)\<rparr>"

definition fine_inv :: "u64 \<Rightarrow> fine_system \<Rightarrow> bool" where
  "fine_inv n s \<longleftrightarrow> engine_in_range n (fine_engine s) \<and> list_all (in_range n) (fine_requests s)
     \<and> table_inv (table_view s)"

lemma rest_inv:
  assumes inv: "table_inv s" and i: "i < length (calls s)" and rest: "at_rest (calls s ! i)"
  shows "table_inv (s\<lparr>calls := (calls s)[i := Idle]\<rparr>)"
proof -
  have old: "\<not> will_insert (calls s ! i)" "\<not> inserting fp (calls s ! i)" for fp
    using rest by (cases "calls s ! i"; simp add: at_rest_def)+
  have "length (filter will_insert ((calls s)[i := Idle])) = length (filter will_insert (calls s))"
    using filter_update_length[OF i, of will_insert Idle] old by simp
  moreover have "list_all (bits_ok (dt_bloom (shared s))) ((calls s)[i := Idle])"
    using inv i by (auto simp: table_inv_def list_all_length nth_list_update)
  moreover have "list_ex (inserting fp) (calls s) \<Longrightarrow> list_ex (inserting fp) ((calls s)[i := Idle])" for fp
    using list_ex_update[OF _ i, of "inserting fp" Idle] old by blast
  ultimately show ?thesis using inv by (auto simp: table_inv_def)
qed

lemma table_inv_more: "table_inv s \<Longrightarrow> table_inv (s\<lparr>calls := calls s @ [Idle]\<rparr>)"
  by (auto simp: table_inv_def)

lemma fine_arrive_inv: "fine_inv n s \<Longrightarrow> fine_inv n (fine_arrive op s)"
  using table_inv_more[of "table_view s"]
  by (cases op) (simp_all add: fine_inv_def fine_arrive_def table_view_def)

lemma fine_advance_inv:
  assumes inv: "fine_inv n s" and i: "i < length (fine_requests s)"
  shows "fine_inv n (fine_advance h i s)"
proof -
  let ?e = "fine_engine s" and ?x = "fine_requests s ! i"
  have e: "engine_in_range n ?e" and x: "in_range n ?x" and t: "table_inv (table_view s)"
    using inv i by (simp_all add: fine_inv_def list_all_length)
  have iv: "i < length (calls (table_view s))" "calls (table_view s) ! i = call_of ?x"
    using i by (simp_all add: table_view_def)
  have others: "list_all (in_range n) ((fine_requests s)[i := x'])" if "in_range n x'" for x'
    using inv i that by (auto simp: fine_inv_def list_all_length nth_list_update)
  obtain e' x' where st: "fine_step h ?e ?x = (e', x')" by fastforce
  have "engine_in_range n e' \<and> in_range n x'
    \<and> table_inv ((table_view s)\<lparr>shared := dedup_tab e', calls := (calls (table_view s))[i := call_of x']\<rparr>)"
  proof (cases ?x)
    case (Plain r)
    have tab: "(table_view s)\<lparr>shared := dedup_tab ?e, calls := c\<rparr> = (table_view s)\<lparr>calls := c\<rparr>" for c
      by (simp add: table_view_def)
    show ?thesis
    proof (cases "table_op_of r")
      case None
      obtain e1 r1 where rs: "request_step h ?e r = (e1, r1)" by fastforce
      from request_step_in_range[OF e _ None rs] x Plain rest_inv[OF t iv(1)] iv st rs None tab show ?thesis
        by (auto simp: fine_step_plain at_rest_def)
    next
      case (Some op)
      with e x Plain begin_call_in_range[OF _ Some] call_inv[OF t iv(1), of op] iv st tab show ?thesis
        by (auto simp: fine_step_plain at_rest_def table_view_def)
    qed
  next
    case (Calling r c)
    show ?thesis
    proof (cases "\<exists>res. c = Returned res")
      case True
      then obtain res where c: "c = Returned res" by blast
      obtain e1 r1 where rs: "resume ?e r res = (e1, r1)" by fastforce
      from resume_in_range[OF e _ _ rs] x Calling c rest_inv[OF t iv(1)] iv st rs show ?thesis
        by (auto simp: fine_step_calling at_rest_def table_view_def)
    next
      case False
      obtain t1 c1 where cs: "call_step (dedup_tab ?e) c = (t1, c1)" by fastforce
      have "table_in_range n (dedup_tab ?e)" using e by (simp add: engine_in_range_def)
      from call_step_in_range[OF this _ cs] access_inv[OF t iv(1), of t1 c1] engine_table_in_range[OF e]
        x Calling False cs iv st show ?thesis
        by (auto simp: fine_step_calling table_view_def)
    qed
  qed
  with st others show ?thesis
    by (simp add: fine_inv_def fine_advance_def table_view_def map_update)
qed

lemma fine_reachable_inv:
  assumes "fine_reachable h e0 s" "fine_inv n (fine_start e0)"
  shows "fine_inv n s"
  using assms
proof (induction rule: fine_reachable.induct)
  case (fine_steps s s')
  then have "fine_inv n s" by blast
  with fine_steps.hyps(2) show ?case
    by cases (simp_all add: fine_arrive_inv fine_advance_inv)
qed

lemma fresh_fine_inv:
  assumes "engine_new ex dir opened gb maxe bc = Ok e"
  shows "fine_inv (slots_of_gb gb) (fine_start (e\<lparr>passthrough := b\<rparr>))"
proof -
  note F = engine_new_fields[OF assms]
  have "table_inv (table_start 0 (dedup_new maxe bc))" by (rule table_start_inv)
  then have "table_inv \<lparr>shared = dedup_new maxe bc, calls = []\<rparr>" by (simp add: table_start_def)
  moreover have "engine_in_range (slots_of_gb gb) (e\<lparr>passthrough := b\<rparr>)"
    using F ps_inv_slots_of_gb[OF F(5)]
    by (simp add: engine_in_range_def slot_allocator_new_def table_in_range_def dedup_new_def)
  ultimately show ?thesis using F(3) by (simp add: fine_inv_def fine_start_def table_view_def)
qed

lemma fine_operations_requests: "fine_reachable h e0 s \<Longrightarrow> length (fine_operations s) = length (fine_requests s)"
  by (induction rule: fine_reachable.induct)
     (auto simp: fine_start_def fine_arrive_def fine_advance_def split: prod.splits elim!: fine_system_step.cases)

lemma max_entries_resume: "resume e r res = (e', r') \<Longrightarrow> dedup_tab e' = dedup_tab e"
  by (cases r) (auto simp: count_unique_def split: resume_splits)

lemma max_entries_request: "table_op_of r = None \<Longrightarrow> request_step h e r = (e', r') \<Longrightarrow> dedup_tab e' = dedup_tab e"
  by (cases r)
     (auto simp: begin_write_def verify_step_def alloc_step_def allocate_slot_def store_step_def write_page_to_slot_def
       count_unique_def map_step_def release_step_def free_slot_def begin_read_def fetch_step_def begin_discard_def Let_def
       split: prod.splits sum.splits option.splits mapping_kind.splits)

lemma fine_capacity:
  assumes "fine_reachable h e0 s"
  shows "max_entries (dedup_tab (fine_engine s)) = max_entries (dedup_tab e0)"
  using assms
proof (induction rule: fine_reachable.induct)
  case (fine_steps s s')
  from fine_steps.hyps(2) show ?case
  proof cases
    case (fine_advances i)
    obtain e' x' where st: "fine_step h (fine_engine s) (fine_requests s ! i) = (e', x')" by fastforce
    have "max_entries (dedup_tab e') = max_entries (dedup_tab (fine_engine s))"
    proof (cases "fine_requests s ! i")
      case (Plain r)
      obtain e1 r1 where "request_step h (fine_engine s) r = (e1, r1)" by fastforce
      with st Plain max_entries_request[OF _ this] show ?thesis
        by (cases "table_op_of r") (auto simp: fine_step_plain)
    next
      case (Calling r c)
      have "max_entries (dedup_tab e1) = max_entries (dedup_tab (fine_engine s))"
        if "resume (fine_engine s) r res = (e1, r1)" for res e1 r1
        using max_entries_resume[OF that] by simp
      with st Calling show ?thesis
        by (cases "\<exists>res. c = Returned res")
           (auto simp: fine_step_calling map_prod_def split: prod.splits dest: call_step_capacity)
    qed
    with fine_steps.IH st show ?thesis by (simp add: fine_advances fine_advance_def)
  qed (use fine_steps.IH in \<open>simp add: fine_arrive_def\<close>)
qed (simp add: fine_start_def)

section \<open>A bounded number of requests under way\<close>

text \<open>
  A queue of the device serves its requests one after the other, so at most as many requests
  are under way as there are queues. Here a request arrives only while fewer than \<open>k\<close> of
  those before it are unfinished; every reachable system is limited by some \<open>k\<close>.
\<close>

definition unfinished :: "fine_request \<Rightarrow> bool" where
  "unfinished x \<longleftrightarrow> (case x of Plain (Finished r) \<Rightarrow> False | _ \<Rightarrow> True)"

definition under_way :: "fine_system \<Rightarrow> nat" where
  "under_way s = length (filter unfinished (fine_requests s))"

inductive fine_limited :: "hash \<Rightarrow> nat \<Rightarrow> proxy_engine \<Rightarrow> fine_system \<Rightarrow> bool" for h k e0 where
  limited_starts: "fine_limited h k e0 (fine_start e0)"
| limited_arrives: "fine_limited h k e0 s \<Longrightarrow> under_way s < k \<Longrightarrow> fine_limited h k e0 (fine_arrive op s)"
| limited_advances: "fine_limited h k e0 s \<Longrightarrow> i < length (fine_requests s) \<Longrightarrow> fine_limited h k e0 (fine_advance h i s)"

lemma limited_reachable: "fine_limited h k e0 s \<Longrightarrow> fine_reachable h e0 s"
  by (induction rule: fine_limited.induct) (auto intro: fine_starts fine_steps fine_arrives fine_advances)

lemma limited_mono: "fine_limited h k e0 s \<Longrightarrow> k \<le> n \<Longrightarrow> fine_limited h n e0 s"
  by (induction rule: fine_limited.induct) (auto intro: fine_limited.intros)

lemma reachable_limited: "fine_reachable h e0 s \<Longrightarrow> fine_limited h (length (fine_requests s)) e0 s"
proof (induction rule: fine_reachable.induct)
  case fine_starts
  show ?case by (rule limited_starts)
next
  case (fine_steps s s')
  from fine_steps.hyps(2) show ?case
  proof cases
    case (fine_arrives op)
    have "under_way s < Suc (length (fine_requests s))" by (simp add: under_way_def le_imp_less_Suc)
    from limited_arrives[OF limited_mono[OF fine_steps.IH] this] show ?thesis
      by (simp add: fine_arrives fine_arrive_def)
  next
    case (fine_advances i)
    have "length (fine_requests s') = length (fine_requests s)"
      by (simp add: fine_advances fine_advance_def split: prod.split)
    with limited_advances[OF fine_steps.IH fine_advances(2)] show ?thesis by (simp add: fine_advances)
  qed
qed

lemma fine_finished_stays: "\<not> unfinished x \<Longrightarrow> fine_step h e x = (e, x)"
  by (auto simp: unfinished_def fine_step_plain split: fine_request.splits request.splits)

lemma limited_under_way:
  assumes "fine_limited h k e0 s"
  shows "under_way s \<le> k"
  using assms
proof (induction rule: fine_limited.induct)
  case (limited_advances s i)
  obtain e' x' where st: "fine_step h (fine_engine s) (fine_requests s ! i) = (e', x')" by fastforce
  have "unfinished x' \<Longrightarrow> unfinished (fine_requests s ! i)"
    using fine_finished_stays[of "fine_requests s ! i" h "fine_engine s"] st by auto
  with filter_update_length[OF limited_advances.hyps(2), of unfinished x'] limited_advances.IH st show ?case
    by (cases "unfinished x'") (auto simp: under_way_def fine_advance_def)
qed (simp_all add: under_way_def fine_start_def fine_arrive_def)

text \<open>Entries of the map and insertions under way that have passed the capacity check.\<close>

definition fine_room :: "nat \<Rightarrow> fine_system \<Rightarrow> bool" where
  "fine_room k s \<longleftrightarrow> length (dt_map (shared (table_view s))) + length (filter will_insert (calls (table_view s)))
     \<le> unat (max_entries (shared (table_view s))) + (k - 1)"

lemma view_advance:
  assumes i: "i < length (fine_requests s)"
  shows "table_view (fine_advance h i s) = table_view s
      \<or> (\<exists>c. table_view (fine_advance h i s) = (table_view s)\<lparr>calls := (calls (table_view s))[i := c]\<rparr> \<and> \<not> will_insert c)
      \<or> (\<exists>t' c'. call_step (shared (table_view s)) (calls (table_view s) ! i) = (t', c')
          \<and> table_view (fine_advance h i s) = \<lparr>shared = t', calls = (calls (table_view s))[i := c']\<rparr>)"
proof -
  let ?e = "fine_engine s" and ?x = "fine_requests s ! i"
  have v: "table_view (fine_advance h i s) = \<lparr>shared = dedup_tab e', calls = (calls (table_view s))[i := call_of x']\<rparr>"
    if "fine_step h ?e ?x = (e', x')" for e' x'
    using that by (simp add: fine_advance_def table_view_def map_update)
  have idle: "\<exists>c. \<lparr>shared = dedup_tab ?e, calls = (calls (table_view s))[i := c0]\<rparr>
      = (table_view s)\<lparr>calls := (calls (table_view s))[i := c]\<rparr> \<and> \<not> will_insert c" if "\<not> will_insert c0" for c0
    using that by (auto simp: table_view_def)
  show ?thesis
  proof (cases ?x)
    case (Plain r)
    show ?thesis
    proof (cases "table_op_of r")
      case None
      obtain e1 r1 where rs: "request_step h ?e r = (e1, r1)" by fastforce
      with Plain None have "fine_step h ?e ?x = (e1, Plain r1)" by (simp add: fine_step_plain)
      from v[OF this] max_entries_request[OF None rs] idle[of Idle] show ?thesis by simp
    next
      case (Some op)
      with Plain have "fine_step h ?e ?x = (?e, Calling r (begin_call (dedup_tab ?e) op))" by (simp add: fine_step_plain)
      from v[OF this] idle[of "begin_call (dedup_tab ?e) op"] show ?thesis by (cases op) simp_all
    qed
  next
    case (Calling r c)
    show ?thesis
    proof (cases "\<exists>res. c = Returned res")
      case True
      then obtain res where c: "c = Returned res" by blast
      obtain e1 r1 where rs: "resume ?e r res = (e1, r1)" by fastforce
      with Calling c have "fine_step h ?e ?x = (e1, Plain r1)" by (simp add: fine_step_calling)
      from v[OF this] max_entries_resume[OF rs] idle[of Idle] show ?thesis by simp
    next
      case False
      obtain t1 c1 where cs: "call_step (dedup_tab ?e) c = (t1, c1)" by fastforce
      with Calling False have "fine_step h ?e ?x = (?e\<lparr>dedup_tab := t1\<rparr>, Calling r c1)" by (simp add: fine_step_calling)
      from v[OF this] cs i Calling show ?thesis by (simp add: table_view_def)
    qed
  qed
qed

lemma active_under_way: "length (filter (\<lambda>c. \<not> at_rest c) (calls (table_view s))) \<le> under_way s"
proof -
  have "length (filter (\<lambda>c. \<not> at_rest c) (calls (table_view s))) =
      length (filter (\<lambda>x. \<not> at_rest (call_of x)) (fine_requests s))"
    by (simp add: table_view_def filter_map o_def)
  also have "\<dots> \<le> under_way s"
    unfolding under_way_def
    by (rule filter_length_mono) (auto simp: unfinished_def at_rest_def split: fine_request.splits)
  finally show ?thesis .
qed

lemma limited_room:
  assumes "fine_limited h k e0 s" "fine_inv n (fine_start e0)" "fine_room k (fine_start e0)"
  shows "fine_room k s"
  using assms(1)
proof (induction rule: fine_limited.induct)
  case limited_starts
  show ?case by (rule assms(3))
next
  case (limited_arrives s op)
  then show ?case by (cases op) (simp_all add: fine_room_def table_view_def fine_arrive_def)
next
  case (limited_advances s i)
  let ?v = "table_view s" and ?v' = "table_view (fine_advance h i s)"
  have i: "i < length (calls ?v)" using limited_advances.hyps(2) by (simp add: table_view_def)
  have t: "table_inv ?v"
    using fine_reachable_inv[OF limited_reachable[OF limited_advances.hyps(1)] assms(2)] by (simp add: fine_inv_def)
  have room: "length (dt_map (shared ?v)) + length (filter will_insert (calls ?v))
      \<le> unat (max_entries (shared ?v)) + (k - 1)" using limited_advances.IH by (simp add: fine_room_def)
  have k: "length (filter (\<lambda>c. \<not> at_rest c) (calls ?v)) \<le> k"
    using active_under_way[of s] limited_under_way[OF limited_advances.hyps(1)] by simp
  consider "?v' = ?v" | c where "?v' = ?v\<lparr>calls := (calls ?v)[i := c]\<rparr>" "\<not> will_insert c"
    | t' c' where "call_step (shared ?v) (calls ?v ! i) = (t', c')" "?v' = \<lparr>shared = t', calls = (calls ?v)[i := c']\<rparr>"
    using view_advance[OF limited_advances.hyps(2), of h] by blast
  then show ?case
  proof cases
    case 1
    with room show ?thesis by (simp add: fine_room_def)
  next
    case (2 c)
    with room filter_update_length[OF i, of will_insert c] show ?thesis by (simp add: fine_room_def)
  next
    case (3 t' c')
    have "access_ok (shared ?v) (calls ?v ! i) t' c'"
      using call_step_ok[OF _ _ _ 3(1)] t i by (simp add: table_inv_def list_all_length)
    from access_room[OF this i 3(1) room k] 3(2) show ?thesis by (simp add: fine_room_def)
  qed
qed

lemma fresh_room:
  assumes "engine_new ex dir opened gb maxe bc = Ok e"
  shows "fine_room k (fine_start (e\<lparr>passthrough := b\<rparr>))"
  using engine_new_fields[OF assms] by (simp add: fine_room_def table_view_def fine_start_def dedup_new_def)

end
