(* ===== verification/Concurrent_Properties.thy ===== *)
theory Concurrent_Properties
  imports Stale_Duplicate Fine_System Proxy_Properties
begin

text \<open>
  The properties of the engine under overlapping requests. The witnesses run short
  schedules on the engine that \<open>engine_new\<close> creates on an empty file.
\<close>

section \<open>Schedules for the witnesses\<close>

text \<open>A write that has its slot but has not stored its page, and a finished discard.\<close>

definition overlap_schedule :: "(engine_op + nat) list" where
  "overlap_schedule = [Inl (EWrite 0 [1]), Inr 0, Inr 0, Inl (EDiscard 4096), Inr 1]"

lemma new_engine_fields:
  "passthrough new_engine" "translation new_engine = []"
  "slot_alloc new_engine = \<lparr>free_slots = [], next_slot = 0, max_slots = 262144\<rparr>"
  "total_slots (pstore new_engine) = 262144" "healthy (pstore new_engine)"
  by (simp_all add: new_engine_def slot_allocator_new_def slots_of_gb_1 page_store_on_def healthy_def blank_file_def)

lemma overlap_run:
  "requests (run_schedule h overlap_schedule (system_start new_engine)) =
     [WStore 0 (padded [1]) None 0, Finished Done]"
  "commit_log (run_schedule h overlap_schedule (system_start new_engine)) = [1]"
  "operations (run_schedule h overlap_schedule (system_start new_engine)) = [EWrite 0 [1], EDiscard 4096]"
  by (simp_all add: overlap_schedule_def system_start_def system_arrive_def system_advance_def new_engine_fields
      begin_write_def alloc_step_def allocate_slot_def allocate_def begin_discard_def translation_remove_def Let_def)

lemma overlap_reachable: "reachable h new_engine (run_schedule h overlap_schedule (system_start new_engine))"
  by (rule run_schedule_reachable[OF reachable.start])

lemma new_engine_store: "ps_inv (pstore new_engine)"
  using engine_new_inv(1)[OF engine_new_new] by (simp add: eng_inv_def eng_books_def)

section \<open>A race\<close>

text \<open>A new write up to the access that maps its page, and that access and the next one.\<close>

lemma run_to_map:
  assumes "n = length rs" "passthrough e" "allocate (slot_alloc e) = (sa, Some slot)"
    and "write_page (pstore e) slot (padded d) = (ps, Ok ())"
  shows "\<exists>e'. run_schedule h (Inl (EWrite off d) # Inr n # Inr n # Inr n # es) (system_of e ops rs l) =
      run_schedule h es (system_of e' (ops @ [EWrite off d]) (rs @ [WMap off (padded d) (entry_direct slot)]) l)
    \<and> passthrough e' \<and> translation e' = translation e \<and> slot_alloc e' = sa \<and> pstore e' = ps"
proof -
  let ?st = "pstats e"
  define e' where "e' = e\<lparr>slot_alloc := sa, pstore := ps,
    pstats := ?st\<lparr>total_writes := total_writes ?st + 1, unique_writes := unique_writes ?st + 1\<rparr>\<rparr>"
  have "run_schedule h (Inl (EWrite off d) # Inr n # Inr n # Inr n # es) (system_of e ops rs l) =
      run_schedule h es (system_of e' (ops @ [EWrite off d]) (rs @ [WMap off (padded d) (entry_direct slot)]) l)"
    using assms
    by (simp add: system_arrive_def system_advance_def begin_write_def alloc_step_def allocate_slot_def store_step_def
        write_page_to_slot_def count_unique_def Let_def e'_def)
  moreover have "passthrough e' \<and> translation e' = translation e \<and> slot_alloc e' = sa \<and> pstore e' = ps"
    using assms(2) by (simp add: e'_def)
  ultimately show ?thesis by blast
qed

lemma run_map_new:
  assumes "i < length rs" "rs ! i = WMap off pg ent" "map_of (translation e) off = None"
  shows "run_schedule h (Inr i # es) (system_of e ops rs l) =
    run_schedule h es (system_of (e\<lparr>translation := AList.update off ent (translation e)\<rparr>) ops (rs[i := Finished Done]) (l @ [i]))"
  using assms by (simp add: system_advance_def map_step_def translation_insert_def)

lemma run_map_old:
  assumes "i < length rs" "rs ! i = WMap off pg ent" "map_of (translation e) off = Some (entry_direct slot)"
  shows "run_schedule h (Inr i # Inr i # es) (system_of e ops rs l) =
    run_schedule h es (system_of (free_slot (e\<lparr>translation := AList.update off ent (translation e)\<rparr>) slot) ops
      (rs[i := Finished Done]) (l @ [i]))"
  using assms
  by (simp add: system_advance_def map_step_def translation_insert_def release_step_def entry_direct_def)

lemma run_lookup:
  assumes "n = length rs" "map_of (translation e) off = Some ent"
  shows "\<exists>e'. run_schedule h (Inl (ERead off) # Inr n # es) (system_of e ops rs l) =
      run_schedule h es (system_of e' (ops @ [ERead off]) (rs @ [RFetch (backend_slot ent)]) l)
    \<and> passthrough e' = passthrough e \<and> translation e' = translation e \<and> slot_alloc e' = slot_alloc e \<and> pstore e' = pstore e"
proof -
  have "run_schedule h (Inl (ERead off) # Inr n # es) (system_of e ops rs l) =
      run_schedule h es (system_of (e\<lparr>pstats := (pstats e)\<lparr>total_reads := total_reads (pstats e) + 1\<rparr>\<rparr>)
        (ops @ [ERead off]) (rs @ [RFetch (backend_slot ent)]) l)"
    using assms by (simp add: system_arrive_def system_advance_def begin_read_def translation_lookup_def Let_def)
  then show ?thesis by (intro exI conjI) (assumption, simp_all)
qed

lemma write_page_next:
  assumes "healthy ps" "ps_inv ps" "total_slots ps = n" "slot < n"
  obtains ps' where "write_page ps slot d = (ps', Ok ())" "healthy ps'" "ps_inv ps'" "total_slots ps' = n"
proof (rule that)
  have w: "snd (write_page ps slot d) = Ok ()" "healthy (fst (write_page ps slot d))"
    using write_page_healthy[OF assms(1), of slot d] assms(3,4) by simp_all
  from w show "write_page ps slot d = (fst (write_page ps slot d), Ok ())" "healthy (fst (write_page ps slot d))"
    by (simp_all add: prod_eq_iff)
  show "ps_inv (fst (write_page ps slot d))" "total_slots (fst (write_page ps slot d)) = n"
    using write_page_inv[OF assms(2)] write_page_total[OF assms(2)] assms(3) by simp_all
qed

text \<open>A write of offset 0, and a read of it that has looked up its slot.\<close>

lemma write_run:
  "\<exists>e ps. run_schedule h ([Inl (EWrite 0 d), Inr 0, Inr 0, Inr 0, Inr 0] @ es) (system_start new_engine) =
      run_schedule h es (system_of e [EWrite 0 d] [Finished Done] [0])
    \<and> passthrough e \<and> translation e = [(0, entry_direct 0)]
    \<and> slot_alloc e = \<lparr>free_slots = [], next_slot = 1, max_slots = 262144\<rparr>
    \<and> write_page (pstore new_engine) 0 (padded d) = (ps, Ok ()) \<and> pstore e = ps"
proof -
  let ?d = "entry_direct"
  obtain ps1 where ps1: "write_page (pstore new_engine) 0 (padded d) = (ps1, Ok ())"
    using write_page_next[OF new_engine_fields(5) new_engine_store new_engine_fields(4), of 0 "padded d"] by auto
  have a: "allocate (slot_alloc new_engine) = (\<lparr>free_slots = [], next_slot = 1, max_slots = 262144\<rparr>, Some 0)"
    by (simp add: new_engine_fields allocate_def)
  have st: "system_start new_engine = system_of new_engine [] [] []" by (simp add: system_start_def)
  obtain e1 where e1: "run_schedule h (Inl (EWrite 0 d) # Inr 0 # Inr 0 # Inr 0 # Inr 0 # es) (system_start new_engine) =
      run_schedule h (Inr 0 # es) (system_of e1 [EWrite 0 d] [WMap 0 (padded d) (?d 0)] [])"
    "passthrough e1" "translation e1 = []" "slot_alloc e1 = \<lparr>free_slots = [], next_slot = 1, max_slots = 262144\<rparr>"
    "pstore e1 = ps1"
    using run_to_map[OF _ new_engine_fields(1) a ps1(1), of 0 "[]" h 0 "Inr 0 # es" "[]" "[]"]
    by (auto simp: st new_engine_fields(2) simp del: run_schedule.simps)
  have s1: "run_schedule h (Inr 0 # es) (system_of e1 [EWrite 0 d] [WMap 0 (padded d) (?d 0)] []) =
      run_schedule h es (system_of (e1\<lparr>translation := [(0, ?d 0)]\<rparr>) [EWrite 0 d] [Finished Done] [0])"
    using run_map_new[of 0 "[WMap 0 (padded d) (?d 0)]" 0 _ _ e1] e1(3) by (simp del: run_schedule.simps)
  show ?thesis
    using e1 s1 ps1 by (intro exI[of _ "e1\<lparr>translation := [(0, ?d 0)]\<rparr>"] exI[of _ ps1]) (simp del: run_schedule.simps)
qed

lemma lookup_run:
  "\<exists>e ps. run_schedule h ([Inl (EWrite 0 d), Inr 0, Inr 0, Inr 0, Inr 0, Inl (ERead 0), Inr 1] @ es) (system_start new_engine) =
      run_schedule h es (system_of e [EWrite 0 d, ERead 0] [Finished Done, RFetch 0] [0])
    \<and> passthrough e \<and> translation e = [(0, entry_direct 0)]
    \<and> slot_alloc e = \<lparr>free_slots = [], next_slot = 1, max_slots = 262144\<rparr>
    \<and> write_page (pstore new_engine) 0 (padded d) = (ps, Ok ()) \<and> pstore e = ps"
proof -
  obtain e ps where r: "run_schedule h ([Inl (EWrite 0 d), Inr 0, Inr 0, Inr 0, Inr 0] @ Inl (ERead 0) # Inr 1 # es)
      (system_start new_engine) = run_schedule h (Inl (ERead 0) # Inr 1 # es) (system_of e [EWrite 0 d] [Finished Done] [0])"
    and e: "passthrough e" "translation e = [(0, entry_direct 0)]"
      "slot_alloc e = \<lparr>free_slots = [], next_slot = 1, max_slots = 262144\<rparr>"
      "write_page (pstore new_engine) 0 (padded d) = (ps, Ok ())" "pstore e = ps"
    using write_run by metis
  show ?thesis
    using run_lookup[of 1 "[Finished Done]" e 0 "entry_direct 0" h es "[EWrite 0 d]" "[0]"] r e
    by (auto simp: entry_direct_def simp del: run_schedule.simps)
qed

text \<open>A read looks up offset 0; before it fetches the page, the slot changes hands.\<close>

definition race_schedule :: "u8 list \<Rightarrow> u8 list \<Rightarrow> u8 list \<Rightarrow> (engine_op + nat) list" where
  "race_schedule d1 d2 d3 =
     [Inl (EWrite 0 d1), Inr 0, Inr 0, Inr 0, Inr 0,
      Inl (ERead 0), Inr 1,
      Inl (EWrite 0 d2), Inr 2, Inr 2, Inr 2, Inr 2, Inr 2,
      Inl (EWrite 4096 d3), Inr 3, Inr 3, Inr 3,
      Inr 1]"

lemma race_run:
  "operations (run_schedule h (race_schedule d1 d2 d3) (system_start new_engine)) =
     [EWrite 0 d1, ERead 0, EWrite 0 d2, EWrite 4096 d3]
   \<and> requests (run_schedule h (race_schedule d1 d2 d3) (system_start new_engine)) ! 1 = Finished (Data (padded d3))"
proof -
  let ?sa = "\<lambda>fs n. \<lparr>free_slots = fs, next_slot = n, max_slots = 262144\<rparr>" and ?d = "entry_direct"
  let ?r0 = "Finished Done" and ?r1 = "RFetch 0"
  let ?run = "\<lambda>es. run_schedule h es"
  obtain e2 ps1 where e2: "?run (race_schedule d1 d2 d3) (system_start new_engine) =
      ?run (drop 7 (race_schedule d1 d2 d3)) (system_of e2 [EWrite 0 d1, ERead 0] [?r0, ?r1] [0])"
    "passthrough e2" "translation e2 = [(0, ?d 0)]" "slot_alloc e2 = ?sa [] 1" "pstore e2 = ps1"
    and w1: "write_page (pstore new_engine) 0 (padded d1) = (ps1, Ok ())"
    using lookup_run[of h d1 "drop 7 (race_schedule d1 d2 d3)"]
    by (auto simp: race_schedule_def simp del: run_schedule.simps)
  have ps1: "healthy ps1" "ps_inv ps1" "total_slots ps1 = 262144"
    using write_page_next[OF new_engine_fields(5) new_engine_store new_engine_fields(4), of 0 "padded d1"] w1 by auto
  obtain ps2 where ps2: "write_page ps1 1 (padded d2) = (ps2, Ok ())"
    "healthy ps2" "ps_inv ps2" "total_slots ps2 = 262144"
    using write_page_next[OF ps1, of 1 "padded d2"] by auto
  obtain ps3 where ps3: "write_page ps2 0 (padded d3) = (ps3, Ok ())"
    "healthy ps3" "ps_inv ps3" "total_slots ps3 = 262144"
    using write_page_next[OF ps2(2-4), of 0 "padded d3"] by auto
  have "slot_page ps3 0 = Some (padded d3)" using write_page_ok[OF ps2(3) ps3(1)] by (simp add: padded_padded)
  from read_page_healthy[OF ps3(2,3) this] have "snd (read_page ps3 0) = Ok (padded d3)" by simp
  then obtain ps4 where ps4: "read_page ps3 0 = (ps4, Ok (padded d3))" by (cases "read_page ps3 0") simp
  have a2: "allocate (slot_alloc e2) = (?sa [] 2, Some 1)" by (simp add: e2(4) allocate_def Let_def word_le_nat_alt)
  have w2: "write_page (pstore e2) 1 (padded d2) = (ps2, Ok ())" by (simp add: e2(5) ps2(1))
  obtain e3 where e3: "?run (race_schedule d1 d2 d3) (system_start new_engine) =
      ?run (drop 11 (race_schedule d1 d2 d3)) (system_of e3 [EWrite 0 d1, ERead 0, EWrite 0 d2]
        [?r0, ?r1, WMap 0 (padded d2) (?d 1)] [0])"
    "passthrough e3" "translation e3 = [(0, ?d 0)]" "slot_alloc e3 = ?sa [] 2" "pstore e3 = ps2"
    using run_to_map[OF _ e2(2) a2 w2, of 2 "[?r0, ?r1]" h 0 "drop 11 (race_schedule d1 d2 d3)"
        "[EWrite 0 d1, ERead 0]" "[0]"] e2(1,3)
    by (auto simp: race_schedule_def simp del: run_schedule.simps)
  define e4 where "e4 = free_slot (e3\<lparr>translation := [(0, ?d 1)]\<rparr>) 0"
  have e4: "passthrough e4" "translation e4 = [(0, ?d 1)]" "slot_alloc e4 = ?sa [0] 2" "pstore e4 = ps2"
    using e3 by (simp_all add: e4_def free_slot_def free_slot_of_def)
  have s4: "?run (race_schedule d1 d2 d3) (system_start new_engine) =
      ?run (drop 13 (race_schedule d1 d2 d3)) (system_of e4 [EWrite 0 d1, ERead 0, EWrite 0 d2] [?r0, ?r1, ?r0] [0, 2])"
    unfolding e3(1) using run_map_old[of 2 "[?r0, ?r1, WMap 0 (padded d2) (?d 1)]" 0 _ _ e3 0] e3(3)
    by (auto simp: race_schedule_def e4_def simp del: run_schedule.simps)
  have a4: "allocate (slot_alloc e4) = (?sa [] 2, Some 0)" by (simp add: e4(3) allocate_def)
  have w4: "write_page (pstore e4) 0 (padded d3) = (ps3, Ok ())" by (simp add: e4(4) ps3(1))
  obtain e5 where e5: "?run (race_schedule d1 d2 d3) (system_start new_engine) =
      ?run [Inr 1] (system_of e5 [EWrite 0 d1, ERead 0, EWrite 0 d2, EWrite 4096 d3]
        [?r0, ?r1, ?r0, WMap 4096 (padded d3) (?d 0)] [0, 2])" "pstore e5 = ps3"
    using run_to_map[OF _ e4(1) a4 w4, of 3 "[?r0, ?r1, ?r0]" h 4096 "[Inr 1]"
        "[EWrite 0 d1, ERead 0, EWrite 0 d2]" "[0, 2]"] s4
    by (auto simp: race_schedule_def simp del: run_schedule.simps)
  show ?thesis unfolding e5(1) by (simp add: system_advance_def fetch_step_def e5(2) ps4)
qed

section \<open>Fetching the page of a read\<close>

lemma reachable_steps:
  assumes "(system_step h)\<^sup>*\<^sup>* s t" "reachable h e s"
  shows "reachable h e t \<and> length (requests s) \<le> length (requests t)"
  using assms(1)
proof (induction rule: rtranclp_induct)
  case base
  show ?case using assms(2) by simp
next
  case (step t u)
  have "length (requests t) \<le> length (requests u)"
    using step.hyps(2) by cases (auto simp: system_arrive_def system_advance_def split: prod.split)
  with step.IH reachable.step[OF _ step.hyps(2)] show ?case by auto
qed

lemma fetch_current:
  assumes "engine_new ex dir opened gb maxe bc = Ok e" "reachable h e t" "i < length (requests t)"
    and "requests t ! i = RFetch (backend_slot ent)" "map_of (translation (engine t)) off = Some ent"
  shows "requests (system_advance h i t) ! i = Finished (Data (disk (engine t) off))
    \<or> (\<exists>err. requests (system_advance h i t) ! i = Finished (Failed err))"
proof -
  obtain e' r where f: "fetch_step (engine t) (backend_slot ent) = (e', r)" by fastforce
  have "engine_ok (engine t)"
    using reachable_inv[OF assms(2) fresh_system_inv[OF assms(1)]] by (simp add: system_inv_def)
  from fetch_mapped[OF this assms(5) f] show ?thesis
    using f assms(3,4) by (simp add: system_advance_def)
qed

section \<open>Properties\<close>

text \<open>
  Beyond the properties: the accesses of a request with each call of the deduplication table
  as one step, run without interruption, do what its method does.
\<close>

lemma lone_request_atomic:
  "run_alone 10 h e (request_of_op op) = (fst (engine_step h e op), Finished (snd (engine_step h e op)))"
  by (rule run_alone_atomic) simp_all

text \<open>
  C11: the single accesses of a request, those inside the methods of the deduplication table
  included, run without interruption, do what its method does as one atomic operation: same
  engine, same result, for every operation and every engine, in both modes.
\<close>

theorem fine_request_atomic:
  "\<exists>k. \<forall>n. run_fine (k + n) h (e, Plain (request_of_op op)) =
     (fst (engine_step h e op), Plain (Finished (snd (engine_step h e op))))"
proof -
  obtain e' r where "engine_step h e op = (e', r)" by fastforce
  from run_fine_atomic[OF this] obtain k where
    "\<forall>n \<ge> k. run_fine n h (e, Plain (request_of_op op)) = (e', Plain (Finished r))" by blast
  then have "run_fine (k + n) h (e, Plain (request_of_op op)) = (e', Plain (Finished r))" for n by simp
  with \<open>engine_step h e op = (e', r)\<close> show ?thesis by (intro exI[of _ k]) simp
qed

text \<open>
  C12: every request finishes, whatever the other requests do to the engine between its
  steps: a request that takes a step again and again, each time on an engine that may have
  changed in any way, has a result after finitely many of its own steps. None of the three
  handlers retries or waits for another, and the loops over the Bloom bits and over the
  eviction candidates run over lists taken at their start.
\<close>

theorem requests_always_finish:
  assumes "xs 0 = Plain (request_of_op op)" "\<And>n. \<exists>e. xs (Suc n) = snd (fine_step h e (xs n))"
  shows "\<exists>n r. xs n = Plain (Finished r)"
  using always_finishes[of xs op h] assms by blast

lemma run_fine_Suc: "run_fine (Suc n) h x = fine_step h (fst (run_fine n h x)) (snd (run_fine n h x))"
  using run_fine_add[of n 1 h x] by simp

theorem requests_always_finish_witness:
  "\<exists>n r. snd (run_fine n (\<lambda>_. 0) (dedup_engine, Plain (WBegin 0 [1]))) = Plain (Finished r)"
proof (rule requests_always_finish[of _ "EWrite 0 [1]" "\<lambda>_. 0"])
  show "snd (run_fine 0 (\<lambda>_. 0) (dedup_engine, Plain (WBegin 0 [1]))) = Plain (request_of_op (EWrite 0 [1]))" by simp
  show "\<exists>e. snd (run_fine (Suc n) (\<lambda>_. 0) (dedup_engine, Plain (WBegin 0 [1])))
      = snd (fine_step (\<lambda>_. 0) e (snd (run_fine n (\<lambda>_. 0) (dedup_engine, Plain (WBegin 0 [1])))))" for n
    by (simp only: run_fine_Suc) blast
qed

text \<open>
  C13: in both modes, with at most \<open>k\<close> requests under way at any moment, however many are
  served and in whatever order their accesses happen, those inside the table included: every
  slot that the allocator, the translation table, the deduplication table or a request holds
  exists in the store, so no request fails for a slot out of range and every page returned
  is complete; the table tracks no fingerprint twice, never holds more than \<open>k - 1\<close> entries
  beyond its capacity (none if requests do not overlap), and no access to the Bloom bits is
  out of range. Every run is of this kind for some \<open>k\<close>.
\<close>

theorem overlapping_requests_safe:
  assumes "engine_new ex dir opened gb maxe bc = Ok e" "fine_limited h k (e\<lparr>passthrough := b\<rparr>) s"
  shows "engine_in_range (slots_of_gb gb) (fine_engine s) \<and> list_all (in_range (slots_of_gb gb)) (fine_requests s)
    \<and> Plain (Finished (Failed (OutOfRange slot n))) \<notin> set (fine_requests s)
    \<and> (Plain (Finished (Data p)) \<in> set (fine_requests s) \<longrightarrow> length p = PAGE_SIZE)
    \<and> distinct (map fst (dt_map (dedup_tab (fine_engine s))))
    \<and> length (dt_map (dedup_tab (fine_engine s))) \<le> unat maxe + (k - 1)
    \<and> list_all (\<lambda>x. list_all (\<lambda>i. unat (i div 64) < length (bloom_bits (dt_bloom (dedup_tab (fine_engine s)))))
        (bits_of (call_of x))) (fine_requests s)"
proof -
  note reach = limited_reachable[OF assms(2)] and fresh = fresh_fine_inv[OF assms(1)]
  have inv: "fine_inv (slots_of_gb gb) s" by (rule fine_reachable_inv[OF reach fresh])
  then have r: "list_all (in_range (slots_of_gb gb)) (fine_requests s)" and t: "table_inv (table_view s)"
    by (simp_all add: fine_inv_def)
  have "max_entries (dedup_tab (fine_engine s)) = maxe"
    using fine_capacity[OF reach] engine_new_fields[OF assms(1)] by (simp add: dedup_new_def)
  with limited_room[OF assms(2) fresh fresh_room[OF assms(1)]]
  have "length (dt_map (dedup_tab (fine_engine s))) \<le> unat maxe + (k - 1)"
    by (simp add: fine_room_def table_view_def)
  moreover have ok: "in_range (slots_of_gb gb) x" if "x \<in> set (fine_requests s)" for x
    using r that by (simp add: list_all_iff)
  moreover have "Plain (Finished (Failed (OutOfRange slot n))) \<notin> set (fine_requests s)"
    using ok[of "Plain (Finished (Failed (OutOfRange slot n)))"] by (auto simp: no_range_error_def)
  moreover have "length p = PAGE_SIZE" if "Plain (Finished (Data p)) \<in> set (fine_requests s)"
    using ok[OF that] by simp
  ultimately show ?thesis
    using inv r t[unfolded table_inv_def] bits_in_range[OF t]
    by (simp add: fine_inv_def table_view_def list_all_iff)
qed

theorem overlapping_requests_safe_witness:
  "\<exists>(s :: fine_system) r c. fine_requests s = [Calling r c] \<and> c \<noteq> Idle
    \<and> engine_in_range (slots_of_gb 1) (fine_engine s) \<and> length (dt_map (dedup_tab (fine_engine s))) \<le> 262144"
proof -
  let ?h = "\<lambda>_. 0 :: 128 word"
  define s where "s = fine_advance ?h 0 (fine_advance ?h 0 (fine_arrive (EWrite 0 [1]) (fine_start dedup_engine)))"
  have p: "\<not> passthrough dedup_engine" by (simp add: dedup_engine_def)
  have s: "\<exists>r c. fine_requests s = [Calling r c] \<and> c \<noteq> Idle"
    using p by (simp add: s_def fine_start_def fine_arrive_def fine_advance_def fine_step_plain begin_write_def Let_def)
  have "fine_limited ?h 1 (new_engine\<lparr>passthrough := False\<rparr>) s"
    unfolding s_def dedup_engine_def[symmetric]
    by (intro fine_limited.intros)
       (simp_all add: under_way_def fine_start_def fine_arrive_def fine_advance_def split: prod.split)
  from overlapping_requests_safe[OF engine_new_new this] s show ?thesis by (intro exI[of _ s]) auto
qed

text \<open>
  C14: in passthrough mode no request ever calls the deduplication table, so the runs at the
  level of the single accesses are runs of the coarser system: same engine, same operations,
  same requests. What the next three properties say of it holds at the finest level too.
\<close>

theorem passthrough_never_calls_table:
  assumes "engine_new ex dir opened gb maxe bc = Ok e" "fine_reachable h e f"
  shows "\<exists>s. reachable h e s \<and> engine s = fine_engine f \<and> operations s = fine_operations f
    \<and> fine_requests f = map Plain (requests s)"
  using fine_simulated[OF assms(2) fresh_system_inv[OF assms(1)]] by (auto simp: same_system_def)

theorem passthrough_never_calls_table_witness:
  "\<exists>(f :: fine_system) s. fine_operations f = [EWrite 0 [1]] \<and> reachable (\<lambda>_. 0) new_engine s
    \<and> engine s = fine_engine f \<and> fine_requests f = map Plain (requests s)"
proof -
  define f where "f = fine_schedule (\<lambda>_. 0) [Inl (EWrite 0 [1]), Inr 0, Inr 0, Inr 0, Inr 0] (fine_start new_engine)"
  have "fine_reachable (\<lambda>_. 0) new_engine f"
    unfolding f_def by (rule fine_schedule_reachable[OF fine_starts])
  from passthrough_never_calls_table[OF engine_new_new this] show ?thesis
    by (intro exI[of _ f]) (auto simp: f_def fine_start_def fine_arrive_def fine_advance_def split: prod.splits)
qed

text \<open>
  C15: in passthrough mode, whatever requests overlap and in whatever order their accesses
  happen, every slot of the store has exactly one owner at every moment: the allocator, one
  offset, or one request. No slot is lost, shared or handed out twice.
\<close>

theorem every_slot_one_owner:
  assumes "engine_new ex dir opened gb maxe bc = Ok e" "reachable h e s"
  shows "mset_set (sa_avail (slot_alloc (engine s))) + image_mset backend_slot (live (engine s))
    + sum_list (map owned (requests s)) = mset_set {..<slots_of_gb gb}"
proof -
  note f = fresh_system_inv[OF assms(1)]
  have "total_slots (pstore (engine s)) = slots_of_gb gb"
    using reachable_total[OF assms(2) f] engine_new_fields(5)[OF assms(1)] by simp
  with reachable_inv[OF assms(2) f] show ?thesis
    by (simp add: system_inv_def slots_owned_def slots_held_def)
qed

theorem every_slot_one_owner_witness:
  "\<exists>s :: system. requests s = [WStore 0 (padded [1]) None 0, Finished Done]
    \<and> mset_set (sa_avail (slot_alloc (engine s))) + image_mset backend_slot (live (engine s)) + {#0#}
       = mset_set {..<slots_of_gb 1}"
proof -
  define s where "s = run_schedule (\<lambda>_. 0) overlap_schedule (system_start new_engine)"
  note o = overlap_run[of "\<lambda>_. 0", folded s_def]
  have "reachable (\<lambda>_. 0) new_engine s" unfolding s_def by (rule overlap_reachable)
  from every_slot_one_owner[OF engine_new_new this, unfolded o(1)]
  have "mset_set (sa_avail (slot_alloc (engine s))) + image_mset backend_slot (live (engine s)) + {#0#}
      = mset_set {..<slots_of_gb 1}" by (simp only: list.map owned.simps sum_list_simps add_0_right)
  with o(1) show ?thesis by blast
qed

text \<open>
  C16: in passthrough mode overlapping writes and discards are linearizable: the contents
  of the device are those of the committed operations, each applied once and in the order
  of the log; an operation that returned is in the log exactly when it succeeded; and the
  log only grows by requests that have not returned, so commits respect real time.
\<close>

theorem writes_linearizable:
  assumes "engine_new ex dir opened gb maxe bc = Ok e" "reachable h e s"
  shows "disk (engine s) = foldl (\<lambda>f i. op_effect (operations s ! i) f) (\<lambda>_. replicate PAGE_SIZE 0) (commit_log s)
    \<and> distinct (commit_log s)
    \<and> (\<forall>i < length (requests s). (requests s ! i = Finished Done \<longrightarrow> i \<in> set (commit_log s))
         \<and> (\<forall>err. requests s ! i = Finished (Failed err) \<longrightarrow> i \<notin> set (commit_log s)))
    \<and> (\<forall>s'. (system_step h)\<^sup>*\<^sup>* s s' \<longrightarrow> (\<exists>l. commit_log s' = commit_log s @ l
         \<and> (\<forall>i \<in> set l. i < length (requests s) \<longrightarrow> (\<forall>x. requests s ! i \<noteq> Finished x))))"
proof -
  have L: "log_inv s"
    using reachable_log[OF assms(2) fresh_system_inv[OF assms(1)]] engine_new_fields(1)[OF assms(1)] by simp
  have "(requests s ! i = Finished Done \<longrightarrow> i \<in> set (commit_log s))
      \<and> (\<forall>err. requests s ! i = Finished (Failed err) \<longrightarrow> i \<notin> set (commit_log s))" if "i < length (requests s)" for i
    using L that by (cases "operations s ! i") (auto simp: log_inv_def request_logged_def committed_def split: if_splits)
  with L log_grows[of h s] show ?thesis by (simp add: log_inv_def committed_contents_def)
qed

theorem writes_linearizable_witness:
  "\<exists>s :: system. requests s = [WStore 0 (padded [1]) None 0, Finished Done] \<and> commit_log s = [1]
    \<and> disk (engine s) = (\<lambda>_. replicate PAGE_SIZE 0)(4096 := replicate PAGE_SIZE 0)"
proof -
  define s where "s = run_schedule (\<lambda>_. 0) overlap_schedule (system_start new_engine)"
  note o = overlap_run[of "\<lambda>_. 0", folded s_def]
  have "reachable (\<lambda>_. 0) new_engine s" unfolding s_def by (rule overlap_reachable)
  from writes_linearizable[OF engine_new_new this, THEN conjunct1, unfolded o]
  have "disk (engine s) = (\<lambda>_. replicate PAGE_SIZE 0)(4096 := replicate PAGE_SIZE 0)"
    by (simp only: foldl.simps One_nat_def nth_Cons_Suc nth_Cons_0 op_effect.simps)
  with o show ?thesis by blast
qed

text \<open>
  C17: a read of \<open>off\<close> from its first access on, in passthrough mode. If the offset is not
  mapped it returns zeros, the current contents. If it is mapped, the read goes to the slot
  of that mapping and to no other; whatever other requests do until it fetches the page, it
  then returns the contents of \<open>off\<close> at that moment, or an error of the store, provided
  \<open>off\<close> is mapped to the same slot again or still.
\<close>

theorem read_current_unless_remapped:
  assumes "engine_new ex dir opened gb maxe bc = Ok e" "reachable h e s"
    and "i < length (requests s)" "operations s ! i = ERead off" "requests s ! i = RBegin x"
  shows "case map_of (translation (engine s)) off of
      None \<Rightarrow> requests (system_advance h i s) ! i = Finished (Data (disk (engine s) off))
    | Some ent \<Rightarrow> requests (system_advance h i s) ! i = RFetch (backend_slot ent)
        \<and> (\<forall>t ent'. (system_step h)\<^sup>*\<^sup>* (system_advance h i s) t \<longrightarrow> requests t ! i = RFetch (backend_slot ent)
             \<longrightarrow> map_of (translation (engine t)) off = Some ent' \<longrightarrow> backend_slot ent' = backend_slot ent
             \<longrightarrow> requests (system_advance h i t) ! i = Finished (Data (disk (engine t) off))
               \<or> (\<exists>err. requests (system_advance h i t) ! i = Finished (Failed err)))"
proof -
  let ?s = "system_advance h i s"
  note fresh = fresh_system_inv[OF assms(1)]
  have "log_inv s" using reachable_log[OF assms(2) fresh] engine_new_fields(1)[OF assms(1)] by simp
  with assms(3-5) have x: "x = off" by (auto simp: log_inv_def request_logged_def committed_def split: if_splits)
  have first: "requests ?s ! i = snd (begin_read (engine s) off)"
    using assms(3,5) x by (simp add: system_advance_def split: prod.split)
  show ?thesis
  proof (cases "map_of (translation (engine s)) off")
    case None
    with first show ?thesis by (simp add: begin_read_def translation_lookup_def disk_def Let_def)
  next
    case (Some ent)
    have "requests (system_advance h i t) ! i = Finished (Data (disk (engine t) off))
        \<or> (\<exists>err. requests (system_advance h i t) ! i = Finished (Failed err))"
      if "(system_step h)\<^sup>*\<^sup>* ?s t" "requests t ! i = RFetch (backend_slot ent)"
        "map_of (translation (engine t)) off = Some ent'" "backend_slot ent' = backend_slot ent" for t ent'
    proof -
      have "reachable h e ?s" by (rule reachable.step[OF assms(2) advance[OF assms(3)]])
      from reachable_steps[OF that(1) this] assms(3) have "reachable h e t" "i < length (requests t)"
        by (simp_all add: system_advance_def split: prod.splits)
      from fetch_current[OF assms(1) this _ that(3)] that(2,4) show ?thesis by simp
    qed
    with first Some show ?thesis by (simp add: begin_read_def translation_lookup_def Let_def)
  qed
qed

theorem read_current_unless_remapped_witness:
  "\<exists>s t :: system. operations s = [EWrite 0 [1], ERead 0] \<and> requests s = [Finished Done, RBegin 0]
    \<and> t = system_advance (\<lambda>_. 0) 1 s \<and> requests t = [Finished Done, RFetch 0] \<and> disk (engine t) 0 = padded [1]
    \<and> (requests (system_advance (\<lambda>_. 0) 1 t) ! 1 = Finished (Data (disk (engine t) 0))
       \<or> (\<exists>err. requests (system_advance (\<lambda>_. 0) 1 t) ! 1 = Finished (Failed err)))"
proof -
  obtain e ps where r: "run_schedule (\<lambda>_. 0) ([Inl (EWrite 0 [1]), Inr 0, Inr 0, Inr 0, Inr 0] @ [Inl (ERead 0)])
      (system_start new_engine) = system_of e [EWrite 0 [1], ERead 0] [Finished Done, RBegin 0] [0]"
    and e: "translation e = [(0, entry_direct 0)]" "pstore e = ps"
    and w: "write_page (pstore new_engine) 0 (padded [1]) = (ps, Ok ())"
    using write_run[of "\<lambda>_. 0" "[1]" "[Inl (ERead 0)]"] by (auto simp: system_arrive_def simp del: run_schedule.simps(3))
  let ?s = "system_of e [EWrite 0 [1], ERead 0] [Finished Done, RBegin 0] [0]"
  define t where "t = system_advance (\<lambda>_. 0) 1 ?s"
  have "reachable (\<lambda>_. 0) new_engine ?s" unfolding r[symmetric] by (rule run_schedule_reachable[OF reachable.start])
  from read_current_unless_remapped[OF engine_new_new this, of 1 0 0, folded t_def] e(1)
  have read: "\<And>u ent'. (system_step (\<lambda>_. 0))\<^sup>*\<^sup>* t u \<Longrightarrow> requests u ! 1 = RFetch 0 \<Longrightarrow>
      map_of (translation (engine u)) 0 = Some ent' \<Longrightarrow> backend_slot ent' = 0 \<Longrightarrow>
      requests (system_advance (\<lambda>_. 0) 1 u) ! 1 = Finished (Data (disk (engine u) 0))
      \<or> (\<exists>err. requests (system_advance (\<lambda>_. 0) 1 u) ! 1 = Finished (Failed err))"
    by (simp add: entry_direct_def)
  have t: "requests t = [Finished Done, RFetch 0]" "translation (engine t) = [(0, entry_direct 0)]" "pstore (engine t) = ps"
    using e by (simp_all add: t_def system_advance_def begin_read_def translation_lookup_def entry_direct_def Let_def)
  have "disk (engine t) 0 = padded [1]"
    using write_page_ok[OF new_engine_store w] t by (simp add: disk_def entry_direct_def)
  moreover have "requests (system_advance (\<lambda>_. 0) 1 t) ! 1 = Finished (Data (disk (engine t) 0))
      \<or> (\<exists>err. requests (system_advance (\<lambda>_. 0) 1 t) ! 1 = Finished (Failed err))"
    by (rule read[where ent' = "entry_direct 0"]) (simp_all add: t entry_direct_def)
  ultimately show ?thesis using t(1) t_def by (intro exI[of _ ?s] exI[of _ t]) simp
qed

text \<open>
  C18: without that proviso the read can return a page that was never at its offset. A read
  of offset 0 has looked up its slot; an overwrite of offset 0 frees the slot, a write to
  offset 4096 takes it, and the read returns the page of offset 4096. \<open>handle_read\<close>
  releases the lock of the translation table before it takes the lock of the store.
\<close>

theorem overlapping_read_wrong_page:
  "\<exists>s. reachable h new_engine s \<and> operations s = [EWrite 0 d1, ERead 0, EWrite 0 d2, EWrite 4096 d3]
    \<and> requests s ! 1 = Finished (Data (padded d3))"
  using race_run[of h d1 d2 d3] run_schedule_reachable[OF reachable.start] by blast

section \<open>Overlapping calls of the deduplication table\<close>

text \<open>
  Beyond the properties: the accesses of a call of the deduplication table, run without interruption, do what
  the method does as one atomic operation, with the same table and the same result.
\<close>

lemma lone_table_call_atomic:
  "run_call (length (lru t) + 11) t (begin_call t op) = map_prod id Returned (table_method t op)"
  using call_alone_atomic[of t "length (lru t) + 11" op] by (simp add: map_prod_def split: prod.split)

text \<open>
  Beyond the properties: any number of threads may call the methods of one table, with their accesses in any
  order: the map never tracks a fingerprint twice, it exceeds its capacity by less than the
  number of threads, no access to the Bloom bits is out of range, and a tracked fingerprint
  passes the Bloom filter unless its insertion is still under way.
\<close>

lemma overlapping_table_calls_safe:
  assumes "run_table (table_start threads (dedup_new m c)) es = s"
  shows "distinct (map fst (dt_map (shared s))) \<and> length (dt_map (shared s)) \<le> unat m + (threads - 1)
    \<and> list_all (\<lambda>x. list_all (\<lambda>i. unat (i div 64) < length (bloom_bits (dt_bloom (shared s)))) (bits_of x)) (calls s)
    \<and> (map_of (dt_map (shared s)) fp = None \<or> might_contain (dt_bloom (shared s)) fp \<or> list_ex (inserting fp) (calls s))"
proof -
  have inv: "table_inv s" unfolding assms[symmetric] by (rule run_table_inv[OF table_start_inv])
  have m: "max_entries (shared s) = m" "length (calls s) = threads"
    unfolding assms[symmetric] run_table_capacity run_table_threads by (simp_all add: table_start_def dedup_new_def)
  from inv bits_in_range[OF inv] show ?thesis
    unfolding table_inv_def m by (auto dest: add_leD1)
qed

lemma overlapping_table_calls_safe_witness:
  "\<exists>s :: table_system. calls s = [Returned (RInsert True), Returned (RInsert True)]
    \<and> distinct (map fst (dt_map (shared s))) \<and> length (dt_map (shared s)) \<le> 2
    \<and> might_contain (dt_bloom (shared s)) [7]"
proof -
  have "(0 :: u64) < 1" by simp
  from insert_race_run[OF this, of 64 "[7]" "[1]" 3 4] obtain s where
    s: "run_table (table_start 2 (dedup_new 1 64)) (insert_race [7] [1] 3 4) = s"
      "calls s = [Returned (RInsert True), Returned (RInsert True)]" "tracked (shared s) [7] = Some (1, 4)" by blast
  from s(3) have "map_of (dt_map (shared s)) [7] \<noteq> None" by (auto simp: tracked_def)
  with overlapping_table_calls_safe[OF s(1), of "[7]"] s(2) show ?thesis by (intro exI[of _ s]) auto
qed

text \<open>
  C19: two overlapping insertions of one fingerprint can both succeed, but the table keeps
  only the slot of the later one, with one reference: \<open>insert\<close> asks \<open>contains_key\<close> and
  overwrites the entry in separate accesses. Releasing the mapping of the first page then
  frees the slot of the second, which is still mapped.
\<close>

theorem overlapping_inserts_swap_slots:
  assumes "0 < m"
  shows "\<exists>s. run_table (table_start 2 (dedup_new m c)) (insert_race fp d s1 s2) = s
    \<and> calls s = [Returned (RInsert True), Returned (RInsert True)]
    \<and> (\<forall>e. dedup_tab e = shared s \<longrightarrow>
         (\<exists>t. release_mapping e (entry_deduplicated fp s1) = free_slot (e\<lparr>dedup_tab := t\<rparr>) s2))"
proof -
  obtain s where s: "run_table (table_start 2 (dedup_new m c)) (insert_race fp d s1 s2) = s"
    "calls s = [Returned (RInsert True), Returned (RInsert True)]" "tracked (shared s) fp = Some (1, s2)"
    using insert_race_run[OF assms] by blast
  then obtain ent where ent: "map_of (dt_map (shared s)) fp = Some ent" "ref_count ent \<le> 1" "backend_offset ent = s2"
    by (auto simp: tracked_def word_le_nat_alt)
  with s show ?thesis
    by (auto simp: release_mapping_def entry_deduplicated_def dedup_remove_reference_def)
qed

theorem overlapping_inserts_swap_slots_witness:
  "\<exists>s :: table_system. calls s = [Returned (RInsert True), Returned (RInsert True)]
    \<and> (\<exists>t. release_mapping (dedup_engine\<lparr>dedup_tab := shared s\<rparr>) (entry_deduplicated [7] 3) =
         free_slot (dedup_engine\<lparr>dedup_tab := t\<rparr>) 4)"
proof -
  have "(0 :: u64) < 8" by simp
  from overlapping_inserts_swap_slots[OF this, of 64 "[7]" "[1]" 3 4] obtain s :: table_system where
    s: "calls s = [Returned (RInsert True), Returned (RInsert True)]"
    and r: "\<forall>e. dedup_tab e = shared s \<longrightarrow>
      (\<exists>t. release_mapping e (entry_deduplicated [7] 3) = free_slot (e\<lparr>dedup_tab := t\<rparr>) 4)" by blast
  from r[rule_format, of "dedup_engine\<lparr>dedup_tab := shared s\<rparr>"] s show ?thesis by auto
qed

section \<open>A duplicate write that is overtaken\<close>

lemma dedup_engine_parts:
  "slot_alloc dedup_engine = \<lparr>free_slots = [], next_slot = 0, max_slots = 262144\<rparr>"
  "tracked (dedup_tab dedup_engine) = Map.empty"
  "card V < 9 \<Longrightarrow> finite V \<Longrightarrow> dev_inv V dedup_engine"
proof -
  show "slot_alloc dedup_engine = \<lparr>free_slots = [], next_slot = 0, max_slots = 262144\<rparr>"
    by (simp add: dedup_engine_def new_engine_fields)
  show "tracked (dedup_tab dedup_engine) = Map.empty"
    using dedup_engine_fields(4) by (simp add: fun_eq_iff del: tracked_eq_None)
  show "dev_inv V dedup_engine" if "card V < 9" "finite V"
    using fresh_dev_inv(1)[OF engine_new_new, of V False] that
    by (simp add: dedup_engine_def slots_of_gb_1 table_fits_def)
qed

text \<open>
  C20: in deduplicating mode, writes are not linearizable. A write of \<open>p\<close> to \<open>b\<close> finds the
  page in the slot of \<open>a\<close> and compares it; before it takes its reference, \<open>a\<close> is discarded,
  \<open>q\<close> is written to \<open>c\<close> and gets the slot, and \<open>p\<close> is written to \<open>d\<close> and tracked anew.
  \<open>add_reference\<close> succeeds on the new entry, and \<open>b\<close> is mapped to the slot that now holds
  \<open>q\<close>. All five requests report success, \<open>q\<close> was never written to \<open>b\<close>, and yet \<open>b\<close> reads
  as \<open>q\<close>.
\<close>

theorem overtaken_duplicate_wrong_page:
  assumes "distinct [a, b, c, d]" "fingerprint_page h (padded p) \<noteq> fingerprint_page h (padded q)"
  shows "\<exists>s. reachable h dedup_engine s
    \<and> operations s = [EWrite a p, EWrite b p, EDiscard a, EWrite c q, EWrite d p]
    \<and> requests s = replicate 5 (Finished Done) \<and> disk (engine s) b = padded q"
proof -
  have "dev_inv {a, b, c, d} dedup_engine" using assms(1) by (intro dedup_engine_parts(3)) simp_all
  from stale_run[OF this dedup_engine_fields(2,7,3) dedup_engine_parts(2,1) _ assms]
  obtain e' l where "run_schedule h (stale_schedule a b c d p q) (system_start dedup_engine) =
      system_of e' [EWrite a p, EWrite b p, EDiscard a, EWrite c q, EWrite d p] (replicate 5 (Finished Done)) l"
    "disk e' b = padded q" by auto
  with run_schedule_reachable[OF reachable.start, of h dedup_engine "stale_schedule a b c d p q"] show ?thesis
    by (intro exI[of _ "run_schedule h (stale_schedule a b c d p q) (system_start dedup_engine)"])
       (simp del: run_schedule.simps)
qed

theorem overtaken_duplicate_wrong_page_witness:
  "\<exists>s :: system. operations s = [EWrite 0 [1], EWrite 4096 [1], EDiscard 0, EWrite 8192 [2], EWrite 12288 [1]]
    \<and> requests s = replicate 5 (Finished Done) \<and> disk (engine s) 4096 = padded [2]"
proof -
  let ?h = "\<lambda>x. if take 1 x = [1] then 1 else 0"
  have t: "take 1 (padded [x]) = [x]" for x by (simp add: padded_def PAGE_SIZE_def)
  have "fingerprint_page ?h (padded [1]) \<noteq> fingerprint_page ?h (padded [2])"
    unfolding fingerprint_page_def t by (simp add: to_le_bytes_def)
  from overtaken_duplicate_wrong_page[OF _ this, of 0 4096 8192 12288] show ?thesis by auto
qed

end
