(* ===== verification/Ksm.thy ===== *)
theory Ksm
  imports Psi
begin

text \<open>
  Model of \<open>crates/common/src/ksm.rs\<close>: the controller of the KSM parameters in sysfs. The
  directory is a finite map from file names to contents; what the kernel does with a write
  is the parameter \<open>kw\<close> (\<open>None\<close>: the write fails). Serialisation of a snapshot (crate
  \<open>serde_json\<close>) is a parameter too. The clock is read once per write.
\<close>

section \<open>Data\<close>

record ksm_stats =
  pages_shared :: u64
  pages_sharing :: u64
  pages_unshared :: u64
  pages_volatile :: u64
  pages_scanned :: u64
  pages_skipped :: u64
  full_scans :: u64
  general_profit :: int
  ksm_zero_pages :: u64
  stable_node_chains :: u64
  stable_node_dups :: u64

record ksm_config =
  cfg_run :: u64
  cfg_pages_to_scan :: u64
  cfg_sleep_millisecs :: u64
  cfg_max_page_sharing :: u64
  cfg_smart_scan :: u64
  cfg_advisor_mode :: string
  cfg_advisor_target_scan_time :: u64
  cfg_advisor_max_cpu :: u64
  cfg_advisor_min_pages_to_scan :: u64
  cfg_advisor_max_pages_to_scan :: u64

record ksm_snapshot =
  snap_config :: ksm_config
  snap_timestamp :: string

type_synonym sysfs = "string \<rightharpoonup> string"
type_synonym kernel_write = "sysfs \<Rightarrow> string \<Rightarrow> string \<Rightarrow> sysfs option"

text \<open>\<open>ksm_clock\<close> is the time in milliseconds, \<open>ksm_log\<close> the writes that reached the kernel.\<close>

record ksm_world =
  ksm_files :: sysfs
  ksm_clock :: nat
  clock_steps :: "nat list"
  ksm_log :: "(string \<times> string) list"

record ksm_controller =
  last_update :: nat
  dry_run :: bool

definition MIN_UPDATE_INTERVAL_MS :: nat where
  "MIN_UPDATE_INTERVAL_MS = 500"

definition PARAM_RANGES :: "(string \<times> u64 \<times> u64) list" where
  "PARAM_RANGES =
     [(''run'', 0, 2), (''pages_to_scan'', 100, 30000), (''sleep_millisecs'', 5, 10000),
      (''max_page_sharing'', 16, 4096), (''advisor_target_scan_time'', 10, 3600),
      (''advisor_max_cpu'', 10, 100), (''advisor_min_pages_to_scan'', 100, 5000),
      (''advisor_max_pages_to_scan'', 1000, 100000)]"

definition now_of :: "ksm_world \<Rightarrow> ksm_world \<times> nat" where
  "now_of w = (case clock_steps w of [] \<Rightarrow> (w, ksm_clock w)
     | d # ds \<Rightarrow> (w\<lparr>ksm_clock := ksm_clock w + d, clock_steps := ds\<rparr>, ksm_clock w + d))"

text \<open>
  \<open>KsmController::new\<close>: \<open>Instant::now()\<close> minus the interval, so that the first write is
  not rate limited (the boot-relative clock is past the interval).
\<close>

definition controller_new :: "ksm_world \<Rightarrow> string \<Rightarrow> bool \<Rightarrow> ksm_world \<times> (animaksm_error + ksm_controller)" where
  "controller_new w path exists =
     (if \<not> exists then (w, Err (SysfsError path))
      else case now_of w of
             (w', t) \<Rightarrow> (w', Ok \<lparr>last_update = t - MIN_UPDATE_INTERVAL_MS, dry_run = False\<rparr>))"

definition set_dry_run :: "ksm_controller \<Rightarrow> bool \<Rightarrow> ksm_controller" where
  "set_dry_run c b = c\<lparr>dry_run := b\<rparr>"

section \<open>Reading\<close>

definition clean_u64 :: "string \<Rightarrow> string" where
  "clean_u64 content = hd (split_char CHR '']'' (dropWhile (\<lambda>c. c = CHR ''['') (trim content)))"

definition read_u64 :: "sysfs \<Rightarrow> string \<Rightarrow> animaksm_error + u64" where
  "read_u64 fs param =
     (case fs param of
        None \<Rightarrow> Err (SysfsError param)
      | Some content \<Rightarrow>
          (case parse_u64 (clean_u64 content) of None \<Rightarrow> Err (SysfsError param) | Some n \<Rightarrow> Ok n))"

definition read_i64 :: "sysfs \<Rightarrow> string \<Rightarrow> animaksm_error + int" where
  "read_i64 fs param =
     (case fs param of
        None \<Rightarrow> Err (SysfsError param)
      | Some content \<Rightarrow>
          (case parse_i64 (trim content) of None \<Rightarrow> Err (SysfsError param) | Some n \<Rightarrow> Ok n))"

definition read_string :: "sysfs \<Rightarrow> string \<Rightarrow> animaksm_error + string" where
  "read_string fs param =
     (case fs param of
        None \<Rightarrow> Err (SysfsError param)
      | Some content \<Rightarrow>
          (let trimmed = trim content
           in case find_char CHR ''['' trimmed of
                None \<Rightarrow> Ok trimmed
              | Some i \<Rightarrow>
                  (case find_char CHR '']'' (drop i trimmed) of
                     None \<Rightarrow> Ok trimmed
                   | Some j \<Rightarrow> Ok (trim (take (j - 1) (drop (i + 1) trimmed))))))"

definition unwrap_or :: "'e + 'a \<Rightarrow> 'a \<Rightarrow> 'a" where
  "unwrap_or r d = (case r of Inl _ \<Rightarrow> d | Inr x \<Rightarrow> x)"

text \<open>\<open>bind\<close> is the \<open>?\<close> operator.\<close>

definition bind :: "'e + 'a \<Rightarrow> ('a \<Rightarrow> 'e + 'b) \<Rightarrow> 'e + 'b" where
  "bind r f = (case r of Inl e \<Rightarrow> Err e | Inr x \<Rightarrow> f x)"

definition read_stats :: "sysfs \<Rightarrow> animaksm_error + ksm_stats" where
  "read_stats fs =
     bind (read_u64 fs ''pages_shared'') (\<lambda>shared.
     bind (read_u64 fs ''pages_sharing'') (\<lambda>sharing.
     bind (read_u64 fs ''pages_unshared'') (\<lambda>unshared.
     bind (read_u64 fs ''pages_volatile'') (\<lambda>volatile.
     bind (read_u64 fs ''pages_scanned'') (\<lambda>scanned.
     bind (read_u64 fs ''pages_skipped'') (\<lambda>skipped.
     bind (read_u64 fs ''full_scans'') (\<lambda>full.
     bind (read_i64 fs ''general_profit'') (\<lambda>profit.
       Ok \<lparr>pages_shared = shared, pages_sharing = sharing, pages_unshared = unshared,
           pages_volatile = volatile, pages_scanned = scanned, pages_skipped = skipped,
           full_scans = full, general_profit = profit,
           ksm_zero_pages = unwrap_or (read_u64 fs ''ksm_zero_pages'') 0,
           stable_node_chains = unwrap_or (read_u64 fs ''stable_node_chains'') 0,
           stable_node_dups = unwrap_or (read_u64 fs ''stable_node_dups'') 0\<rparr>))))))))"

definition read_config :: "sysfs \<Rightarrow> animaksm_error + ksm_config" where
  "read_config fs =
     bind (read_u64 fs ''run'') (\<lambda>run.
     bind (read_u64 fs ''pages_to_scan'') (\<lambda>pages.
     bind (read_u64 fs ''sleep_millisecs'') (\<lambda>sleep.
     bind (read_u64 fs ''max_page_sharing'') (\<lambda>sharing.
       Ok \<lparr>cfg_run = run, cfg_pages_to_scan = pages, cfg_sleep_millisecs = sleep,
           cfg_max_page_sharing = sharing,
           cfg_smart_scan = unwrap_or (read_u64 fs ''smart_scan'') 1,
           cfg_advisor_mode = unwrap_or (read_string fs ''advisor_mode'') [],
           cfg_advisor_target_scan_time = unwrap_or (read_u64 fs ''advisor_target_scan_time'') 200,
           cfg_advisor_max_cpu = unwrap_or (read_u64 fs ''advisor_max_cpu'') 70,
           cfg_advisor_min_pages_to_scan = unwrap_or (read_u64 fs ''advisor_min_pages_to_scan'') 500,
           cfg_advisor_max_pages_to_scan = unwrap_or (read_u64 fs ''advisor_max_pages_to_scan'') 30000\<rparr>))))"

text \<open>\<open>read_all_raw\<close> over the names the directory lists.\<close>

definition read_all_raw :: "sysfs \<Rightarrow> string list \<Rightarrow> string \<rightharpoonup> string" where
  "read_all_raw fs names =
     map_of (rev (List.map_filter (\<lambda>n. map_option (\<lambda>c. (n, trim c)) (fs n)) names))"

section \<open>Writing\<close>

definition clamp :: "u64 \<Rightarrow> u64 \<Rightarrow> u64 \<Rightarrow> u64" where
  "clamp v lo hi = (if v < lo then lo else if hi < v then hi else v)"

definition clamp_value :: "string \<Rightarrow> u64 \<Rightarrow> u64" where
  "clamp_value param v =
     (case map_of PARAM_RANGES param of None \<Rightarrow> v | Some (lo, hi) \<Rightarrow> clamp v lo hi)"

definition write_param ::
    "kernel_write \<Rightarrow> ksm_controller \<Rightarrow> ksm_world \<Rightarrow> string \<Rightarrow> string \<Rightarrow> ksm_world \<times> (animaksm_error + unit)" where
  "write_param kw c w param v =
     (case now_of w of
        (w1, t) \<Rightarrow>
          if t - last_update c < MIN_UPDATE_INTERVAL_MS then (w1, Ok ())
          else if dry_run c then (w1, Ok ())
          else (case kw (ksm_files w1) param v of
                  None \<Rightarrow> (w1, Err (SysfsError param))
                | Some fs \<Rightarrow> (w1\<lparr>ksm_files := fs, ksm_log := ksm_log w1 @ [(param, v)]\<rparr>, Ok ())))"

definition write_validated ::
    "kernel_write \<Rightarrow> ksm_controller \<Rightarrow> ksm_world \<Rightarrow> string \<Rightarrow> u64 \<Rightarrow> ksm_world \<times> (animaksm_error + unit)" where
  "write_validated kw c w param v = write_param kw c w param (show_nat (unat (clamp_value param v)))"

definition write_string ::
    "kernel_write \<Rightarrow> ksm_controller \<Rightarrow> ksm_world \<Rightarrow> string \<Rightarrow> string \<Rightarrow> ksm_world \<times> (animaksm_error + unit)" where
  "write_string kw c w param v = write_param kw c w param v"

definition set_run ::
    "kernel_write \<Rightarrow> ksm_controller \<Rightarrow> ksm_world \<Rightarrow> u64 \<Rightarrow> ksm_world \<times> (animaksm_error + unit)" where
  "set_run kw c w v = write_validated kw c w ''run'' v"

definition set_pages_to_scan ::
    "kernel_write \<Rightarrow> ksm_controller \<Rightarrow> ksm_world \<Rightarrow> u64 \<Rightarrow> ksm_world \<times> (animaksm_error + unit)" where
  "set_pages_to_scan kw c w v = write_validated kw c w ''pages_to_scan'' v"

definition set_sleep_millisecs ::
    "kernel_write \<Rightarrow> ksm_controller \<Rightarrow> ksm_world \<Rightarrow> u64 \<Rightarrow> ksm_world \<times> (animaksm_error + unit)" where
  "set_sleep_millisecs kw c w v = write_validated kw c w ''sleep_millisecs'' v"

definition set_max_page_sharing ::
    "kernel_write \<Rightarrow> ksm_controller \<Rightarrow> ksm_world \<Rightarrow> u64 \<Rightarrow> ksm_world \<times> (animaksm_error + unit)" where
  "set_max_page_sharing kw c w v = write_validated kw c w ''max_page_sharing'' v"

definition set_advisor_mode ::
    "kernel_write \<Rightarrow> ksm_controller \<Rightarrow> ksm_world \<Rightarrow> string \<Rightarrow> ksm_world \<times> (animaksm_error + unit)" where
  "set_advisor_mode kw c w v = write_string kw c w ''advisor_mode'' v"

definition set_advisor_target_scan_time ::
    "kernel_write \<Rightarrow> ksm_controller \<Rightarrow> ksm_world \<Rightarrow> u64 \<Rightarrow> ksm_world \<times> (animaksm_error + unit)" where
  "set_advisor_target_scan_time kw c w v = write_validated kw c w ''advisor_target_scan_time'' v"

definition set_advisor_max_cpu ::
    "kernel_write \<Rightarrow> ksm_controller \<Rightarrow> ksm_world \<Rightarrow> u64 \<Rightarrow> ksm_world \<times> (animaksm_error + unit)" where
  "set_advisor_max_cpu kw c w v = write_validated kw c w ''advisor_max_cpu'' v"

section \<open>Snapshot and restore\<close>

text \<open>The state directory; \<open>sd_plan\<close> says which of its file operations succeed, in order.\<close>

record state_files =
  snapshot_file :: "string option"
  snapshot_tmp :: "string option"
  sd_plan :: "bool list"

definition next_ok :: "state_files \<Rightarrow> state_files \<times> bool" where
  "next_ok d = (case sd_plan d of [] \<Rightarrow> (d, True) | b # bs \<Rightarrow> (d\<lparr>sd_plan := bs\<rparr>, b))"

text \<open>\<open>fs::write\<close> truncates and writes; when it fails the file may hold anything, here \<open>junk\<close>.\<close>

definition write_tmp :: "string \<Rightarrow> state_files \<Rightarrow> string \<Rightarrow> state_files \<times> (animaksm_error + unit)" where
  "write_tmp junk d text =
     (case next_ok d of (d', ok) \<Rightarrow>
        if ok then (d'\<lparr>snapshot_tmp := Some text\<rparr>, Ok ()) else (d'\<lparr>snapshot_tmp := Some junk\<rparr>, Err IoErr))"

definition rename_tmp :: "state_files \<Rightarrow> state_files \<times> (animaksm_error + unit)" where
  "rename_tmp d =
     (case next_ok d of (d', ok) \<Rightarrow>
        if ok then (d'\<lparr>snapshot_file := snapshot_tmp d', snapshot_tmp := None\<rparr>, Ok ()) else (d', Err IoErr))"

definition ksm_take_snapshot ::
    "(ksm_snapshot \<Rightarrow> string option) \<Rightarrow> string \<Rightarrow> string \<Rightarrow> ksm_world \<Rightarrow> state_files
      \<Rightarrow> state_files \<times> (animaksm_error + unit)" where
  "ksm_take_snapshot encode chrono_now junk w d =
     (case read_config (ksm_files w) of
        Inl e \<Rightarrow> (d, Err e)
      | Inr config \<Rightarrow>
          (case encode \<lparr>snap_config = config, snap_timestamp = chrono_now\<rparr> of
             None \<Rightarrow> (d, Err (SnapshotError ''json''))
           | Some json \<Rightarrow>
               (case next_ok d of (d1, dir_ok) \<Rightarrow>
                  if \<not> dir_ok then (d1, Err IoErr)
                  else (case write_tmp junk d1 json of
                          (d2, Inl e) \<Rightarrow> (d2, Err e)
                        | (d2, Inr _) \<Rightarrow> rename_tmp d2))))"

text \<open>Sequencing of fallible writes with \<open>?\<close>, and of writes whose result is dropped.\<close>

definition and_then ::
    "ksm_world \<times> (animaksm_error + unit) \<Rightarrow> (ksm_world \<Rightarrow> ksm_world \<times> (animaksm_error + unit))
      \<Rightarrow> ksm_world \<times> (animaksm_error + unit)" where
  "and_then r f = (case r of (w, Inl e) \<Rightarrow> (w, Err e) | (w, Inr _) \<Rightarrow> f w)"

definition restore_config ::
    "kernel_write \<Rightarrow> ksm_controller \<Rightarrow> ksm_world \<Rightarrow> ksm_config \<Rightarrow> ksm_world \<times> (animaksm_error + unit)" where
  "restore_config kw c w cfg =
     (let w0 = fst (if cfg_advisor_mode cfg \<noteq> ''scan-time''
                    then set_advisor_mode kw c w (cfg_advisor_mode cfg)
                    else set_advisor_mode kw c w ''none'')
      in and_then (set_run kw c w0 (cfg_run cfg)) (\<lambda>w1.
         and_then (set_pages_to_scan kw c w1 (cfg_pages_to_scan cfg)) (\<lambda>w2.
         and_then (set_sleep_millisecs kw c w2 (cfg_sleep_millisecs cfg)) (\<lambda>w3.
         and_then (set_max_page_sharing kw c w3 (cfg_max_page_sharing cfg)) (\<lambda>w4.
           let w5 = fst (set_advisor_mode kw c w4 (cfg_advisor_mode cfg));
               w6 = fst (set_advisor_target_scan_time kw c w5 (cfg_advisor_target_scan_time cfg));
               w7 = fst (set_advisor_max_cpu kw c w6 (cfg_advisor_max_cpu cfg))
           in (w7, Ok ()))))))"

text \<open>\<open>readable\<close>: the snapshot file, if it exists, can be read.\<close>

definition ksm_restore ::
    "(string \<Rightarrow> ksm_snapshot option) \<Rightarrow> bool \<Rightarrow> kernel_write \<Rightarrow> ksm_controller \<Rightarrow> ksm_world \<Rightarrow> state_files
      \<Rightarrow> ksm_world \<times> (animaksm_error + unit)" where
  "ksm_restore decode readable kw c w d =
     (case snapshot_file d of
        None \<Rightarrow> (w, Ok ())
      | Some json \<Rightarrow>
          if \<not> readable then (w, Err IoErr)
          else (case decode json of
                  None \<Rightarrow> (w, Err (SnapshotError ''json''))
                | Some snap \<Rightarrow> restore_config kw c w (snap_config snap)))"

end
