(* ===== verification/Governor.thy ===== *)
theory Governor
  imports Ksm Config
begin

text \<open>
  Model of \<open>crates/daemon/src/governor.rs\<close> and of the shared state in
  \<open>crates/common/src/lib.rs\<close>: the profile table, the transition function with hysteresis,
  cooldown and stabilization window, and the tick that ties them to the PSI and KSM
  readings. Instants and durations are milliseconds; all clock reads of one tick are \<open>now\<close>.
\<close>

section \<open>State\<close>

record governor_state =
  current_pressure :: pressure_level
  gs_ksm_level :: u8
  gs_pages_sharing :: u64
  gs_general_profit :: int
  last_adjustment :: nat
  last_global_action :: nat
  last_governor_action :: nat
  last_scanner_action :: nat
  scanner_enabled :: bool

definition governor_state_default :: "nat \<Rightarrow> governor_state" where
  "governor_state_default now =
     \<lparr>current_pressure = Idle, gs_ksm_level = 0, gs_pages_sharing = 0, gs_general_profit = 0,
      last_adjustment = now, last_global_action = now, last_governor_action = now,
      last_scanner_action = now, scanner_enabled = False\<rparr>"

record ksm_profile =
  prof_level :: u8
  prof_run :: u64
  prof_max_page_sharing :: u32
  prof_sleep_millisecs :: u64
  prof_pages_to_scan :: u64

definition PROFILES :: "ksm_profile list" where
  "PROFILES =
     [\<lparr>prof_level = 0, prof_run = 0, prof_max_page_sharing = 256, prof_sleep_millisecs = 500, prof_pages_to_scan = 100\<rparr>,
      \<lparr>prof_level = 1, prof_run = 1, prof_max_page_sharing = 256, prof_sleep_millisecs = 100, prof_pages_to_scan = 500\<rparr>,
      \<lparr>prof_level = 2, prof_run = 1, prof_max_page_sharing = 384, prof_sleep_millisecs = 50, prof_pages_to_scan = 2000\<rparr>,
      \<lparr>prof_level = 3, prof_run = 1, prof_max_page_sharing = 512, prof_sleep_millisecs = 20, prof_pages_to_scan = 5000\<rparr>,
      \<lparr>prof_level = 4, prof_run = 1, prof_max_page_sharing = 768, prof_sleep_millisecs = 10, prof_pages_to_scan = 15000\<rparr>,
      \<lparr>prof_level = 5, prof_run = 1, prof_max_page_sharing = 1024, prof_sleep_millisecs = 5, prof_pages_to_scan = 30000\<rparr>]"

record governor =
  gov_config :: governor_config
  gov_ksm :: ksm_controller
  current_level :: u8
  hysteresis_count :: u32
  ramp_up_count :: u32
  level_entered_at :: nat
  full_scans_at_level :: u64
  last_psi :: "psi_stats option"
  stable_psi_ticks :: u32

definition governor_new :: "governor_config \<Rightarrow> ksm_controller \<Rightarrow> nat \<Rightarrow> governor" where
  "governor_new config ksm now =
     \<lparr>gov_config = config, gov_ksm = ksm, current_level = 0, hysteresis_count = 0,
      ramp_up_count = 0, level_entered_at = now, full_scans_at_level = 0, last_psi = None,
      stable_psi_ticks = 0\<rparr>"

section \<open>Transitions\<close>

definition observe_psi_stability :: "governor \<Rightarrow> psi_stats \<Rightarrow> governor" where
  "observe_psi_stability g psi =
     (let g1 = (case last_psi g of
          None \<Rightarrow> g
        | Some prev \<Rightarrow>
            let some_diff = f32_abs (f32_sub (avg10 (some_line psi)) (avg10 (some_line prev)));
                full_diff = f32_abs (f32_sub (avg10 (full_line psi)) (avg10 (full_line prev)))
            in if flt some_diff (Finite (1 / 2)) \<and> flt full_diff (Finite (1 / 2))
               then g\<lparr>stable_psi_ticks := stable_psi_ticks g + 1\<rparr>
               else g\<lparr>stable_psi_ticks := 0\<rparr>)
      in g1\<lparr>last_psi := Some psi\<rparr>)"

primrec pressure_to_level :: "pressure_level \<Rightarrow> u8" where
  "pressure_to_level Idle = 1"
| "pressure_to_level Low = 1"
| "pressure_to_level Medium = 3"
| "pressure_to_level High = 4"
| "pressure_to_level Critical = 5"

definition saturating_add_u8 :: "u8 \<Rightarrow> u8 \<Rightarrow> u8" where
  "saturating_add_u8 a b = (if 255 < unat a + unat b then 255 else a + b)"

definition compute_transition :: "governor \<Rightarrow> u8 \<Rightarrow> nat \<Rightarrow> governor \<times> u8" where
  "compute_transition g target now =
     (if current_level g < target then
        if saturating_add_u8 (current_level g) 2 \<le> target
        then (g\<lparr>hysteresis_count := 0, ramp_up_count := 0, level_entered_at := now,
                full_scans_at_level := 0\<rparr>, target)
        else let g1 = g\<lparr>ramp_up_count := ramp_up_count g + 1, hysteresis_count := 0\<rparr>
             in if hysteresis_readings (gov_config g) \<le> ramp_up_count g1
                then (g1\<lparr>ramp_up_count := 0, level_entered_at := now, full_scans_at_level := 0\<rparr>, target)
                else (g1, current_level g)
      else if target < current_level g then
        let g1 = g\<lparr>ramp_up_count := 0\<rparr>
        in if now - level_entered_at g < unat (min_level_duration_secs (gov_config g)) * 1000
           then (g1, current_level g)
           else let g2 = g1\<lparr>hysteresis_count := hysteresis_count g + 1\<rparr>
                in if hysteresis_readings (gov_config g) \<le> hysteresis_count g2
                   then (g2\<lparr>hysteresis_count := 0, level_entered_at := now, full_scans_at_level := 0\<rparr>,
                         current_level g - 1)
                   else (g2, current_level g)
      else (g\<lparr>hysteresis_count := 0, ramp_up_count := 0\<rparr>, current_level g))"

text \<open>The result of each sysfs write is dropped (\<open>let _ =\<close>). \<open>PROFILES[level]\<close> panics out of range.\<close>

definition apply_profile ::
    "kernel_write \<Rightarrow> governor \<Rightarrow> governor_state \<Rightarrow> ksm_world \<Rightarrow> u8 \<Rightarrow> nat
      \<Rightarrow> governor \<times> governor_state \<times> ksm_world" where
  "apply_profile kw g st w level now =
     (let profile = PROFILES ! unat level; c = gov_ksm g; adv = use_advisor (gov_config g);
          w1 = (if prof_run profile = 0 \<and> \<not> adv then fst (set_run kw c w 0) else w);
          w2 = fst (set_sleep_millisecs kw c w1 (prof_sleep_millisecs profile));
          w3 = fst (set_max_page_sharing kw c w2 (ucast (prof_max_page_sharing profile)));
          w4 = (if adv then w3 else fst (set_pages_to_scan kw c w3 (prof_pages_to_scan profile)));
          w5 = (if prof_run profile \<noteq> 0 then fst (set_run kw c w4 1) else w4)
      in (g\<lparr>current_level := level\<rparr>,
          st\<lparr>last_governor_action := now, last_global_action := now\<rparr>, w5))"

section \<open>The tick\<close>

definition damped_change ::
    "kernel_write \<Rightarrow> governor \<times> governor_state \<times> ksm_world \<Rightarrow> u8 \<Rightarrow> nat
      \<Rightarrow> governor \<times> governor_state \<times> ksm_world" where
  "damped_change kw x new_level now =
     (case x of (g, st, w) \<Rightarrow>
        if new_level \<noteq> current_level g \<and>
           unat (stabilization_secs (gov_config g)) * 1000 \<le> now - last_governor_action st
        then apply_profile kw g st w new_level now
        else (g, st, w))"

definition profit_check ::
    "kernel_write \<Rightarrow> governor \<times> governor_state \<times> ksm_world \<Rightarrow> ksm_stats \<Rightarrow> nat
      \<Rightarrow> governor \<times> governor_state \<times> ksm_world" where
  "profit_check kw x ks now =
     (case x of (g, st, w) \<Rightarrow>
        if 0 < current_level g \<and> general_profit ks < 0 \<and> full_scans_at_level g + 10 < full_scans ks
           \<and> 1 < current_level g
        then apply_profile kw g st w (current_level g - 1) now
        else (g, st, w))"

definition tick_with_readings ::
    "kernel_write \<Rightarrow> governor \<times> governor_state \<times> ksm_world \<Rightarrow> psi_stats \<Rightarrow> ksm_stats \<Rightarrow> nat
      \<Rightarrow> governor \<times> governor_state \<times> ksm_world" where
  "tick_with_readings kw x psi ks now =
     (case x of (g, st, w) \<Rightarrow>
        let g1 = observe_psi_stability g psi;
            pressure = classify psi (psi_some_threshold (gov_config g1)) (psi_full_threshold (gov_config g1));
            target_level = pressure_to_level pressure
        in case compute_transition g1 target_level now of
             (g2, new_level) \<Rightarrow>
               (case profit_check kw (damped_change kw (g2, st, w) new_level now) ks now of
                  (g3, st3, w3) \<Rightarrow>
                    (g3, st3\<lparr>current_pressure := pressure, gs_ksm_level := current_level g3,
                             gs_pages_sharing := pages_sharing ks, gs_general_profit := general_profit ks,
                             last_adjustment := now\<rparr>, w3)))"

definition governor_tick ::
    "kernel_write \<Rightarrow> governor \<times> governor_state \<times> ksm_world \<Rightarrow> string option \<Rightarrow> nat
      \<Rightarrow> governor \<times> governor_state \<times> ksm_world" where
  "governor_tick kw x pressure_file now =
     (case psi_read_from ''/proc/pressure/memory'' pressure_file of
        Inl _ \<Rightarrow> x
      | Inr psi \<Rightarrow>
          (case read_stats (ksm_files (snd (snd x))) of
             Inl _ \<Rightarrow> x
           | Inr ks \<Rightarrow> tick_with_readings kw x psi ks now))"

section \<open>The loop\<close>

text \<open>
  \<open>run\<close> selects between the poll timer and the shutdown channel; \<open>ShutdownChanged b\<close> is a
  change of the channel to \<open>b\<close>. Between ticks the environment may rewrite the sysfs files
  and other tasks the shared state: \<open>env\<close> is what they do.
\<close>

datatype governor_event = PollTick "string option" nat | ShutdownChanged bool

definition governor_start :: "kernel_write \<Rightarrow> governor \<Rightarrow> ksm_world \<Rightarrow> ksm_world" where
  "governor_start kw g w =
     (let w1 = (if use_advisor (gov_config g) then fst (set_advisor_mode kw (gov_ksm g) w ''scan-time'') else w)
      in fst (set_run kw (gov_ksm g) w1 1))"

fun governor_loop ::
    "kernel_write \<Rightarrow> (governor_state \<times> ksm_world \<Rightarrow> governor_state \<times> ksm_world)
      \<Rightarrow> governor \<times> governor_state \<times> ksm_world \<Rightarrow> governor_event list
      \<Rightarrow> governor \<times> governor_state \<times> ksm_world" where
  "governor_loop kw env x [] = x"
| "governor_loop kw env (g, st, w) (PollTick f now # es) =
     (case env (st, w) of (st1, w1) \<Rightarrow> governor_loop kw env (governor_tick kw (g, st1, w1) f now) es)"
| "governor_loop kw env x (ShutdownChanged b # es) = (if b then x else governor_loop kw env x es)"

definition governor_run ::
    "kernel_write \<Rightarrow> (governor_state \<times> ksm_world \<Rightarrow> governor_state \<times> ksm_world)
      \<Rightarrow> governor \<Rightarrow> governor_state \<Rightarrow> ksm_world \<Rightarrow> governor_event list
      \<Rightarrow> governor \<times> governor_state \<times> ksm_world" where
  "governor_run kw env g st w es = governor_loop kw env (g, st, governor_start kw g w) es"

end
