(* ===== verification/Procfs.thy ===== *)
theory Procfs
  imports Psi
begin

text \<open>
  Model of \<open>crates/common/src/procfs.rs\<close>: process discovery and the parsers of
  \<open>/proc/PID/status\<close>, \<open>maps\<close>, \<open>ksm_stat\<close>, \<open>comm\<close>, \<open>cgroup.procs\<close> and \<open>pagemap\<close>. The
  file system is a partial function from paths to contents.
\<close>

type_synonym proc_files = "string \<Rightarrow> string option"

record process_status =
  ps_pid :: u32
  ps_name :: string
  vm_rss_kb :: u64
  ps_anon_rss_kb :: u64
  vm_swap_kb :: u64

record maps_entry =
  map_start :: u64
  map_end :: u64
  perms :: string
  map_offset :: u64
  dev :: string
  inode :: u64
  pathname :: string

record ksm_proc_stat =
  rmap_items :: u64
  merging_pages :: u64
  process_profit :: int
  merge_any :: bool
  mergeable :: bool

section \<open>Mappings\<close>

definition map_size :: "maps_entry \<Rightarrow> u64" where
  "map_size m = map_end m - map_start m"

definition page_count :: "maps_entry \<Rightarrow> u64" where
  "page_count m = map_size m div 4096"

definition is_anon_rw :: "maps_entry \<Rightarrow> bool" where
  "is_anon_rw m \<longleftrightarrow> contains_str (perms m) ''rw'' \<and> \<not> contains_str (perms m) ''s''
     \<and> pathname m = [] \<and> inode m = 0"

definition has_exec :: "maps_entry \<Rightarrow> bool" where
  "has_exec m \<longleftrightarrow> contains_str (perms m) ''x''"

definition is_special :: "maps_entry \<Rightarrow> bool" where
  "is_special m \<longleftrightarrow> starts_with (pathname m) ''[vdso]'' \<or> starts_with (pathname m) ''[vvar''
     \<or> starts_with (pathname m) ''[vsyscall]'' \<or> starts_with (pathname m) ''[stack''
     \<or> starts_with (pathname m) ''[heap]''"

section \<open>Parsing helpers\<close>

text \<open>\<open>trim_end_matches\<close> removes the suffix as often as it occurs.\<close>

function trim_end_matches :: "string \<Rightarrow> string \<Rightarrow> string" where
  "trim_end_matches s suf =
     (if suf \<noteq> [] \<and> suffix suf s then trim_end_matches (take (length s - length suf) s) suf else s)"
  by pat_completeness auto
termination
  by (relation "measure (\<lambda>(s, suf). length s)") (auto simp: suffix_def)

declare trim_end_matches.simps [simp del]

definition parse_kb_value :: "string \<Rightarrow> u64" where
  "parse_kb_value s =
     (case parse_u64 (trim (trim_end_matches (trim s) '' kB'')) of None \<Rightarrow> 0 | Some n \<Rightarrow> n)"

definition parse_ksm_bool :: "string \<Rightarrow> bool" where
  "parse_ksm_bool s = (map lower (trim_end_matches (trim s) '','') \<in> {''1'', ''yes'', ''true''})"

definition join_space :: "string list \<Rightarrow> string" where
  "join_space ws = (case ws of [] \<Rightarrow> [] | w # r \<Rightarrow> w @ concat (map (\<lambda>v. '' '' @ v) r))"

definition parse_maps_line :: "string \<Rightarrow> maps_entry option" where
  "parse_maps_line line =
     (let parts = split_whitespace line
      in if length parts < 5 then None
         else let range = split_char CHR ''-'' (parts ! 0)
         in if length range \<noteq> 2 then None
         else case parse_hex_u64 (range ! 0) of
                None \<Rightarrow> None
              | Some start \<Rightarrow>
                  (case parse_hex_u64 (range ! 1) of
                     None \<Rightarrow> None
                   | Some stop \<Rightarrow>
                       Some \<lparr>map_start = start, map_end = stop, perms = parts ! 1,
                             map_offset = (case parse_hex_u64 (parts ! 2) of None \<Rightarrow> 0 | Some n \<Rightarrow> n),
                             dev = parts ! 3,
                             inode = (case parse_u64 (parts ! 4) of None \<Rightarrow> 0 | Some n \<Rightarrow> n),
                             pathname = (if 5 < length parts then join_space (drop 5 parts) else [])\<rparr>))"

section \<open>Reading\<close>

definition proc_path :: "u32 \<Rightarrow> string \<Rightarrow> string" where
  "proc_path pid name = ''/proc/'' @ show_nat (unat pid) @ ''/'' @ name"

definition proc_read :: "proc_files \<Rightarrow> u32 \<Rightarrow> string \<Rightarrow> animaksm_error + string" where
  "proc_read fs pid name =
     (case fs (proc_path pid name) of None \<Rightarrow> Err (ProcfsError (unat pid) name) | Some c \<Rightarrow> Ok c)"

definition list_pids_from :: "string list option \<Rightarrow> animaksm_error + u32 list" where
  "list_pids_from entries =
     (case entries of
        None \<Rightarrow> Err (ProcfsError 0 ''/proc'')
      | Some names \<Rightarrow> Ok (List.map_filter parse_u32 names))"

definition status_step :: "process_status \<Rightarrow> string \<Rightarrow> process_status" where
  "status_step st line =
     (case strip_prefix line ''Name:'' of
        Some v \<Rightarrow> st\<lparr>ps_name := trim v\<rparr>
      | None \<Rightarrow> (case strip_prefix line ''VmRSS:'' of
          Some v \<Rightarrow> st\<lparr>vm_rss_kb := parse_kb_value v\<rparr>
        | None \<Rightarrow> (case strip_prefix line ''RssAnon:'' of
            Some v \<Rightarrow> st\<lparr>ps_anon_rss_kb := parse_kb_value v\<rparr>
          | None \<Rightarrow> (case strip_prefix line ''VmSwap:'' of
              Some v \<Rightarrow> st\<lparr>vm_swap_kb := parse_kb_value v\<rparr>
            | None \<Rightarrow> st))))"

definition status_default :: "u32 \<Rightarrow> process_status" where
  "status_default pid =
     \<lparr>ps_pid = pid, ps_name = [], vm_rss_kb = 0, ps_anon_rss_kb = 0, vm_swap_kb = 0\<rparr>"

definition read_process_status :: "proc_files \<Rightarrow> u32 \<Rightarrow> animaksm_error + process_status" where
  "read_process_status fs pid =
     (case proc_read fs pid ''status'' of
        Inl e \<Rightarrow> Err e
      | Inr content \<Rightarrow> Ok (foldl status_step (status_default pid) (rust_lines content)))"

definition read_process_maps :: "proc_files \<Rightarrow> u32 \<Rightarrow> animaksm_error + maps_entry list" where
  "read_process_maps fs pid =
     (case proc_read fs pid ''maps'' of
        Inl e \<Rightarrow> Err e
      | Inr content \<Rightarrow> Ok (List.map_filter parse_maps_line (rust_lines content)))"

definition ksm_stat_default :: ksm_proc_stat where
  "ksm_stat_default =
     \<lparr>rmap_items = 0, merging_pages = 0, process_profit = 0, merge_any = False, mergeable = False\<rparr>"

definition u64_or_zero :: "string \<Rightarrow> u64" where
  "u64_or_zero s = (case parse_u64 s of None \<Rightarrow> 0 | Some n \<Rightarrow> n)"

definition ksm_stat_step :: "ksm_proc_stat \<Rightarrow> string \<Rightarrow> ksm_proc_stat" where
  "ksm_stat_step st line =
     (let parts = split_whitespace line
      in if length parts < 2 then st
         else let key = trim_end_matches (parts ! 0) '':''; v = parts ! 1
         in if key = ''ksm_rmap_items'' then st\<lparr>rmap_items := u64_or_zero v\<rparr>
            else if key = ''ksm_merging_pages'' then st\<lparr>merging_pages := u64_or_zero v\<rparr>
            else if key = ''ksm_process_profit''
              then st\<lparr>process_profit := (case parse_i64 v of None \<Rightarrow> 0 | Some n \<Rightarrow> n)\<rparr>
            else if key = ''ksm_merge_any'' then st\<lparr>merge_any := parse_ksm_bool v\<rparr>
            else if key = ''ksm_mergeable'' then st\<lparr>mergeable := parse_ksm_bool v\<rparr>
            else st)"

definition read_ksm_stat :: "proc_files \<Rightarrow> u32 \<Rightarrow> animaksm_error + ksm_proc_stat" where
  "read_ksm_stat fs pid =
     (case proc_read fs pid ''ksm_stat'' of
        Inl e \<Rightarrow> Err e
      | Inr content \<Rightarrow> Ok (foldl ksm_stat_step ksm_stat_default (rust_lines content)))"

definition read_cgroup_procs :: "proc_files \<Rightarrow> string \<Rightarrow> animaksm_error + u32 list" where
  "read_cgroup_procs fs cgroup =
     (case fs (cgroup @ ''/cgroup.procs'') of
        None \<Rightarrow> Err (ProcfsError 0 (cgroup @ ''/cgroup.procs''))
      | Some content \<Rightarrow> Ok (List.map_filter (\<lambda>l. parse_u32 (trim l)) (rust_lines content)))"

definition read_process_comm :: "proc_files \<Rightarrow> u32 \<Rightarrow> animaksm_error + string" where
  "read_process_comm fs pid =
     (case proc_read fs pid ''comm'' of Inl e \<Rightarrow> Err e | Inr c \<Rightarrow> Ok (trim c))"

definition is_blocklisted :: "string \<Rightarrow> string list \<Rightarrow> bool" where
  "is_blocklisted name bl = list_ex (\<lambda>pattern. contains_str name pattern) bl"

section \<open>Page maps\<close>

text \<open>
  \<open>pagemap\<close> has eight bytes per page, little endian: bit 63 is set when the page is
  present, bits 0 to 54 are its frame number. \<open>None\<close> is a file that cannot be opened;
  \<open>got\<close> is how many bytes the single \<open>read\<close> returned.
\<close>

definition pagemap_present :: "u64 \<Rightarrow> bool" where
  "pagemap_present entry \<longleftrightarrow> drop_bit 63 entry AND 1 \<noteq> 0"

definition pagemap_pfn :: "u64 \<Rightarrow> u64" where
  "pagemap_pfn entry = entry AND 0x7FFFFFFFFFFFFF"

definition read_pagemap_pfn ::
    "u8 list option \<Rightarrow> bool \<Rightarrow> u32 \<Rightarrow> u64 \<Rightarrow> animaksm_error + u64 option" where
  "read_pagemap_pfn pm seek_ok pid vaddr =
     (case pm of
        None \<Rightarrow> Err (ProcfsError (unat pid) ''cannot open'')
      | Some bytes \<Rightarrow>
          let offset = unat ((vaddr div 4096) * 8)
          in if \<not> seek_ok then Err (ProcfsError (unat pid) ''cannot seek pagemap'')
             else if length bytes < offset + 8 then Err (ProcfsError (unat pid) ''cannot read pagemap entry'')
             else let entry = u64_from_le_bytes (take 8 (drop offset bytes))
                  in Ok (if pagemap_present entry then Some (pagemap_pfn entry) else None))"

definition pagemap_entries :: "u8 list \<Rightarrow> nat \<Rightarrow> u64 list" where
  "pagemap_entries buf n = map (\<lambda>i. u64_from_le_bytes (take 8 (drop (i * 8) buf))) [0 ..< n]"

definition read_pagemap_range ::
    "u8 list option \<Rightarrow> bool \<Rightarrow> nat \<Rightarrow> u32 \<Rightarrow> u64 \<Rightarrow> u64 \<Rightarrow> animaksm_error + u64 list" where
  "read_pagemap_range pm seek_ok got pid start stop =
     (case pm of
        None \<Rightarrow> Err (ProcfsError (unat pid) ''cannot open'')
      | Some bytes \<Rightarrow>
          let page_start = start div 4096; count = (stop - start) div 4096
          in if \<not> seek_ok then Ok []
             else let avail = drop (unat (page_start * 8)) bytes;
                      bytes_read = min got (min (unat (count * 8)) (length avail))
                  in Ok (filter (\<lambda>pfn. pfn \<noteq> 0)
                        (map pagemap_pfn (filter pagemap_present
                           (pagemap_entries (take bytes_read avail) (bytes_read div 8))))))"

end
