(* ===== verification/Metrics.thy ===== *)
theory Metrics
  imports Governor Procfs
begin

text \<open>
  Model of \<open>crates/daemon/src/metrics.rs\<close>: the periodic report built from the KSM counters,
  the shared state and the daemon's own resident set size.
\<close>

record metrics_report =
  mr_pages_shared :: u64
  mr_pages_sharing :: u64
  mr_general_profit :: int
  mr_full_scans :: u64
  mr_governor_level :: u8
  mr_pressure :: string
  mr_daemon_rss_kb :: u64

text \<open>The first line that starts with \<open>VmRSS:\<close> decides; \<open>None\<close>: the file cannot be read.\<close>

fun rss_of_lines :: "string list \<Rightarrow> u64" where
  "rss_of_lines [] = 0"
| "rss_of_lines (l # ls) =
     (case strip_prefix l ''VmRSS:'' of
        Some v \<Rightarrow> (case parse_u64 (trim (trim_end_matches (trim v) '' kB'')) of None \<Rightarrow> 0 | Some n \<Rightarrow> n)
      | None \<Rightarrow> rss_of_lines ls)"

definition read_self_rss_kb :: "string option \<Rightarrow> u64" where
  "read_self_rss_kb self = (case self of None \<Rightarrow> 0 | Some content \<Rightarrow> rss_of_lines (rust_lines content))"

definition report_metrics :: "sysfs \<Rightarrow> governor_state \<Rightarrow> string option \<Rightarrow> metrics_report option" where
  "report_metrics fs st self =
     (case read_stats fs of
        Inl _ \<Rightarrow> None
      | Inr ks \<Rightarrow>
          Some \<lparr>mr_pages_shared = pages_shared ks, mr_pages_sharing = pages_sharing ks,
                mr_general_profit = general_profit ks, mr_full_scans = full_scans ks,
                mr_governor_level = gs_ksm_level st, mr_pressure = level_display (current_pressure st),
                mr_daemon_rss_kb = read_self_rss_kb self\<rparr>)"

text \<open>The loop: every tick of the interval reports; a shutdown of \<open>True\<close> ends it.\<close>

datatype metrics_event = MetricsTick sysfs governor_state "string option" | MetricsShutdown bool

fun run_metrics_loop :: "metrics_event list \<Rightarrow> metrics_report list" where
  "run_metrics_loop [] = []"
| "run_metrics_loop (MetricsTick fs st self # es) =
     (case report_metrics fs st self of None \<Rightarrow> [] | Some r \<Rightarrow> [r]) @ run_metrics_loop es"
| "run_metrics_loop (MetricsShutdown b # es) = (if b then [] else run_metrics_loop es)"

end
