(* ===== verification/Madvise.thy ===== *)
theory Madvise
  imports Procfs
begin

text \<open>
  Model of \<open>crates/daemon/src/madvise.rs\<close>: the choice of the regions of a process, the
  byte cap, injection of \<open>madvise(MADV_MERGEABLE)\<close> through ptrace, and the promotion of
  aligned regions to huge pages. The kernel is an oracle: it answers each ptrace call as it
  likes, depending on the calls made so far, and the model records the calls.
\<close>

section \<open>Regions and batches\<close>

definition MADV_MERGEABLE :: u64 where "MADV_MERGEABLE = 12"
definition SYS_MADVISE :: u64 where "SYS_MADVISE = 28"
definition MAX_IOV_BATCH :: nat where "MAX_IOV_BATCH = 256"

record madvise_result =
  mr_pid :: u32
  regions_attempted :: nat
  regions_merged :: nat
  total_bytes_marked :: u64
  mr_errors :: "(u64 \<times> string) list"

definition eligible :: "maps_entry \<Rightarrow> bool" where
  "eligible r \<longleftrightarrow> is_anon_rw r \<and> \<not> has_exec r \<and> \<not> is_special r"

fun build_batch_from :: "maps_entry list \<Rightarrow> u64 \<Rightarrow> u64 \<Rightarrow> (u64 \<times> u64) list" where
  "build_batch_from [] max_bytes acc = []"
| "build_batch_from (r # rs) max_bytes acc =
     (if max_bytes \<le> acc then []
      else let remaining = max_bytes - acc; len = min (map_size r) remaining
           in if len = 0 then []
              else (map_start r, len) # build_batch_from rs max_bytes (acc + len))"

definition build_batch :: "maps_entry list \<Rightarrow> u64 \<Rightarrow> (u64 \<times> u64) list" where
  "build_batch rs max_bytes = build_batch_from rs max_bytes 0"

section \<open>The system call instruction in the vDSO\<close>

fun find_position :: "('a list \<Rightarrow> bool) \<Rightarrow> 'a list \<Rightarrow> nat \<Rightarrow> nat option" where
  "find_position P xs 0 = None"
| "find_position P xs (Suc n) = (if P xs then Some 0 else map_option Suc (find_position P (tl xs) n))"

text \<open>\<open>windows(2).position\<close>: the first offset of the two bytes \<open>0f 05\<close>.\<close>

definition find_syscall :: "u8 list \<Rightarrow> nat option" where
  "find_syscall buf = find_position (\<lambda>w. take 2 w = [0x0f, 0x05]) buf (length buf - 1)"

definition find_first :: "('a \<Rightarrow> bool) \<Rightarrow> 'a list \<Rightarrow> 'a option" where
  "find_first P xs = List.find P xs"

text \<open>
  \<open>mem\<close> is what \<open>/proc/PID/mem\<close> yields for an address and a length: an error, or exactly
  that many bytes.
\<close>

definition find_syscall_in_vdso ::
    "proc_files \<Rightarrow> (u64 \<Rightarrow> nat \<Rightarrow> string + u8 list) \<Rightarrow> u32 \<Rightarrow> string + u64" where
  "find_syscall_in_vdso fs mem pid =
     (case fs (proc_path pid ''maps'') of
        None \<Rightarrow> Err ''read maps''
      | Some maps \<Rightarrow>
          (case find_first (\<lambda>l. contains_str l ''[vdso]'') (rust_lines maps) of
             None \<Rightarrow> Err ''no [vdso] mapping found''
           | Some line \<Rightarrow>
               let parts = split_char CHR ''-'' line
               in case parse_hex_u64 (hd parts) of
                    None \<Rightarrow> Err ''bad vdso start''
                  | Some vdso_start \<Rightarrow>
                      (case (if 1 < length parts then
                               (case split_whitespace (parts ! 1) of [] \<Rightarrow> None | w # _ \<Rightarrow> parse_hex_u64 w)
                             else None) of
                         None \<Rightarrow> Err ''bad vdso end''
                       | Some vdso_end \<Rightarrow>
                           if vdso_end < vdso_start then Err ''vdso end before start''
                           else if 10 * 1024 * 1024 < unat (vdso_end - vdso_start)
                             then Err ''vdso size too large''
                           else (case mem vdso_start (unat (vdso_end - vdso_start)) of
                                   Inl e \<Rightarrow> Err e
                                 | Inr buf \<Rightarrow>
                                     (case find_syscall buf of
                                        None \<Rightarrow> Err ''no syscall instruction in vdso''
                                      | Some off \<Rightarrow> Ok (vdso_start + word_of_nat off))))))"

section \<open>Injection\<close>

record user_regs =
  rip :: u64
  rax :: u64
  rdi :: u64
  rsi :: u64
  rdx :: u64
  other_regs :: "u64 list"

datatype ptrace_call = PAttach | PWait | PGetRegs | PSetRegs user_regs | PSyscall | PDetach

datatype wait_status = Stopped nat | Exited int | OtherStatus

record ptrace_os =
  os_ack :: "ptrace_call list \<Rightarrow> bool"
  os_wait :: "ptrace_call list \<Rightarrow> wait_status option"
  os_regs :: "ptrace_call list \<Rightarrow> user_regs option"

definition SIGTRAP :: nat where "SIGTRAP = 5"

definition errno_to_str :: "nat \<Rightarrow> string" where
  "errno_to_str errno =
     (if errno = 1 then ''EPERM: Operation not permitted''
      else if errno = 3 then ''ESRCH: No such process''
      else if errno = 22 then ''EINVAL: Invalid argument''
      else if errno = 12 then ''ENOMEM: Cannot allocate memory''
      else if errno = 9 then ''EBADF: Bad file descriptor''
      else if errno = 38 then ''ENOSYS: Function not implemented''
      else ''unknown'')"

text \<open>The registers that make the target execute \<open>madvise(addr, len, MADV_MERGEABLE)\<close>.\<close>

definition madvise_regs :: "user_regs \<Rightarrow> u64 \<Rightarrow> u64 \<Rightarrow> u64 \<Rightarrow> user_regs" where
  "madvise_regs orig addr len syscall_addr =
     orig\<lparr>rip := syscall_addr, rax := SYS_MADVISE, rdi := addr, rsi := len, rdx := MADV_MERGEABLE\<rparr>"

definition restore_detach :: "user_regs \<Rightarrow> ptrace_call list \<Rightarrow> ptrace_call list" where
  "restore_detach orig tr = tr @ [PSetRegs orig, PDetach]"

text \<open>One \<open>PTRACE_SYSCALL\<close> and the wait for the stop it leads to.\<close>

definition syscall_stop ::
    "ptrace_os \<Rightarrow> user_regs \<Rightarrow> string \<Rightarrow> ptrace_call list \<Rightarrow> ptrace_call list \<times> (string + unit)" where
  "syscall_stop os orig step tr =
     (let t1 = tr @ [PSyscall]
      in if \<not> os_ack os t1 then (restore_detach orig t1, Err (''ptrace syscall ('' @ step @ '') failed''))
         else let t2 = t1 @ [PWait]
         in case os_wait os t2 of
              None \<Rightarrow> (restore_detach orig t2, Err (''waitpid at syscall '' @ step @ '' failed''))
            | Some st \<Rightarrow>
                if st = Stopped SIGTRAP then (t2, Ok ())
                else (restore_detach orig t2, Err (''unexpected wait at syscall '' @ step)))"

text \<open>\<open>-4096 < rax < 0\<close> as a signed number is an errno.\<close>

definition syscall_errno :: "user_regs \<Rightarrow> nat option" where
  "syscall_errno r = (let v = sint (rax r) in if v < 0 \<and> - 4096 < v then Some (nat (- v)) else None)"

definition madvise_via_ptrace ::
    "ptrace_os \<Rightarrow> u64 \<Rightarrow> u64 \<Rightarrow> u64 \<Rightarrow> ptrace_call list \<times> (string + unit)" where
  "madvise_via_ptrace os addr len syscall_addr =
     (let t1 = [PAttach] in
      if \<not> os_ack os t1 then (t1, Err ''ptrace attach failed'')
      else let t2 = t1 @ [PWait] in
      case os_wait os t2 of
        None \<Rightarrow> (t2 @ [PDetach], Err ''waitpid failed'')
      | Some (Exited code) \<Rightarrow> (t2, Err ''target process exited'')
      | Some OtherStatus \<Rightarrow> (t2, Err ''unexpected wait status'')
      | Some (Stopped sig) \<Rightarrow>
          let t3 = t2 @ [PGetRegs] in
          case os_regs os t3 of
            None \<Rightarrow> (t3 @ [PDetach], Err ''getregs failed'')
          | Some orig \<Rightarrow>
              let t4 = t3 @ [PSetRegs (madvise_regs orig addr len syscall_addr)] in
              if \<not> os_ack os t4 then (t4 @ [PDetach], Err ''setregs failed'')
              else case syscall_stop os orig ''entry'' t4 of
                (t5, Inl e) \<Rightarrow> (t5, Err e)
              | (t5, Inr _) \<Rightarrow>
                  (case syscall_stop os orig ''exit'' t5 of
                     (t6, Inl e) \<Rightarrow> (t6, Err e)
                   | (t6, Inr _) \<Rightarrow>
                       let t7 = t6 @ [PGetRegs] in
                       case os_regs os t7 of
                         None \<Rightarrow> (restore_detach orig t7, Err ''getregs after syscall failed'')
                       | Some after \<Rightarrow>
                           let t8 = t7 @ [PSetRegs orig]; t9 = t8 @ [PDetach] in
                           if \<not> os_ack os t8 then (t9, Err ''failed to restore registers after ptrace injection'')
                           else if \<not> os_ack os t9 then (t9, Err ''ptrace detach failed'')
                           else case syscall_errno after of
                                  Some errno \<Rightarrow> (t9, Err (''madvise failed: errno='' @ show_nat errno @ '' ('' @ errno_to_str errno @ '')''))
                                | None \<Rightarrow> (t9, Ok ())))"

section \<open>Marking a process\<close>

definition result_new :: "u32 \<Rightarrow> madvise_result" where
  "result_new pid = \<lparr>mr_pid = pid, regions_attempted = 0, regions_merged = 0,
                     total_bytes_marked = 0, mr_errors = []\<rparr>"

definition record_region ::
    "(u64 \<Rightarrow> u64 \<Rightarrow> string + unit) \<Rightarrow> string \<Rightarrow> madvise_result \<Rightarrow> u64 \<times> u64 \<Rightarrow> madvise_result" where
  "record_region call msg res region =
     (case region of (addr, len) \<Rightarrow>
        (case call addr len of
           Inr _ \<Rightarrow> res\<lparr>regions_merged := regions_merged res + 1,
                      total_bytes_marked := total_bytes_marked res + len\<rparr>
         | Inl e \<Rightarrow> res\<lparr>mr_errors := mr_errors res @ [(addr, msg @ e)]\<rparr>))"

text \<open>\<open>inject\<close> is \<open>madvise_via_ptrace\<close> on the target and \<open>vdso\<close> the address search.\<close>

definition apply_mergeable ::
    "(u64 \<Rightarrow> u64 \<Rightarrow> u64 \<Rightarrow> string + unit) \<Rightarrow> (string + u64) \<Rightarrow> u32 \<Rightarrow> maps_entry list \<Rightarrow> u64 \<Rightarrow> bool
      \<Rightarrow> madvise_result" where
  "apply_mergeable inject vdso pid regions max_bytes dry =
     (let result = result_new pid; el = filter eligible regions
      in if el = [] then result
         else let batch = build_batch el max_bytes;
                  result = result\<lparr>regions_attempted := length batch\<rparr>;
                  total_bytes = sum_list (map snd batch)
         in if batch = [] then result
            else if dry then result\<lparr>regions_merged := length batch, total_bytes_marked := total_bytes\<rparr>
            else case vdso of
                   Inl e \<Rightarrow> result\<lparr>mr_errors := map (\<lambda>(addr, _). (addr, ''cannot find syscall instruction: '' @ e)) batch\<rparr>
                 | Inr syscall_addr \<Rightarrow>
                     foldl (record_region (\<lambda>addr len. inject addr len syscall_addr) ''ptrace madvise failed: '')
                       result batch)"

definition batch_apply_mergeable ::
    "(u32 \<Rightarrow> u64 \<Rightarrow> u64 \<Rightarrow> u64 \<Rightarrow> string + unit) \<Rightarrow> (u32 \<Rightarrow> string + u64) \<Rightarrow> (u32 \<times> maps_entry list) list
      \<Rightarrow> u64 \<Rightarrow> bool \<Rightarrow> (u32 \<times> madvise_result) list" where
  "batch_apply_mergeable inject vdso targets max_bytes dry =
     foldl (\<lambda>res (pid, regions). AList.update pid (apply_mergeable (inject pid) (vdso pid) pid regions max_bytes dry) res)
       [] targets"

section \<open>Huge pages\<close>

definition THP_SIZE :: u64 where "THP_SIZE = 2 * 1024 * 1024"

definition thp_range :: "maps_entry \<Rightarrow> u64 \<times> u64" where
  "thp_range r = ((map_start r + THP_SIZE - 1) AND NOT (THP_SIZE - 1), map_end r AND NOT (THP_SIZE - 1))"

text \<open>\<open>collapse addr len\<close> is \<open>process_madvise(MADV_COLLAPSE)\<close>; an error mentioning ENOSYS ends the loop.\<close>

fun collapse_loop :: "(u64 \<Rightarrow> u64 \<Rightarrow> string + unit) \<Rightarrow> maps_entry list \<Rightarrow> nat \<Rightarrow> nat" where
  "collapse_loop collapse [] n = n"
| "collapse_loop collapse (r # rs) n =
     (case thp_range r of (start, stop) \<Rightarrow>
        if stop \<le> start then collapse_loop collapse rs n
        else case collapse start (stop - start) of
               Inr _ \<Rightarrow> collapse_loop collapse rs (n + 1)
             | Inl e \<Rightarrow> if contains_str e ''ENOSYS'' then n else collapse_loop collapse rs n)"

definition collapse_regions :: "bool \<Rightarrow> (u64 \<Rightarrow> u64 \<Rightarrow> string + unit) \<Rightarrow> maps_entry list \<Rightarrow> nat" where
  "collapse_regions pidfd_ok collapse regions =
     (let large = filter (\<lambda>r. eligible r \<and> THP_SIZE \<le> map_size r) regions
      in if large = [] then 0 else if \<not> pidfd_ok then 0 else collapse_loop collapse large 0)"

text \<open>The raw system call: its return value and errno are the kernel's (\<open>ret\<close>, \<open>errno\<close>).\<close>

definition pidfd_open :: "int \<Rightarrow> nat \<Rightarrow> string + int" where
  "pidfd_open ret errno = (if ret < 0 then Err (''errno='' @ show_nat errno @ '' ('' @ errno_to_str errno @ '')'') else Ok ret)"

definition process_madvise_call :: "u64 \<Rightarrow> int \<Rightarrow> nat \<Rightarrow> string + int" where
  "process_madvise_call advice ret errno =
     (if advice = MADV_MERGEABLE then Err ''MADV_MERGEABLE not supported by process_madvise; use ptrace''
      else if ret < 0 then Err (''errno='' @ show_nat errno @ '' ('' @ errno_to_str errno @ '')'') else Ok ret)"

section \<open>Batched calls with fallback\<close>

fun batch_chunks :: "nat \<Rightarrow> nat \<Rightarrow> 'a list \<Rightarrow> 'a list list" where
  "batch_chunks 0 n xs = []"
| "batch_chunks (Suc k) n xs = (if xs = [] then [] else take n xs # batch_chunks k n (drop n xs))"

definition apply_chunk ::
    "((u64 \<times> u64) list \<Rightarrow> string + u64) \<Rightarrow> (u64 \<Rightarrow> u64 \<Rightarrow> string + unit) \<Rightarrow> madvise_result \<Rightarrow> (u64 \<times> u64) list
      \<Rightarrow> madvise_result" where
  "apply_chunk batch_call single_call res chunk =
     (case batch_call chunk of
        Inr bytes \<Rightarrow> res\<lparr>regions_merged := regions_merged res + length chunk,
                        total_bytes_marked := total_bytes_marked res + bytes\<rparr>
      | Inl _ \<Rightarrow> foldl (record_region single_call ''process_madvise failed: '') res chunk)"

definition apply_madvise_batches ::
    "((u64 \<times> u64) list \<Rightarrow> string + u64) \<Rightarrow> (u64 \<Rightarrow> u64 \<Rightarrow> string + unit) \<Rightarrow> madvise_result \<Rightarrow> (u64 \<times> u64) list
      \<Rightarrow> madvise_result" where
  "apply_madvise_batches batch_call single_call res batch =
     foldl (apply_chunk batch_call single_call) res (batch_chunks (length batch) MAX_IOV_BATCH batch)"

end
