(* ===== verification/Scanner.thy ===== *)
theory Scanner
  imports Madvise Governor
begin

text \<open>
  Model of \<open>crates/daemon/src/scanner.rs\<close>: the multi-level filter that picks the processes
  of a cycle, and the cycle with its stabilization window. What the kernel answers (process
  list, files, injection, huge-page promotion) is a record of functions.
\<close>

record scanner_stats =
  processes_filtered_l1 :: u64
  processes_filtered_l2 :: u64
  processes_filtered_l25_profit :: u64
  processes_targeted :: u64
  madvise_calls :: u64
  st_total_bytes_marked :: u64
  scan_cycles :: u64
  skipped_stabilization :: u64
  thp_collapsed :: u64

record candidate =
  cand_pid :: u32
  cand_name :: string
  cand_anon_rss_mb :: u64

definition scanner_stats_default :: scanner_stats where
  "scanner_stats_default =
     \<lparr>processes_filtered_l1 = 0, processes_filtered_l2 = 0, processes_filtered_l25_profit = 0,
      processes_targeted = 0, madvise_calls = 0, st_total_bytes_marked = 0, scan_cycles = 0,
      skipped_stabilization = 0, thp_collapsed = 0\<rparr>"

section \<open>Filters\<close>

definition l1_candidate_from_status :: "process_status \<Rightarrow> scanner_config \<Rightarrow> candidate option" where
  "l1_candidate_from_status status cfg =
     (if ps_pid status \<le> 2 then None
      else if is_blocklisted (ps_name status) (blocklist cfg) then None
      else let anon_rss_mb = ps_anon_rss_kb status div 1024
      in if anon_rss_mb < min_anon_rss_mb cfg then None
         else Some \<lparr>cand_pid = ps_pid status, cand_name = ps_name status, cand_anon_rss_mb = anon_rss_mb\<rparr>)"

definition passes_l2_already_merged_filter :: "ksm_proc_stat option \<Rightarrow> bool" where
  "passes_l2_already_merged_filter s = (\<not> (case s of None \<Rightarrow> False | Some x \<Rightarrow> merge_any x))"

definition passes_l25_profit_filter :: "ksm_proc_stat option \<Rightarrow> bool" where
  "passes_l25_profit_filter s = (case s of None \<Rightarrow> True | Some x \<Rightarrow> 0 \<le> process_profit x)"

definition eligible_anon_rw_summary :: "maps_entry list \<Rightarrow> nat \<times> u64" where
  "eligible_anon_rw_summary maps =
     (let el = filter (\<lambda>m. is_anon_rw m \<and> \<not> has_exec m \<and> \<not> is_special m) maps
      in (length el, sum_list (map map_size el)))"

record scan_env =
  env_status :: "u32 \<Rightarrow> process_status option"
  env_ksm :: "u32 \<Rightarrow> ksm_proc_stat option"
  env_maps :: "u32 \<Rightarrow> maps_entry list option"

definition l1_candidates :: "scanner_config \<Rightarrow> scan_env \<Rightarrow> u32 list \<Rightarrow> candidate list" where
  "l1_candidates cfg env pids =
     List.map_filter (\<lambda>pid. case env_status env pid of
        None \<Rightarrow> None | Some st \<Rightarrow> l1_candidate_from_status st cfg) pids"

text \<open>Level 2 and 2.5 in one pass, counting both kinds of survivors and rejects.\<close>

definition l25_step ::
    "scan_env \<Rightarrow> candidate list \<times> u64 \<times> u64 \<Rightarrow> candidate \<Rightarrow> candidate list \<times> u64 \<times> u64" where
  "l25_step env acc c =
     (case acc of (kept, l2_passed, negative) \<Rightarrow>
        let s = env_ksm env (cand_pid c)
        in if \<not> passes_l2_already_merged_filter s then (kept, l2_passed, negative)
           else if \<not> passes_l25_profit_filter s then (kept, l2_passed + 1, negative + 1)
           else (kept @ [c], l2_passed + 1, negative))"

definition target_of :: "scan_env \<Rightarrow> candidate \<Rightarrow> (u32 \<times> maps_entry list) option" where
  "target_of env c =
     (case env_maps env (cand_pid c) of
        None \<Rightarrow> None
      | Some maps \<Rightarrow>
          if fst (eligible_anon_rw_summary maps) = 0 then None else Some (cand_pid c, maps))"

definition collect_scan_targets ::
    "scanner_config \<Rightarrow> scan_env \<Rightarrow> u32 list \<Rightarrow> scanner_stats \<Rightarrow> scanner_stats \<times> (u32 \<times> maps_entry list) list" where
  "collect_scan_targets cfg env pids stats =
     (let l1 = l1_candidates cfg env pids;
          stats1 = stats\<lparr>processes_filtered_l1 := processes_filtered_l1 stats + word_of_nat (length l1)\<rparr>
      in if l1 = [] then (stats1, [])
         else case foldl (l25_step env) ([], 0, 0) l1 of
           (l25, l2_passed, negative) \<Rightarrow>
             let stats2 = stats1\<lparr>processes_filtered_l25_profit := processes_filtered_l25_profit stats1 + negative,
                                 processes_filtered_l2 := processes_filtered_l2 stats1 + l2_passed\<rparr>
             in if l25 = [] then (stats2, [])
                else let top = take (unat (max_candidates_per_cycle cfg))
                                 (sort_key (\<lambda>c. - int (unat (cand_anon_rss_mb c))) l25)
                     in (stats2, List.map_filter (target_of env) top))"

section \<open>The scan cycle\<close>

record scanner =
  sc_config :: scanner_config
  sc_dry_run :: bool
  sc_stats :: scanner_stats
  sc_stabilization_secs :: u64

definition scanner_new :: "scanner_config \<Rightarrow> bool \<Rightarrow> u64 \<Rightarrow> scanner" where
  "scanner_new cfg dry secs =
     \<lparr>sc_config = cfg, sc_dry_run = dry, sc_stats = scanner_stats_default, sc_stabilization_secs = secs\<rparr>"

record scan_kernel =
  k_pids :: "u32 list option"
  k_env :: scan_env
  k_inject :: "u32 \<Rightarrow> u64 \<Rightarrow> u64 \<Rightarrow> u64 \<Rightarrow> string + unit"
  k_vdso :: "u32 \<Rightarrow> string + u64"
  k_ksm_stats :: "ksm_stats option"
  k_pidfd :: "u32 \<Rightarrow> bool"
  k_collapse :: "u32 \<Rightarrow> u64 \<Rightarrow> u64 \<Rightarrow> string + unit"

definition add_result :: "scanner_stats \<Rightarrow> madvise_result \<Rightarrow> scanner_stats" where
  "add_result s r =
     s\<lparr>processes_targeted := processes_targeted s + 1,
       madvise_calls := madvise_calls s + word_of_nat (regions_merged r),
       st_total_bytes_marked := st_total_bytes_marked s + total_bytes_marked r\<rparr>"

definition collapse_targets ::
    "scan_kernel \<Rightarrow> bool \<Rightarrow> (u32 \<times> maps_entry list) list \<Rightarrow> scanner_stats \<Rightarrow> scanner_stats" where
  "collapse_targets k dry targets s =
     (case k_ksm_stats k of
        None \<Rightarrow> s
      | Some ks \<Rightarrow>
          if 1000 < pages_volatile ks
          then foldl (\<lambda>s (pid, maps). if dry then s
                 else s\<lparr>thp_collapsed := thp_collapsed s
                          + word_of_nat (collapse_regions (k_pidfd k pid) (k_collapse k pid) maps)\<rparr>) s targets
          else s)"

definition scan_cycle :: "scan_kernel \<Rightarrow> nat \<Rightarrow> scanner \<times> governor_state \<Rightarrow> scanner \<times> governor_state" where
  "scan_cycle k now x =
     (case x of (sc, st) \<Rightarrow>
        if now - last_scanner_action st < unat (sc_stabilization_secs sc) * 1000
        then (sc\<lparr>sc_stats := (sc_stats sc)\<lparr>skipped_stabilization := skipped_stabilization (sc_stats sc) + 1\<rparr>\<rparr>, st)
        else case k_pids k of
          None \<Rightarrow> (sc, st)
        | Some pids \<Rightarrow>
            (case collect_scan_targets (sc_config sc) (k_env k) pids (sc_stats sc) of
               (s1, targets) \<Rightarrow>
                 if targets = [] then (sc\<lparr>sc_stats := s1\<rparr>, st)
                 else let max_bytes = max_mergeable_per_process_mb (sc_config sc) * 1024 * 1024;
                          results = batch_apply_mergeable (k_inject k) (k_vdso k) targets max_bytes (sc_dry_run sc);
                          s2 = foldl add_result s1 (map snd results);
                          s3 = collapse_targets k (sc_dry_run sc) targets s2;
                          st1 = (if madvise_calls (sc_stats sc) < madvise_calls s3
                                 then st\<lparr>last_scanner_action := now, last_global_action := now\<rparr> else st)
                      in (sc\<lparr>sc_stats := s3\<rparr>, st1)))"

text \<open>\<open>run\<close>: every tick of the interval is one cycle; a shutdown of \<open>True\<close> ends the loop.\<close>

datatype scanner_event = ScanTick scan_kernel nat | ScanShutdown bool

fun scanner_run :: "scanner \<times> governor_state \<Rightarrow> scanner_event list \<Rightarrow> scanner \<times> governor_state" where
  "scanner_run x [] = x"
| "scanner_run x (ScanTick k now # es) =
     (case scan_cycle k now x of
        (sc, st) \<Rightarrow> scanner_run
          (sc\<lparr>sc_stats := (sc_stats sc)\<lparr>scan_cycles := scan_cycles (sc_stats sc) + 1\<rparr>\<rparr>, st) es)"
| "scanner_run x (ScanShutdown b # es) = (if b then x else scanner_run x es)"

end
