(* ===== verification/Daemon.thy ===== *)
theory Daemon
  imports Metrics Scanner
begin

text \<open>
  Model of \<open>crates/daemon/src/main.rs\<close>: the life of the daemon (configuration, snapshot,
  tasks, shutdown, restore) and its \<open>status\<close>, \<open>stats\<close> and \<open>restore-ksm\<close> commands. The
  tasks are interleaved at the granularity of one governor tick, one scan cycle or one
  report; the order is a list of events, in which the outside world may also rewrite sysfs.
\<close>

datatype daemon_error = BadConfig config_error | KsmFailed animaksm_error | SignalFailed string

section \<open>The machine\<close>

datatype daemon_event =
    GovernorTick "string option" nat
  | ScannerTick scan_kernel nat
  | ReportTick "string option"
  | Outside "sysfs \<Rightarrow> sysfs"

record daemon_host =
  dh_config_file :: "string option option"
  dh_parsed :: "string \<Rightarrow> animaksm_config option"
  dh_ksm_exists :: "string \<Rightarrow> bool"
  dh_encode :: "ksm_snapshot \<Rightarrow> string option"
  dh_decode :: "string \<Rightarrow> ksm_snapshot option"
  dh_chrono :: string
  dh_junk :: string
  dh_readable :: bool
  dh_now :: nat
  dh_events :: "daemon_event list"
  dh_late :: "daemon_event list"
  dh_signal :: "string + string"

text \<open>\<open>None\<close>: the file does not exist; \<open>Some None\<close>: it exists and cannot be read.\<close>

definition load_config_or_default ::
    "string option option \<Rightarrow> (string \<Rightarrow> animaksm_config option) \<Rightarrow> config_error + animaksm_config" where
  "load_config_or_default file parsed =
     (case file of None \<Rightarrow> Ok animaksm_default | Some txt \<Rightarrow> config_load txt parsed)"

section \<open>The tasks\<close>

record daemon_tasks =
  tk_governor :: "governor option"
  tk_scanner :: "scanner option"
  tk_metrics :: bool
  tk_state :: governor_state
  tk_ksm :: ksm_world
  tk_reports :: "metrics_report list"

text \<open>In a dry run the governor gets a second, fresh controller with the flag set.\<close>

definition spawn_governor ::
    "kernel_write \<Rightarrow> governor_config \<Rightarrow> (string \<Rightarrow> bool) \<Rightarrow> bool \<Rightarrow> nat \<Rightarrow> ksm_world
      \<Rightarrow> ksm_world \<times> (animaksm_error + governor option)" where
  "spawn_governor kw cfg exists dry now w =
     (if \<not> gov_enabled cfg then (w, Ok None)
      else case controller_new w (ksm_path cfg) (exists (ksm_path cfg)) of
        (w1, Inl e) \<Rightarrow> (w1, Err e)
      | (w1, Inr c) \<Rightarrow>
          if dry then
            (case controller_new w1 (ksm_path cfg) (exists (ksm_path cfg)) of
               (w2, Inl e) \<Rightarrow> (w2, Err e)
             | (w2, Inr c2) \<Rightarrow>
                 let g = governor_new cfg (set_dry_run c2 True) now in (governor_start kw g w2, Ok (Some g)))
          else let g = governor_new cfg c now in (governor_start kw g w1, Ok (Some g)))"

definition spawn_scanner :: "animaksm_config \<Rightarrow> bool \<Rightarrow> scanner option" where
  "spawn_scanner cfg dry =
     (if scan_enabled (scanner_cfg cfg)
      then Some (scanner_new (scanner_cfg cfg) dry (stabilization_secs (governor_cfg cfg))) else None)"

fun daemon_step :: "kernel_write \<Rightarrow> daemon_tasks \<Rightarrow> daemon_event \<Rightarrow> daemon_tasks" where
  "daemon_step kw t (GovernorTick f now) =
     (case tk_governor t of
        None \<Rightarrow> t
      | Some g \<Rightarrow>
          (case governor_tick kw (g, tk_state t, tk_ksm t) f now of
             (g', st', w') \<Rightarrow> t\<lparr>tk_governor := Some g', tk_state := st', tk_ksm := w'\<rparr>))"
| "daemon_step kw t (ScannerTick k now) =
     (case tk_scanner t of
        None \<Rightarrow> t
      | Some sc \<Rightarrow>
          (case scanner_run (sc, tk_state t) [ScanTick k now] of
             (sc', st') \<Rightarrow> t\<lparr>tk_scanner := Some sc', tk_state := st'\<rparr>))"
| "daemon_step kw t (ReportTick self) =
     (if tk_metrics t
      then t\<lparr>tk_reports := tk_reports t
               @ run_metrics_loop [MetricsTick (ksm_files (tk_ksm t)) (tk_state t) self]\<rparr>
      else t)"
| "daemon_step kw t (Outside f) = t\<lparr>tk_ksm := (tk_ksm t)\<lparr>ksm_files := f (ksm_files (tk_ksm t))\<rparr>\<rparr>"

section \<open>The run\<close>

text \<open>The start: controller, snapshot, tasks. The metrics task makes a controller of its own.\<close>

definition daemon_start ::
    "kernel_write \<Rightarrow> daemon_host \<Rightarrow> animaksm_config \<Rightarrow> bool \<Rightarrow> ksm_world \<times> state_files
      \<Rightarrow> (ksm_world \<times> state_files) \<times> (daemon_error + daemon_tasks)" where
  "daemon_start kw host cfg dry x =
     (case x of (w, d) \<Rightarrow>
        let path = ksm_path (governor_cfg cfg) in
        case controller_new w path (dh_ksm_exists host path) of
          (w1, Inl e) \<Rightarrow> ((w1, d), Err (KsmFailed e))
        | (w1, Inr _) \<Rightarrow>
            (case (if dry then (d, Ok ())
                   else ksm_take_snapshot (dh_encode host) (dh_chrono host) (dh_junk host) w1 d) of
               (d1, Inl e) \<Rightarrow> ((w1, d1), Err (KsmFailed e))
             | (d1, Inr _) \<Rightarrow>
                 (case spawn_governor kw (governor_cfg cfg) (dh_ksm_exists host) dry (dh_now host) w1 of
                    (w2, Inl e) \<Rightarrow> ((w2, d1), Err (KsmFailed e))
                  | (w2, Inr g) \<Rightarrow>
                      (case controller_new w2 path (dh_ksm_exists host path) of
                         (w3, m) \<Rightarrow>
                           ((w3, d1),
                            Ok \<lparr>tk_governor = g, tk_scanner = spawn_scanner cfg dry, tk_metrics = is_ok m,
                                tk_state = governor_state_default (dh_now host), tk_ksm = w3,
                                tk_reports = []\<rparr>)))))"

text \<open>The end: unless dry, a fresh controller restores; a failure of the restore is logged only.\<close>

definition daemon_stop ::
    "kernel_write \<Rightarrow> daemon_host \<Rightarrow> animaksm_config \<Rightarrow> bool \<Rightarrow> ksm_world \<Rightarrow> state_files
      \<Rightarrow> ksm_world \<times> (daemon_error + unit)" where
  "daemon_stop kw host cfg dry w d =
     (if dry then (w, Ok ())
      else let path = ksm_path (governor_cfg cfg) in
           case controller_new w path (dh_ksm_exists host path) of
             (w1, Inl e) \<Rightarrow> (w1, Err (KsmFailed e))
           | (w1, Inr c) \<Rightarrow> (fst (ksm_restore (dh_decode host) (dh_readable host) kw c w1 d), Ok ()))"

text \<open>
  The daemon waits five seconds for its tasks. A timeout drops their handles without
  aborting them: \<open>dh_late\<close> is what such tasks still do after the restore (empty if all of
  them ended in time).
\<close>

definition run_daemon_with_shutdown ::
    "kernel_write \<Rightarrow> daemon_host \<Rightarrow> bool \<Rightarrow> ksm_world \<times> state_files
      \<Rightarrow> (ksm_world \<times> state_files) \<times> (daemon_error + unit)" where
  "run_daemon_with_shutdown kw host dry x =
     (case load_config_or_default (dh_config_file host) (dh_parsed host) of
        Inl e \<Rightarrow> (x, Err (BadConfig e))
      | Inr cfg \<Rightarrow>
          (case daemon_start kw host cfg dry x of
             ((w1, d1), Inl e) \<Rightarrow> ((w1, d1), Err e)
           | ((w1, d1), Inr t) \<Rightarrow>
               (let t' = foldl (daemon_step kw) t (dh_events host)
                in case dh_signal host of
                     Inl e \<Rightarrow> ((tk_ksm t', d1), Err (SignalFailed e))
                   | Inr _ \<Rightarrow>
                       (case daemon_stop kw host cfg dry (tk_ksm t') d1 of
                          (w2, r) \<Rightarrow>
                            ((tk_ksm (foldl (daemon_step kw) (t'\<lparr>tk_ksm := w2\<rparr>) (dh_late host)), d1), r)))))"

text \<open>\<open>wait_for_shutdown_signal\<close>: whether each handler could be registered, and which came first.\<close>

definition wait_for_shutdown_signal :: "bool \<Rightarrow> bool \<Rightarrow> bool \<Rightarrow> string + string" where
  "wait_for_shutdown_signal term_ok int_ok term_first =
     (if \<not> term_ok then Err ''SIGTERM handler''
      else if \<not> int_ok then Err ''SIGINT handler''
      else Ok (if term_first then ''SIGTERM'' else ''SIGINT''))"

section \<open>The other commands\<close>

definition restore_ksm_from_config ::
    "kernel_write \<Rightarrow> daemon_host \<Rightarrow> animaksm_config \<Rightarrow> ksm_world \<times> state_files
      \<Rightarrow> ksm_world \<times> (animaksm_error + unit)" where
  "restore_ksm_from_config kw host cfg x =
     (case x of (w, d) \<Rightarrow>
        let path = ksm_path (governor_cfg cfg) in
        case controller_new w path (dh_ksm_exists host path) of
          (w1, Inl e) \<Rightarrow> (w1, Err e)
        | (w1, Inr c) \<Rightarrow> ksm_restore (dh_decode host) (dh_readable host) kw c w1 d)"

definition restore_ksm ::
    "kernel_write \<Rightarrow> daemon_host \<Rightarrow> ksm_world \<times> state_files \<Rightarrow> ksm_world \<times> (daemon_error + unit)" where
  "restore_ksm kw host x =
     (case load_config_or_default (dh_config_file host) (dh_parsed host) of
        Inl e \<Rightarrow> (fst x, Err (BadConfig e))
      | Inr cfg \<Rightarrow>
          (case restore_ksm_from_config kw host cfg x of
             (w, Inl e) \<Rightarrow> (w, Err (KsmFailed e))
           | (w, Inr _) \<Rightarrow> (w, Ok ())))"

text \<open>A printed line: a title, or a label with a value; \<open>Fixed k v\<close> is \<open>v\<close> with \<open>k\<close> decimals.\<close>

datatype status_value = Num nat | Signed int | Text string | Fixed nat float
datatype status_line = Title string | Field string status_value string

definition f64_of :: "u64 \<Rightarrow> float" where "f64_of n = f64_round (rat_of_nat (unat n))"

fun f64_mul :: "float \<Rightarrow> rat \<Rightarrow> float" where
  "f64_mul (Finite a) b = f64_round (a * b)"
| "f64_mul x b = x"

definition f64_ratio :: "u64 \<Rightarrow> u64 \<Rightarrow> float" where
  "f64_ratio a b =
     (case (f64_of a, f64_of b) of (Finite x, Finite y) \<Rightarrow> f64_round (x / y) | _ \<Rightarrow> NaN)"

definition format_status :: "ksm_config \<Rightarrow> ksm_stats \<Rightarrow> psi_stats \<Rightarrow> status_line list" where
  "format_status cfg stats psi =
     [Title ''=== animaksm status ==='',
      Title ''KSM Configuration:'',
      Field ''run'' (Num (unat (cfg_run cfg))) [],
      Field ''pages_to_scan'' (Num (unat (cfg_pages_to_scan cfg))) [],
      Field ''sleep_millisecs'' (Num (unat (cfg_sleep_millisecs cfg))) [],
      Field ''max_page_sharing'' (Num (unat (cfg_max_page_sharing cfg))) [],
      Field ''advisor_mode'' (Text (cfg_advisor_mode cfg)) [],
      Field ''smart_scan'' (Num (unat (cfg_smart_scan cfg))) [],
      Title ''KSM Statistics:'',
      Field ''pages_shared'' (Num (unat (pages_shared stats))) [],
      Field ''pages_sharing'' (Num (unat (pages_sharing stats))) [],
      Field ''pages_unshared'' (Num (unat (pages_unshared stats))) [],
      Field ''general_profit'' (Signed (general_profit stats)) [],
      Field ''full_scans'' (Num (unat (full_scans stats))) [],
      Field ''sharing_savings_mb''
        (Fixed 1 (f64_mul (f64_mul (f64_mul (f64_of (pages_sharing stats)) 4096) (1 / 1024)) (1 / 1024))) [],
      Title ''Memory Pressure (PSI):'',
      Field ''some avg10'' (Fixed 2 (avg10 (some_line psi))) ''%'',
      Field ''some avg60'' (Fixed 2 (avg60 (some_line psi))) ''%'',
      Field ''full avg10'' (Fixed 2 (avg10 (full_line psi))) ''%'',
      Field ''full avg60'' (Fixed 2 (avg60 (full_line psi))) ''%'']"

definition build_status_output ::
    "daemon_host \<Rightarrow> ksm_world \<Rightarrow> string \<Rightarrow> string option \<Rightarrow> daemon_error + status_line list" where
  "build_status_output host w psi_path psi_file =
     (case load_config_or_default (dh_config_file host) (dh_parsed host) of
        Inl e \<Rightarrow> Err (BadConfig e)
      | Inr cfg \<Rightarrow>
          let path = ksm_path (governor_cfg cfg) in
          case controller_new w path (dh_ksm_exists host path) of
            (w1, Inl e) \<Rightarrow> Err (KsmFailed e)
          | (w1, Inr _) \<Rightarrow>
              (case read_stats (ksm_files w1) of
                 Inl e \<Rightarrow> Err (KsmFailed e)
               | Inr stats \<Rightarrow>
                   (case read_config (ksm_files w1) of
                      Inl e \<Rightarrow> Err (KsmFailed e)
                    | Inr kcfg \<Rightarrow>
                        (case psi_read_from psi_path psi_file of
                           Inl e \<Rightarrow> Err (KsmFailed e)
                         | Inr psi \<Rightarrow> Ok (format_status kcfg stats psi)))))"

definition raw_u64 :: "sysfs \<Rightarrow> string \<Rightarrow> u64" where
  "raw_u64 fs name =
     (case parse_u64 (trim (case fs name of None \<Rightarrow> [] | Some c \<Rightarrow> c)) of None \<Rightarrow> 0 | Some n \<Rightarrow> n)"

definition stats_report :: "sysfs \<Rightarrow> ksm_stats \<Rightarrow> status_line list" where
  "stats_report fs stats =
     (let shared = pages_shared stats; sharing = pages_sharing stats; unshared = pages_unshared stats
      in [Title ''animaksm with KSM statistics support'',
          Field ''Full scans'' (Num (unat (raw_u64 fs ''full_scans''))) [],
          Field ''Interval'' (Num (unat (raw_u64 fs ''sleep_millisecs''))) '' ms'',
          Field ''Max page sharing ratio'' (Num (unat (raw_u64 fs ''max_page_sharing''))) [],
          Field ''Pages to scan'' (Num (unat (raw_u64 fs ''pages_to_scan''))) [],
          Field ''Pages over ratio'' (Num (unat (raw_u64 fs ''stable_node_chains''))) [],
          Field ''Duplicated pages'' (Num (unat (raw_u64 fs ''stable_node_dups''))) [],
          Field ''Use zero pages'' (Num (unat (raw_u64 fs ''use_zero_pages''))) []] @
         (if 0 < shared \<and> 0 < sharing
          then [Field ''Sharing/shared ratio'' (Fixed 4 (f64_ratio sharing shared)) [],
                Field ''Unshared/sharing ratio'' (Fixed 4 (f64_ratio unshared sharing)) []]
          else [Field ''Sharing/shared ratio'' (Num 0) [], Field ''Unshared/sharing ratio'' (Num 0) []]) @
         [Field ''Pages sharing'' (Fixed 1 (f64_mul (f64_of sharing) (1 / 256))) '' MiB'',
          Field ''Pages shared'' (Fixed 1 (f64_mul (f64_of shared) (1 / 256))) '' MiB'',
          Field ''Pages unshared'' (Fixed 1 (f64_mul (f64_of unshared) (1 / 256))) '' MiB'',
          Field ''General profit''
            (Fixed 1 (f64_mul (f64_mul (f64_round (rat_of_int (general_profit stats))) (1 / 1024)) (1 / 1024))) '' MiB''])"

definition show_stats :: "daemon_host \<Rightarrow> ksm_world \<Rightarrow> daemon_error + status_line list" where
  "show_stats host w =
     (case load_config_or_default (dh_config_file host) (dh_parsed host) of
        Inl e \<Rightarrow> Err (BadConfig e)
      | Inr cfg \<Rightarrow>
          let path = ksm_path (governor_cfg cfg) in
          case controller_new w path (dh_ksm_exists host path) of
            (w1, Inl e) \<Rightarrow> Err (KsmFailed e)
          | (w1, Inr _) \<Rightarrow>
              (case read_stats (ksm_files w1) of
                 Inl e \<Rightarrow> Err (KsmFailed e)
               | Inr stats \<Rightarrow>
                   (case read_config (ksm_files w1) of
                      Inl e \<Rightarrow> Err (KsmFailed e)
                    | Inr _ \<Rightarrow> Ok (stats_report (ksm_files w1) stats))))"

end
