(* ===== verification/Ksm_Laws.thy ===== *)
theory Ksm_Laws
  imports Ksm
begin

text \<open>
  Correctness of the KSM controller of theory \<open>Ksm\<close>: what reaches the kernel is within the
  safe ranges, what is written is read back, a snapshot is replaced atomically, and a
  restore brings the saved parameters back. What the controller relies on is the locale
  \<open>ksm_kernel\<close>; a directory of plain files provides it.
\<close>

section \<open>Clamping\<close>

lemma clamp_bounds: "lo \<le> hi \<Longrightarrow> lo \<le> clamp v lo hi \<and> clamp v lo hi \<le> hi"
  by (auto simp: clamp_def not_less)

lemma clamp_id: "lo \<le> v \<Longrightarrow> v \<le> hi \<Longrightarrow> clamp v lo hi = v"
  by (auto simp: clamp_def)

lemma param_ranges_ordered: "map_of PARAM_RANGES p = Some (lo, hi) \<Longrightarrow> lo \<le> hi"
  by (auto simp: PARAM_RANGES_def split: if_splits)

definition in_range :: "string \<Rightarrow> u64 \<Rightarrow> bool" where
  "in_range p v = (case map_of PARAM_RANGES p of None \<Rightarrow> True | Some (lo, hi) \<Rightarrow> lo \<le> v \<and> v \<le> hi)"

lemma clamp_value_in_range [simp]: "in_range p (clamp_value p v)"
  using param_ranges_ordered[of p] clamp_bounds
  by (auto simp: in_range_def clamp_value_def split: option.split)

lemma clamp_value_id: "in_range p v \<Longrightarrow> clamp_value p v = v"
  by (auto simp: in_range_def clamp_value_def clamp_id split: option.splits)

section \<open>The writes that reach the kernel\<close>

text \<open>Either nothing changed but the clock, or the kernel accepted exactly this write.\<close>

lemma now_of_fields:
  assumes "now_of w = (w', t)"
  shows "ksm_files w' = ksm_files w" "ksm_log w' = ksm_log w" "ksm_clock w' = t" "ksm_clock w \<le> t"
  using assms by (auto simp: now_of_def split: list.splits)

lemma write_param_cases:
  assumes "write_param kw c w p v = (w', r)"
  obtains (skipped) "ksm_files w' = ksm_files w" "ksm_log w' = ksm_log w"
  | (written) "kw (ksm_files w) p v = Some (ksm_files w')" "ksm_log w' = ksm_log w @ [(p, v)]" "r = Ok ()"
proof -
  obtain w1 t where n: "now_of w = (w1, t)" by (cases "now_of w")
  with assms now_of_fields[OF n] that show thesis
    by (auto simp: write_param_def split: if_splits option.splits)
qed

lemma write_param_clock: "ksm_clock w \<le> ksm_clock (fst (write_param kw c w p v))"
proof -
  obtain w1 t where "now_of w = (w1, t)" by (cases "now_of w")
  with now_of_fields[OF this] show ?thesis by (auto simp: write_param_def split: option.split)
qed

text \<open>
  The rate limit compares with \<open>last_update\<close>, which no method updates: a controller made by
  \<open>new\<close> is never limited.
\<close>

definition unlimited :: "ksm_controller \<Rightarrow> ksm_world \<Rightarrow> bool" where
  "unlimited c w \<longleftrightarrow> last_update c + MIN_UPDATE_INTERVAL_MS \<le> ksm_clock w"

lemma unlimited_write:
  assumes "unlimited c w"
  shows "unlimited c (fst (write_param kw c w p v))"
  using assms write_param_clock[of w kw c p v] by (auto simp: unlimited_def)

lemma unlimited_reaches_kernel:
  assumes "unlimited c w" "\<not> dry_run c"
  shows "(case kw (ksm_files w) p v of
      None \<Rightarrow> snd (write_param kw c w p v) = Err (SysfsError p) \<and> ksm_files (fst (write_param kw c w p v)) = ksm_files w
    | Some fs \<Rightarrow> snd (write_param kw c w p v) = Ok () \<and> ksm_files (fst (write_param kw c w p v)) = fs)"
proof -
  obtain w1 t where n: "now_of w = (w1, t)" by (cases "now_of w")
  note N = now_of_fields[OF n]
  have "\<not> t - last_update c < MIN_UPDATE_INTERVAL_MS" using assms(1) N(4) by (simp add: unlimited_def)
  with n N assms(2) show ?thesis by (simp add: write_param_def split: option.split)
qed

definition safe_write :: "string \<times> string \<Rightarrow> bool" where
  "safe_write pv \<longleftrightarrow> fst pv = ''advisor_mode'' \<or> (\<exists>n. snd pv = show_nat (unat n) \<and> in_range (fst pv) n)"

definition safe_log :: "ksm_world \<Rightarrow> bool" where
  "safe_log w \<longleftrightarrow> (\<forall>pv \<in> set (ksm_log w). safe_write pv)"

lemma safe_write_validated: "safe_log w \<Longrightarrow> safe_log (fst (write_validated kw c w p v))"
proof -
  assume s: "safe_log w"
  obtain w' r where w: "write_param kw c w p (show_nat (unat (clamp_value p v))) = (w', r)"
    by (cases "write_param kw c w p (show_nat (unat (clamp_value p v)))")
  have "safe_write (p, show_nat (unat (clamp_value p v)))"
    unfolding safe_write_def by (auto intro!: exI[of _ "clamp_value p v"])
  with s show ?thesis
    by (cases rule: write_param_cases[OF w]) (auto simp: write_validated_def w safe_log_def)
qed

lemma safe_set_advisor_mode: "safe_log w \<Longrightarrow> safe_log (fst (set_advisor_mode kw c w m))"
proof -
  assume s: "safe_log w"
  obtain w' r where w: "write_param kw c w ''advisor_mode'' m = (w', r)"
    by (cases "write_param kw c w ''advisor_mode'' m")
  with s show ?thesis
    by (cases rule: write_param_cases[OF w]) (auto simp: set_advisor_mode_def write_string_def w safe_log_def safe_write_def)
qed

lemmas setter_defs = set_run_def set_pages_to_scan_def set_sleep_millisecs_def set_max_page_sharing_def
  set_advisor_target_scan_time_def set_advisor_max_cpu_def

lemma safe_setters:
  assumes "safe_log w"
  shows "safe_log (fst (set_run kw c w v))" "safe_log (fst (set_pages_to_scan kw c w v))"
    "safe_log (fst (set_sleep_millisecs kw c w v))" "safe_log (fst (set_max_page_sharing kw c w v))"
    "safe_log (fst (set_advisor_target_scan_time kw c w v))" "safe_log (fst (set_advisor_max_cpu kw c w v))"
  using safe_write_validated[OF assms] by (simp_all add: setter_defs)

lemma and_then_pres:
  "P (fst r) \<Longrightarrow> (\<And>w. P w \<Longrightarrow> P (fst (f w))) \<Longrightarrow> P (fst (and_then r f))"
  by (auto simp: and_then_def split: prod.split sum.split)

lemma safe_restore: "safe_log w \<Longrightarrow> safe_log (fst (restore_config kw c w cfg))"
  unfolding restore_config_def Let_def
  by (intro and_then_pres[where P = safe_log]) (simp_all add: safe_setters safe_set_advisor_mode)

section \<open>Parsing what the kernel shows\<close>

lemma show_nat_chars: "c \<in> set (show_nat n) \<Longrightarrow> c \<noteq> CHR ''['' \<and> c \<noteq> CHR '']''"
  using show_nat_digits[of c n] digit_char_range by fastforce

lemma clean_show [simp]: "clean_u64 (show_nat n) = show_nat n"
proof -
  have "dropWhile (\<lambda>c. c = CHR ''['') (show_nat n) = show_nat n"
    by (rule dropWhile_none) (use show_nat_chars in blast)
  moreover have "CHR '']'' \<notin> set (show_nat n)" using show_nat_chars by blast
  ultimately show ?thesis by (simp add: clean_u64_def split_char_none)
qed

lemma read_u64_show: "fs p = Some (show_nat (unat n)) \<Longrightarrow> read_u64 fs p = Ok n"
  by (simp add: read_u64_def parse_show_u64)

lemma find_char_append: "c \<notin> set a \<Longrightarrow> find_char c (a @ c # b) = Some (length a)"
  by (induction a) auto

text \<open>The active mode is the bracketed word, wherever it stands.\<close>

lemma read_string_bracketed:
  assumes "fs p = Some s" "trim s = a @ CHR ''['' # m @ CHR '']'' # b"
    and "CHR ''['' \<notin> set a" "CHR '']'' \<notin> set m" "trim m = m"
  shows "read_string fs p = Ok m"
proof -
  have "find_char CHR ''['' (trim s) = Some (length a)" using assms(2,3) by (simp add: find_char_append)
  moreover have "find_char CHR '']'' (drop (length a) (trim s)) = Some (Suc (length m))"
    using find_char_append[OF assms(4), of b] assms(2) by simp
  ultimately show ?thesis using assms by (simp add: read_string_def Let_def)
qed

lemma find_char_none: "c \<notin> set s \<Longrightarrow> find_char c s = None"
  by (induction s) auto

lemma read_string_plain:
  assumes "fs p = Some s" "CHR ''['' \<notin> set (trim s)"
  shows "read_string fs p = Ok (trim s)"
  using assms by (simp add: read_string_def find_char_none)

section \<open>The kernel's side\<close>

text \<open>
  What the documentation of \<open>/sys/kernel/mm/ksm\<close> promises of an accepted write: a number
  reads back and no other file changes; the advisor mode reads back, and a change of mode
  may reset \<open>pages_to_scan\<close>, which cannot be written while the scan-time advisor is on.
\<close>

definition advisor_modes :: "string list" where
  "advisor_modes = [''none'', ''scan-time'']"

locale ksm_kernel =
  fixes kw :: kernel_write
  assumes num_write: "kw fs p (show_nat (unat n)) = Some fs' \<Longrightarrow> p \<in> fst ` set PARAM_RANGES \<Longrightarrow>
      read_u64 fs' p = Ok n \<and> (\<forall>q. q \<noteq> p \<longrightarrow> fs' q = fs q)"
    and mode_write: "kw fs ''advisor_mode'' m = Some fs' \<Longrightarrow> m \<in> set advisor_modes \<Longrightarrow>
      read_string fs' ''advisor_mode'' = Ok m
      \<and> (\<forall>q. q \<noteq> ''advisor_mode'' \<longrightarrow> q \<noteq> ''pages_to_scan'' \<longrightarrow> fs' q = fs q)
      \<and> (read_string fs ''advisor_mode'' = Ok m \<longrightarrow> fs' ''pages_to_scan'' = fs ''pages_to_scan'')"
    and mode_accepted: "m \<in> set advisor_modes \<Longrightarrow> kw fs ''advisor_mode'' m \<noteq> None"
    and advisor_accepted: "p \<in> {''advisor_target_scan_time'', ''advisor_max_cpu''} \<Longrightarrow> in_range p n \<Longrightarrow>
      kw fs p (show_nat (unat n)) \<noteq> None"
begin

text \<open>Reading a file depends on that file only.\<close>

lemma read_cong: "fs' q = fs q \<Longrightarrow> read_u64 fs' q = read_u64 fs q \<and> read_string fs' q = read_string fs q"
  by (simp add: read_u64_def read_string_def)

lemma set_num:
  assumes "unlimited c w" "\<not> dry_run c" "p \<in> fst ` set PARAM_RANGES" "in_range p n"
    and "write_validated kw c w p n = (w', Ok u)"
  shows "unlimited c w'" "read_u64 (ksm_files w') p = Ok n" "q \<noteq> p \<Longrightarrow> ksm_files w' q = ksm_files w q"
proof -
  have wv: "write_validated kw c w p n = write_param kw c w p (show_nat (unat n))"
    by (simp add: write_validated_def clamp_value_id[OF assms(4)])
  with assms(5) unlimited_reaches_kernel[OF assms(1,2), of kw p "show_nat (unat n)"]
  have "kw (ksm_files w) p (show_nat (unat n)) = Some (ksm_files w')" by (auto split: option.splits)
  from num_write[OF this assms(3)]
  show "read_u64 (ksm_files w') p = Ok n" "q \<noteq> p \<Longrightarrow> ksm_files w' q = ksm_files w q" by simp_all
  show "unlimited c w'"
    using unlimited_write[OF assms(1), of kw p "show_nat (unat n)"] assms(5) wv by simp
qed

lemma set_mode:
  assumes "unlimited c w" "\<not> dry_run c" "m \<in> set advisor_modes" "w' = fst (set_advisor_mode kw c w m)"
  shows "unlimited c w'" "read_string (ksm_files w') ''advisor_mode'' = Ok m"
    "q \<noteq> ''advisor_mode'' \<Longrightarrow> q \<noteq> ''pages_to_scan'' \<Longrightarrow> ksm_files w' q = ksm_files w q"
    "read_string (ksm_files w) ''advisor_mode'' = Ok m \<Longrightarrow>
       ksm_files w' ''pages_to_scan'' = ksm_files w ''pages_to_scan''"
proof -
  have wp: "w' = fst (write_param kw c w ''advisor_mode'' m)"
    using assms(4) by (simp add: set_advisor_mode_def write_string_def)
  with mode_accepted[OF assms(3), of "ksm_files w"] unlimited_reaches_kernel[OF assms(1,2), of kw "''advisor_mode''" m]
  have "kw (ksm_files w) ''advisor_mode'' m = Some (ksm_files w')" by auto
  from mode_write[OF this assms(3)]
  show "read_string (ksm_files w') ''advisor_mode'' = Ok m"
    "q \<noteq> ''advisor_mode'' \<Longrightarrow> q \<noteq> ''pages_to_scan'' \<Longrightarrow> ksm_files w' q = ksm_files w q"
    "read_string (ksm_files w) ''advisor_mode'' = Ok m \<Longrightarrow>
       ksm_files w' ''pages_to_scan'' = ksm_files w ''pages_to_scan''" by simp_all
  show "unlimited c w'" unfolding wp by (rule unlimited_write[OF assms(1)])
qed

lemma set_advisor_num:
  assumes "unlimited c w" "\<not> dry_run c" "p \<in> {''advisor_target_scan_time'', ''advisor_max_cpu''}" "in_range p n"
  shows "snd (write_validated kw c w p n) = Ok ()"
proof -
  have "kw (ksm_files w) p (show_nat (unat n)) \<noteq> None" by (rule advisor_accepted[OF assms(3,4)])
  with unlimited_reaches_kernel[OF assms(1,2), of kw p "show_nat (unat n)"] show ?thesis
    by (auto simp: write_validated_def clamp_value_id[OF assms(4)])
qed

end

text \<open>A snapshot whose values can be written back unchanged.\<close>

definition restorable :: "ksm_config \<Rightarrow> bool" where
  "restorable cfg \<longleftrightarrow> cfg_advisor_mode cfg \<in> set advisor_modes
     \<and> in_range ''run'' (cfg_run cfg) \<and> in_range ''pages_to_scan'' (cfg_pages_to_scan cfg)
     \<and> in_range ''sleep_millisecs'' (cfg_sleep_millisecs cfg)
     \<and> in_range ''max_page_sharing'' (cfg_max_page_sharing cfg)
     \<and> in_range ''advisor_target_scan_time'' (cfg_advisor_target_scan_time cfg)
     \<and> in_range ''advisor_max_cpu'' (cfg_advisor_max_cpu cfg)"

definition restored :: "ksm_config \<Rightarrow> sysfs \<Rightarrow> bool" where
  "restored cfg fs \<longleftrightarrow> read_u64 fs ''run'' = Ok (cfg_run cfg)
     \<and> read_u64 fs ''sleep_millisecs'' = Ok (cfg_sleep_millisecs cfg)
     \<and> read_u64 fs ''max_page_sharing'' = Ok (cfg_max_page_sharing cfg)
     \<and> read_string fs ''advisor_mode'' = Ok (cfg_advisor_mode cfg)
     \<and> read_u64 fs ''advisor_target_scan_time'' = Ok (cfg_advisor_target_scan_time cfg)
     \<and> read_u64 fs ''advisor_max_cpu'' = Ok (cfg_advisor_max_cpu cfg)
     \<and> (cfg_advisor_mode cfg \<noteq> ''scan-time'' \<longrightarrow>
          read_u64 fs ''pages_to_scan'' = Ok (cfg_pages_to_scan cfg))"

lemma param_names [simp]:
  "''run'' \<in> fst ` set PARAM_RANGES" "''pages_to_scan'' \<in> fst ` set PARAM_RANGES"
  "''sleep_millisecs'' \<in> fst ` set PARAM_RANGES" "''max_page_sharing'' \<in> fst ` set PARAM_RANGES"
  "''advisor_target_scan_time'' \<in> fst ` set PARAM_RANGES" "''advisor_max_cpu'' \<in> fst ` set PARAM_RANGES"
  by (simp_all add: PARAM_RANGES_def)

text \<open>
  The four numbers in the order in which a restore writes them. \<open>refused_at\<close>: the kernel
  refuses one of them, and those before it read as saved.
\<close>

definition saved_numbers :: "ksm_config \<Rightarrow> (string \<times> u64) list" where
  "saved_numbers cfg =
     [(''run'', cfg_run cfg), (''pages_to_scan'', cfg_pages_to_scan cfg),
      (''sleep_millisecs'', cfg_sleep_millisecs cfg), (''max_page_sharing'', cfg_max_page_sharing cfg)]"

fun refused_at :: "kernel_write \<Rightarrow> sysfs \<Rightarrow> (string \<times> u64) list \<Rightarrow> bool" where
  "refused_at kw fs [] \<longleftrightarrow> False"
| "refused_at kw fs ((p, n) # xs) \<longleftrightarrow>
     kw fs p (show_nat (unat n)) = None \<or> read_u64 fs p = Ok n \<and> refused_at kw fs xs"

lemma and_then_Ok: "and_then r f = (w', Ok u) \<longleftrightarrow> (\<exists>w. r = (w, Ok ()) \<and> f w = (w', Ok u))"
  by (auto simp: and_then_def split: prod.split sum.split)

context ksm_kernel
begin

lemma restore_restores:
  assumes un: "unlimited c w" and dry: "\<not> dry_run c" and ok: "restorable cfg"
    and res: "restore_config kw c w cfg = (w', Ok u)"
  shows "restored cfg (ksm_files w')"
proof -
  have modes: "cfg_advisor_mode cfg \<in> set advisor_modes" "''none'' \<in> set advisor_modes"
    using ok by (simp_all add: restorable_def advisor_modes_def)
  define m0 where "m0 = (if cfg_advisor_mode cfg \<noteq> ''scan-time'' then cfg_advisor_mode cfg else ''none'')"
  define w0 where "w0 = fst (set_advisor_mode kw c w m0)"
  have m0: "m0 \<in> set advisor_modes" using modes by (simp add: m0_def)
  obtain w1 w2 w3 w4 where
    s1: "write_validated kw c w0 ''run'' (cfg_run cfg) = (w1, Ok ())" and
    s2: "write_validated kw c w1 ''pages_to_scan'' (cfg_pages_to_scan cfg) = (w2, Ok ())" and
    s3: "write_validated kw c w2 ''sleep_millisecs'' (cfg_sleep_millisecs cfg) = (w3, Ok ())" and
    s4: "write_validated kw c w3 ''max_page_sharing'' (cfg_max_page_sharing cfg) = (w4, Ok ())" and
    w': "w' = fst (set_advisor_max_cpu kw c (fst (set_advisor_target_scan_time kw c
           (fst (set_advisor_mode kw c w4 (cfg_advisor_mode cfg))) (cfg_advisor_target_scan_time cfg)))
           (cfg_advisor_max_cpu cfg))"
    using res by (auto simp: restore_config_def Let_def and_then_Ok setter_defs w0_def m0_def split: if_splits)
  note ok' = ok[unfolded restorable_def]
  note M0 = set_mode[OF un dry m0 w0_def]
  note S1 = set_num[OF M0(1) dry _ _ s1]
  have S1': "unlimited c w1" using S1(1) ok' by simp
  note S2 = set_num[OF S1' dry _ _ s2]
  have S2': "unlimited c w2" using S2(1) ok' by simp
  note S3 = set_num[OF S2' dry _ _ s3]
  have S3': "unlimited c w3" using S3(1) ok' by simp
  note S4 = set_num[OF S3' dry _ _ s4]
  have S4': "unlimited c w4" using S4(1) ok' by simp
  define w5 where "w5 = fst (set_advisor_mode kw c w4 (cfg_advisor_mode cfg))"
  note M5 = set_mode[OF S4' dry modes(1) w5_def]
  obtain w6 where s6: "write_validated kw c w5 ''advisor_target_scan_time'' (cfg_advisor_target_scan_time cfg) = (w6, Ok ())"
    using set_advisor_num[OF M5(1) dry, of "''advisor_target_scan_time''"] ok' by (metis insertCI prod.collapse)
  note S6 = set_num[OF M5(1) dry _ _ s6]
  have S6': "unlimited c w6" using S6(1) ok' by simp
  obtain w7 where s7: "write_validated kw c w6 ''advisor_max_cpu'' (cfg_advisor_max_cpu cfg) = (w7, Ok ())"
    using set_advisor_num[OF S6' dry, of "''advisor_max_cpu''"] ok' by (metis insertCI prod.collapse)
  note S7 = set_num[OF S6' dry _ _ s7]
  have w7: "w' = w7" using w' s6 s7 by (simp add: setter_defs w5_def)
  have same: "ksm_files w7 q = ksm_files w5 q"
    if "q \<noteq> ''advisor_target_scan_time''" "q \<noteq> ''advisor_max_cpu''" for q
    using S6(3) S7(3) that ok' by simp
  have same5: "ksm_files w7 q = ksm_files w4 q"
    if "q \<noteq> ''advisor_target_scan_time''" "q \<noteq> ''advisor_max_cpu''" "q \<noteq> ''advisor_mode''" "q \<noteq> ''pages_to_scan''" for q
    using M5(3) same that by simp
  have mode4: "read_string (ksm_files w4) ''advisor_mode'' = Ok m0"
    using M0(2) S1(3) S2(3) S3(3) S4(3) ok' by (simp add: read_string_def)
  show ?thesis
    unfolding restored_def w7
  proof (intro conjI impI)
    show "read_u64 (ksm_files w7) ''run'' = Ok (cfg_run cfg)"
      using same5[of "''run''"] S4(3)[of "''run''"] S3(3)[of "''run''"] S2(3)[of "''run''"] S1(2) ok'
      by (simp add: read_u64_def)
    show "read_u64 (ksm_files w7) ''sleep_millisecs'' = Ok (cfg_sleep_millisecs cfg)"
      using same5[of "''sleep_millisecs''"] S4(3)[of "''sleep_millisecs''"] S3(2) ok' by (simp add: read_u64_def)
    show "read_u64 (ksm_files w7) ''max_page_sharing'' = Ok (cfg_max_page_sharing cfg)"
      using same5[of "''max_page_sharing''"] S4(2) ok' by (simp add: read_u64_def)
    show "read_string (ksm_files w7) ''advisor_mode'' = Ok (cfg_advisor_mode cfg)"
      using same[of "''advisor_mode''"] M5(2) by (simp add: read_string_def)
    show "read_u64 (ksm_files w7) ''advisor_target_scan_time'' = Ok (cfg_advisor_target_scan_time cfg)"
      using S7(3)[of "''advisor_target_scan_time''"] S6(2) ok' by (simp add: read_u64_def)
    show "read_u64 (ksm_files w7) ''advisor_max_cpu'' = Ok (cfg_advisor_max_cpu cfg)"
      using S7(2) ok' by simp
    assume "cfg_advisor_mode cfg \<noteq> ''scan-time''"
    then have "ksm_files w5 ''pages_to_scan'' = ksm_files w4 ''pages_to_scan''"
      using M5(4) mode4 by (simp add: m0_def)
    then show "read_u64 (ksm_files w7) ''pages_to_scan'' = Ok (cfg_pages_to_scan cfg)"
      using same[of "''pages_to_scan''"] S4(3)[of "''pages_to_scan''"] S3(3)[of "''pages_to_scan''"] S2(2) ok'
      by (simp add: read_u64_def)
  qed
qed

end

context ksm_kernel
begin

text \<open>A number written, accepted or not, leaves the advisor mode alone.\<close>

lemma num_keeps_mode:
  assumes "unlimited c w" "\<not> dry_run c" "p \<in> fst ` set PARAM_RANGES" "in_range p n"
    and "write_validated kw c w p n = (w', r)" "p \<noteq> ''advisor_mode''"
  shows "unlimited c w'" "ksm_files w' ''advisor_mode'' = ksm_files w ''advisor_mode''"
proof -
  have wv: "write_validated kw c w p n = write_param kw c w p (show_nat (unat n))"
    by (simp add: write_validated_def clamp_value_id[OF assms(4)])
  show "unlimited c w'"
    using unlimited_write[OF assms(1), of kw p "show_nat (unat n)"] assms(5) wv by simp
  from wv assms(5) have w': "write_param kw c w p (show_nat (unat n)) = (w', r)" by simp
  show "ksm_files w' ''advisor_mode'' = ksm_files w ''advisor_mode''"
    using num_write[OF _ assms(3)] assms(6) by (cases rule: write_param_cases[OF w']) auto
qed

lemma failed_restore_mode:
  assumes un: "unlimited c w" and dry: "\<not> dry_run c" and ok: "restorable cfg"
    and res: "restore_config kw c w cfg = (w', Err e)"
  shows "read_string (ksm_files w') ''advisor_mode'' = Ok ''none''"
proof -
  define w0 where "w0 = fst (set_advisor_mode kw c w ''none'')"
  note ok' = ok[unfolded restorable_def]
  have m0: "(if cfg_advisor_mode cfg \<noteq> ''scan-time'' then set_advisor_mode kw c w (cfg_advisor_mode cfg)
      else set_advisor_mode kw c w ''none'') = set_advisor_mode kw c w ''none''"
    using ok' by (auto simp: advisor_modes_def)
  have "''none'' \<in> set advisor_modes" by (simp add: advisor_modes_def)
  note M = set_mode[OF un dry this w0_def]
  define good where "good v \<longleftrightarrow> unlimited c v \<and> read_string (ksm_files v) ''advisor_mode'' = Ok ''none''" for v
  have g0: "good w0" using M(1,2) by (simp add: good_def)
  have num: "good (fst (write_validated kw c v p n))"
    if "good v" "p \<in> fst ` set PARAM_RANGES" "in_range p n" "p \<noteq> ''advisor_mode''" for v p n
    using num_keeps_mode[OF _ dry that(2,3) _ that(4), of v] that(1)
    by (cases "write_validated kw c v p n") (auto simp: good_def read_string_def)
  obtain w1 r1 where 1: "write_validated kw c w0 ''run'' (cfg_run cfg) = (w1, r1)" by fastforce
  have g1: "good w1" using num[OF g0, of "''run''" "cfg_run cfg"] 1 ok' by simp
  obtain w2 r2 where 2: "write_validated kw c w1 ''pages_to_scan'' (cfg_pages_to_scan cfg) = (w2, r2)" by fastforce
  have g2: "good w2" using num[OF g1, of "''pages_to_scan''" "cfg_pages_to_scan cfg"] 2 ok' by simp
  obtain w3 r3 where 3: "write_validated kw c w2 ''sleep_millisecs'' (cfg_sleep_millisecs cfg) = (w3, r3)" by fastforce
  have g3: "good w3" using num[OF g2, of "''sleep_millisecs''" "cfg_sleep_millisecs cfg"] 3 ok' by simp
  obtain w4 r4 where 4: "write_validated kw c w3 ''max_page_sharing'' (cfg_max_page_sharing cfg) = (w4, r4)" by fastforce
  have g4: "good w4" using num[OF g3, of "''max_page_sharing''" "cfg_max_page_sharing cfg"] 4 ok' by simp
  have "w' = w1 \<or> w' = w2 \<or> w' = w3 \<or> w' = w4"
    using res[unfolded restore_config_def m0] 1 2 3 4
    by (auto simp: Let_def and_then_def setter_defs w0_def[symmetric] split: sum.splits)
  with g1 g2 g3 g4 show ?thesis by (auto simp: good_def)
qed

lemma set_num_fails:
  assumes "unlimited c w" "\<not> dry_run c" "in_range p n" "write_validated kw c w p n = (w', Inl e)"
  shows "kw (ksm_files w) p (show_nat (unat n)) = None" "ksm_files w' = ksm_files w"
  using unlimited_reaches_kernel[OF assms(1,2), of kw p "show_nat (unat n)"] assms(4)
  by (auto simp: write_validated_def clamp_value_id[OF assms(3)] split: option.splits)

text \<open>A restore fails only at a number that the kernel refuses; the numbers before it are restored.\<close>

lemma failed_restore_refused:
  assumes un: "unlimited c w" and dry: "\<not> dry_run c" and ok: "restorable cfg"
    and res: "restore_config kw c w cfg = (w', Err e)"
  shows "refused_at kw (ksm_files w') (saved_numbers cfg)"
proof -
  note ok' = ok[unfolded restorable_def]
  define w0 where "w0 = fst (set_advisor_mode kw c w ''none'')"
  have m0: "(if cfg_advisor_mode cfg \<noteq> ''scan-time'' then set_advisor_mode kw c w (cfg_advisor_mode cfg)
      else set_advisor_mode kw c w ''none'') = set_advisor_mode kw c w ''none''"
    using ok' by (auto simp: advisor_modes_def)
  have "''none'' \<in> set advisor_modes" by (simp add: advisor_modes_def)
  note U0 = set_mode(1)[OF un dry this w0_def]
  obtain w1 r1 where 1: "write_validated kw c w0 ''run'' (cfg_run cfg) = (w1, r1)" by fastforce
  obtain w2 r2 where 2: "write_validated kw c w1 ''pages_to_scan'' (cfg_pages_to_scan cfg) = (w2, r2)" by fastforce
  obtain w3 r3 where 3: "write_validated kw c w2 ''sleep_millisecs'' (cfg_sleep_millisecs cfg) = (w3, r3)" by fastforce
  obtain w4 r4 where 4: "write_validated kw c w3 ''max_page_sharing'' (cfg_max_page_sharing cfg) = (w4, r4)" by fastforce
  have U: "unlimited c w1" "unlimited c w2" "unlimited c w3"
    using num_keeps_mode(1)[OF U0 dry _ _ 1] num_keeps_mode(1)[OF _ dry _ _ 2] num_keeps_mode(1)[OF _ dry _ _ 3] ok'
    by simp_all
  have end_state: "case r1 of Inl x \<Rightarrow> w' = w1 | Inr _ \<Rightarrow> (case r2 of Inl x \<Rightarrow> w' = w2 | Inr _ \<Rightarrow>
      (case r3 of Inl x \<Rightarrow> w' = w3 | Inr _ \<Rightarrow> (case r4 of Inl x \<Rightarrow> w' = w4 | Inr _ \<Rightarrow> False)))"
    using res[unfolded restore_config_def m0] 1 2 3 4
    by (auto simp: Let_def and_then_def setter_defs w0_def[symmetric] split: sum.splits)
  show ?thesis
  proof (cases r1)
    case (Inl x)
    with set_num_fails[OF U0 dry _ 1[unfolded Inl]] end_state ok' show ?thesis by (simp add: saved_numbers_def)
  next
    case r1: (Inr u)
    note S1 = set_num(2,3)[OF U0 dry param_names(1) _ 1[unfolded r1]]
    show ?thesis
    proof (cases r2)
      case (Inl x)
      with set_num_fails[OF U(1) dry _ 2[unfolded Inl]] end_state r1 S1 ok' show ?thesis
        by (simp add: saved_numbers_def read_u64_def)
    next
      case r2: (Inr u)
      note S2 = set_num(2,3)[OF U(1) dry param_names(2) _ 2[unfolded r2]]
      show ?thesis
      proof (cases r3)
        case (Inl x)
        with set_num_fails[OF U(2) dry _ 3[unfolded Inl]] end_state r1 r2 S1 S2 ok' show ?thesis
          by (simp add: saved_numbers_def read_u64_def)
      next
        case r3: (Inr u)
        note S3 = set_num(2,3)[OF U(2) dry param_names(3) _ 3[unfolded r3]]
        show ?thesis
        proof (cases r4)
          case (Inl x)
          with set_num_fails[OF U(3) dry _ 4[unfolded Inl]] end_state r1 r2 r3 S1 S2 S3 ok' show ?thesis
            by (simp add: saved_numbers_def read_u64_def)
        qed (use end_state r1 r2 r3 in simp)
      qed
    qed
  qed
qed

end

text \<open>
  A kernel that accepts every number in range, \<open>pages_to_scan\<close> only while no advisor is on;
  \<open>max_page_sharing\<close> is accepted like that as long as no page is shared. It refuses no
  number of a restore.
\<close>

locale ksm_kernel_accepting = ksm_kernel +
  assumes num_accepted: "p \<in> fst ` set PARAM_RANGES \<Longrightarrow> p \<noteq> ''pages_to_scan'' \<Longrightarrow> in_range p n \<Longrightarrow>
      kw fs p (show_nat (unat n)) \<noteq> None"
    and pages_accepted: "in_range ''pages_to_scan'' n \<Longrightarrow> read_string fs ''advisor_mode'' = Ok ''none'' \<Longrightarrow>
      kw fs ''pages_to_scan'' (show_nat (unat n)) \<noteq> None"
begin

lemma never_refused:
  "restorable cfg \<Longrightarrow> read_string fs ''advisor_mode'' = Ok ''none'' \<Longrightarrow> \<not> refused_at kw fs (saved_numbers cfg)"
  using num_accepted[OF param_names(1)] num_accepted[OF param_names(3)] num_accepted[OF param_names(4)] pages_accepted
  by (simp add: saved_numbers_def restorable_def)

end

section \<open>A directory of plain files\<close>

definition dir_write :: kernel_write where
  "dir_write fs p v = Some (fs(p \<mapsto> v))"

interpretation plain: ksm_kernel_accepting dir_write
proof (unfold_locales, goal_cases)
  case (1 fs p n fs')
  then show ?case by (auto simp: dir_write_def intro: read_u64_show)
next
  case (2 fs m fs')
  then have "trim m = m" "CHR ''['' \<notin> set m" by (auto simp: advisor_modes_def intro!: trim_no_space) (auto simp: is_space_def)
  with 2 read_string_plain[of fs' "''advisor_mode''" m] show ?case by (auto simp: dir_write_def)
qed (simp_all add: dir_write_def)

section \<open>A kernel with the scan-time advisor\<close>

text \<open>
  The behaviour of \<open>/sys/kernel/mm/ksm\<close> that the laws abstract: numbers are shown with a
  newline, the advisor file shows all modes with brackets around the active one, switching
  the advisor on resets \<open>pages_to_scan\<close>, which is then read-only.
\<close>

definition advisor_text :: "string \<Rightarrow> string" where
  "advisor_text m = (if m = ''scan-time'' then ''none [scan-time]'' else ''[none] scan-time'') @ [newline]"

definition sysfs_write :: kernel_write where
  "sysfs_write fs p v =
     (if p = ''advisor_mode'' then
        if v \<notin> set advisor_modes then None
        else if read_string fs p = Ok v then Some fs
        else Some ((if v = ''scan-time'' then fs(''pages_to_scan'' \<mapsto> ''500'' @ [newline]) else fs)
                     (p \<mapsto> advisor_text v))
      else if p = ''pages_to_scan'' \<and> read_string fs ''advisor_mode'' = Ok ''scan-time'' then None
      else Some (fs(p \<mapsto> v @ [newline])))"

lemma trim_show_newline [simp]: "trim (show_nat n @ [newline]) = show_nat n"
proof -
  have "is_space newline" by (simp add: is_space_def newline_def)
  moreover have "\<not> is_space c" if "c \<in> set (show_nat n)" for c
    using show_nat_digits[OF that] digit_char_neq by blast
  ultimately show ?thesis
    by (cases "show_nat n" rule: rev_cases)
       (auto simp: trim_def trim_start_def trim_end_def dropWhile_append dropWhile_none)
qed

lemma read_u64_line: "fs p = Some (show_nat (unat n) @ [newline]) \<Longrightarrow> read_u64 fs p = Ok n"
  by (simp add: read_u64_def parse_show_u64 clean_u64_def)
     (metis clean_show clean_u64_def parse_show_u64 trim_show option.simps(5))

lemma read_advisor_text:
  "m \<in> set advisor_modes \<Longrightarrow> fs p = Some (advisor_text m) \<Longrightarrow> read_string fs p = Ok m"
proof -
  assume m: "m \<in> set advisor_modes" and fs: "fs p = Some (advisor_text m)"
  have t: "trim (advisor_text ''none'') = ''[none] scan-time''"
    "trim (advisor_text ''scan-time'') = ''none [scan-time]''"
    by (simp_all add: advisor_text_def trim_def trim_start_def trim_end_def is_space_def newline_def)
  from m fs t show "read_string fs p = Ok m"
    by (auto simp: advisor_modes_def read_string_def Let_def)
       (simp_all add: trim_def trim_start_def trim_end_def is_space_def)
qed

lemma mode_not_param: "''advisor_mode'' \<notin> fst ` set PARAM_RANGES"
  by (simp add: PARAM_RANGES_def)

interpretation sysfs: ksm_kernel_accepting sysfs_write
proof (unfold_locales, goal_cases)
  case (1 fs p n fs')
  then have "p \<noteq> ''advisor_mode''" using mode_not_param by blast
  with 1 show ?case by (auto simp: sysfs_write_def intro: read_u64_line split: if_splits)
next
  case (2 fs m fs')
  then show ?case by (auto simp: sysfs_write_def intro: read_advisor_text split: if_splits)
next
  case (3 m fs)
  then show ?case by (simp add: sysfs_write_def)
next
  case (5 p n fs)
  then have "p \<noteq> ''advisor_mode''" using mode_not_param by blast
  with 5 show ?case by (simp add: sysfs_write_def)
qed (auto simp: sysfs_write_def)

text \<open>
  While pages are shared the kernel refuses a change of \<open>max_page_sharing\<close> with EBUSY: it
  still satisfies the laws of \<open>ksm_kernel\<close>, but does not accept every number.
\<close>

definition busy_write :: kernel_write where
  "busy_write fs p v =
     (if p = ''max_page_sharing'' \<and> fs ''pages_shared'' \<notin> {None, Some (''0'' @ [newline])} then None
      else sysfs_write fs p v)"

interpretation busy: ksm_kernel busy_write
proof (unfold_locales, goal_cases)
  case (1 fs p n fs')
  then show ?case using sysfs.num_write[of fs p n fs'] by (simp add: busy_write_def split: if_splits)
next
  case (2 fs m fs')
  then show ?case using sysfs.mode_write[of fs m fs'] by (simp add: busy_write_def)
next
  case (3 m fs)
  then show ?case using sysfs.mode_accepted[of m fs] by (simp add: busy_write_def)
next
  case (4 p n fs)
  then show ?case using sysfs.advisor_accepted[of p n fs] by (auto simp: busy_write_def)
qed

section \<open>Snapshots are replaced atomically\<close>

lemma next_ok_fields:
  "next_ok d = (d', b) \<Longrightarrow> snapshot_file d' = snapshot_file d \<and> snapshot_tmp d' = snapshot_tmp d"
  by (auto simp: next_ok_def split: list.splits)

lemma snapshot_atomic:
  assumes "ksm_take_snapshot enc now junk w d = (d', r)"
  shows "(case r of
      Inl _ \<Rightarrow> snapshot_file d' = snapshot_file d
    | Inr _ \<Rightarrow> \<exists>cfg json. read_config (ksm_files w) = Ok cfg
        \<and> enc \<lparr>snap_config = cfg, snap_timestamp = now\<rparr> = Some json \<and> snapshot_file d' = Some json)"
  using assms
  by (auto simp: ksm_take_snapshot_def write_tmp_def rename_tmp_def
      split: sum.splits option.splits prod.splits if_splits dest!: next_ok_fields)

end
