(* ===== verification/Governor_Laws.thy ===== *)
theory Governor_Laws
  imports Governor Ksm_Laws
begin

text \<open>
  Correctness of the governor of theory \<open>Governor\<close>: the level stays within the profile
  table and never falls back to 0, every write is within the safe ranges, level changes are
  damped by hysteresis and by the stabilization window, and what the profit check does.
\<close>

section \<open>Levels\<close>

definition gov_inv :: "governor \<Rightarrow> bool" where
  "gov_inv g \<longleftrightarrow> current_level g \<le> 5 \<and> full_scans_at_level g = 0"

lemma pressure_to_level_range: "1 \<le> pressure_to_level p" "pressure_to_level p \<le> 5"
  by (cases p; simp)+

lemma pressure_to_level_mono: "p \<le> q \<Longrightarrow> pressure_to_level p \<le> pressure_to_level q"
  by (cases p; cases q) (simp_all add: less_eq_pressure_level_def)

lemma word_minus_one:
  assumes "(a :: 'a::len word) < b"
  shows "a \<le> b - 1" "b - 1 < b" "unat (b - 1) = unat b - 1"
proof -
  have b: "0 < unat b" using assms by (simp add: word_less_nat_alt)
  then have "1 \<le> b" by (simp add: word_le_nat_alt Suc_le_eq)
  then show u: "unat (b - 1) = unat b - 1" by (simp add: unat_sub)
  show "a \<le> b - 1" "b - 1 < b"
    using assms b u by (simp_all add: word_le_nat_alt word_less_nat_alt)
qed

text \<open>What a transition returns: the target when rising, one step less or the same else.\<close>

lemma transition_result:
  assumes "compute_transition g target now = (g', r)"
  shows "r = current_level g \<or> current_level g < target \<and> r = target
      \<or> target < current_level g \<and> r = current_level g - 1"
    "current_level g' = current_level g" "gov_config g' = gov_config g" "gov_ksm g' = gov_ksm g"
    "full_scans_at_level g = 0 \<Longrightarrow> full_scans_at_level g' = 0"
  using assms by (auto simp: compute_transition_def Let_def split: if_splits)

lemma transition_range:
  assumes "compute_transition g target now = (g', r)" "current_level g \<le> 5" "1 \<le> target" "target \<le> 5"
  shows "r \<le> 5" "1 \<le> current_level g \<Longrightarrow> 1 \<le> r"
  using transition_result(1)[OF assms(1)] assms word_minus_one[of target "current_level g"]
  by (auto intro: order_trans less_imp_le)

lemma transition_up: "compute_transition g target now = (g', r) \<Longrightarrow> current_level g \<le> target \<Longrightarrow> r \<le> target"
  using transition_result(1) by (fastforce simp: not_less[symmetric])

lemma observe_fields [simp]:
  "current_level (observe_psi_stability g psi) = current_level g"
  "gov_config (observe_psi_stability g psi) = gov_config g"
  "gov_ksm (observe_psi_stability g psi) = gov_ksm g"
  "hysteresis_count (observe_psi_stability g psi) = hysteresis_count g"
  "ramp_up_count (observe_psi_stability g psi) = ramp_up_count g"
  "level_entered_at (observe_psi_stability g psi) = level_entered_at g"
  "full_scans_at_level (observe_psi_stability g psi) = full_scans_at_level g"
  by (simp_all add: observe_psi_stability_def Let_def split: option.split)

lemma apply_profile_fields:
  assumes "apply_profile kw g st w level now = (g', st', w')"
  shows "g' = g\<lparr>current_level := level\<rparr>"
    "st' = st\<lparr>last_governor_action := now, last_global_action := now\<rparr>"
  using assms by (auto simp: apply_profile_def Let_def)

section \<open>Safe writes\<close>

lemma apply_profile_safe: "safe_log w \<Longrightarrow> safe_log (snd (snd (apply_profile kw g st w level now)))"
  by (simp add: apply_profile_def Let_def safe_setters)

text \<open>In advisor mode the governor leaves scanning to the kernel.\<close>

definition advisor_respected :: "ksm_world \<Rightarrow> bool" where
  "advisor_respected w \<longleftrightarrow> (\<forall>(p, v) \<in> set (ksm_log w).
     p \<noteq> ''pages_to_scan'' \<and> (p = ''run'' \<longrightarrow> v \<noteq> ''0''))"

lemma advisor_write:
  assumes "advisor_respected w" "p \<noteq> ''pages_to_scan''" "p = ''run'' \<Longrightarrow> v \<noteq> ''0''"
  shows "advisor_respected (fst (write_param kw c w p v))"
proof -
  obtain w' r where w: "write_param kw c w p v = (w', r)" by (cases "write_param kw c w p v")
  with assms show ?thesis
    by (cases rule: write_param_cases[OF w]) (auto simp: advisor_respected_def)
qed

lemma show_one: "show_nat (Suc 0) = ''1''"
  by code_simp

lemma advisor_setters:
  assumes "advisor_respected w"
  shows "advisor_respected (fst (set_sleep_millisecs kw c w v))"
    "advisor_respected (fst (set_max_page_sharing kw c w v))"
    "advisor_respected (fst (set_run kw c w 1))" "advisor_respected (fst (set_advisor_mode kw c w m))"
  unfolding setter_defs set_advisor_mode_def write_string_def write_validated_def
  by (intro advisor_write[OF assms];
      simp add: clamp_value_def PARAM_RANGES_def clamp_def show_one)+

lemma apply_profile_advisor:
  assumes "advisor_respected w" "use_advisor (gov_config g)"
  shows "advisor_respected (snd (snd (apply_profile kw g st w level now)))"
  using assms by (simp add: apply_profile_def Let_def advisor_setters)

section \<open>One tick\<close>

lemma damped_change_cases:
  assumes "damped_change kw (g, st, w) r now = (g', st', w')"
  obtains (same) "g' = g" "st' = st" "w' = w"
  | (changed) "r \<noteq> current_level g" "unat (stabilization_secs (gov_config g)) * 1000 \<le> now - last_governor_action st"
      "apply_profile kw g st w r now = (g', st', w')"
  using assms by (auto simp: damped_change_def split: if_splits)

lemma profit_check_cases:
  assumes "profit_check kw (g, st, w) ks now = (g', st', w')"
  obtains (same) "g' = g" "st' = st" "w' = w"
  | (reduced) "1 < current_level g" "general_profit ks < 0" "full_scans_at_level g + 10 < full_scans ks"
      "apply_profile kw g st w (current_level g - 1) now = (g', st', w')"
  using assms by (auto simp: profit_check_def split: if_splits)

text \<open>The stages of a tick: observation, transition, damped change, profit check.\<close>

lemma tick_stages:
  assumes "tick_with_readings kw (g, st, w) psi ks now = (g', st', w')"
  obtains g2 r g3 st3 w3 st4 where
    "compute_transition (observe_psi_stability g psi)
       (pressure_to_level (classify psi (psi_some_threshold (gov_config g)) (psi_full_threshold (gov_config g)))) now = (g2, r)"
    "damped_change kw (g2, st, w) r now = (g3, st3, w3)"
    "profit_check kw (g3, st3, w3) ks now = (g', st4, w')"
    "last_governor_action st' = last_governor_action st4" "gs_ksm_level st' = current_level g'"
proof -
  let ?t = "pressure_to_level (classify psi (psi_some_threshold (gov_config g)) (psi_full_threshold (gov_config g)))"
  obtain g2 r where c: "compute_transition (observe_psi_stability g psi) ?t now = (g2, r)"
    by (cases "compute_transition (observe_psi_stability g psi) ?t now")
  obtain g3 st3 w3 where d: "damped_change kw (g2, st, w) r now = (g3, st3, w3)"
    by (cases "damped_change kw (g2, st, w) r now")
  obtain g4 st4 w4 where p: "profit_check kw (g3, st3, w3) ks now = (g4, st4, w4)"
    by (cases "profit_check kw (g3, st3, w3) ks now")
  from assms c d p have "g' = g4" "w' = w4" "last_governor_action st' = last_governor_action st4"
    "gs_ksm_level st' = current_level g4"
    by (auto simp: tick_with_readings_def Let_def)
  with c d p show thesis by (intro that) auto
qed

lemma tick_inv:
  assumes inv: "gov_inv g" and t: "tick_with_readings kw (g, st, w) psi ks now = (g', st', w')"
  shows "gov_inv g'" "gs_ksm_level st' = current_level g'" "1 \<le> current_level g \<Longrightarrow> 1 \<le> current_level g'"
    "gov_config g' = gov_config g" "safe_log w \<Longrightarrow> safe_log w'"
    "use_advisor (gov_config g) \<Longrightarrow> advisor_respected w \<Longrightarrow> advisor_respected w'"
proof -
  from t obtain g2 r g3 st3 w3 st4 where
    c: "compute_transition (observe_psi_stability g psi)
       (pressure_to_level (classify psi (psi_some_threshold (gov_config g)) (psi_full_threshold (gov_config g)))) now = (g2, r)"
    and d: "damped_change kw (g2, st, w) r now = (g3, st3, w3)"
    and p: "profit_check kw (g3, st3, w3) ks now = (g', st4, w')"
    and s: "gs_ksm_level st' = current_level g'"
    by (rule tick_stages)
  note C = transition_result[OF c]
  have lev: "current_level g \<le> 5" "full_scans_at_level g = 0" using inv by (simp_all add: gov_inv_def)
  have R: "r \<le> 5" "1 \<le> current_level g \<Longrightarrow> 1 \<le> r"
    using transition_range[OF c] lev pressure_to_level_range by simp_all
  have g3: "gov_inv g3 \<and> gov_config g3 = gov_config g \<and> (1 \<le> current_level g \<longrightarrow> 1 \<le> current_level g3)
      \<and> (safe_log w \<longrightarrow> safe_log w3)
      \<and> (use_advisor (gov_config g) \<longrightarrow> advisor_respected w \<longrightarrow> advisor_respected w3)"
  proof (cases rule: damped_change_cases[OF d])
    case 1
    with C lev show ?thesis by (simp add: gov_inv_def)
  next
    case 2
    with apply_profile_fields[OF 2(3)] C R lev apply_profile_safe[of w kw g2 st r now]
      apply_profile_advisor[of w g2 kw st r now]
    show ?thesis by (simp add: gov_inv_def)
  qed
  have "gov_inv g' \<and> gov_config g' = gov_config g \<and> (1 \<le> current_level g \<longrightarrow> 1 \<le> current_level g')
      \<and> (safe_log w \<longrightarrow> safe_log w')
      \<and> (use_advisor (gov_config g) \<longrightarrow> advisor_respected w \<longrightarrow> advisor_respected w')"
  proof (cases rule: profit_check_cases[OF p])
    case 1
    with g3 show ?thesis by simp
  next
    case 2
    have "current_level g3 - 1 \<le> 5" "1 \<le> current_level g3 - 1"
      using word_minus_one[OF 2(1)] g3 by (auto simp: gov_inv_def intro: order_trans less_imp_le)
    with apply_profile_fields[OF 2(4)] g3 2(4) apply_profile_safe[of w3 kw g3 st3 "current_level g3 - 1" now]
      apply_profile_advisor[of w3 g3 kw st3 "current_level g3 - 1" now]
    show ?thesis by (auto simp: gov_inv_def)
  qed
  with s show "gov_inv g'" "gs_ksm_level st' = current_level g'" "1 \<le> current_level g \<Longrightarrow> 1 \<le> current_level g'"
    "gov_config g' = gov_config g" "safe_log w \<Longrightarrow> safe_log w'"
    "use_advisor (gov_config g) \<Longrightarrow> advisor_respected w \<Longrightarrow> advisor_respected w'" by simp_all
qed

section \<open>Damping\<close>

text \<open>The transition function below its target needs \<open>hysteresis_readings\<close> calls to step down.\<close>

lemma transition_down_waits:
  assumes "target < current_level g" "unat (hysteresis_count g) + 1 < unat (hysteresis_readings (gov_config g))"
    and "compute_transition g target now = (g', r)"
  shows "r = current_level g" "unat (hysteresis_count g') \<le> unat (hysteresis_count g) + 1"
proof -
  have "unat (hysteresis_count g + 1) = unat (hysteresis_count g) + 1"
    using assms(2) by (intro unat_plus1[where v = "hysteresis_readings (gov_config g)"]) linarith
  moreover have "\<not> current_level g < target" using assms(1) by simp
  ultimately show "r = current_level g" "unat (hysteresis_count g') \<le> unat (hysteresis_count g) + 1"
    using assms by (auto simp: compute_transition_def Let_def word_le_nat_alt split: if_splits)
qed

text \<open>A reading of one tick, and a run of ticks.\<close>

type_synonym reading = "psi_stats \<times> ksm_stats \<times> nat"

definition reading_target :: "governor_config \<Rightarrow> reading \<Rightarrow> u8" where
  "reading_target cfg x = pressure_to_level (classify (fst x) (psi_some_threshold cfg) (psi_full_threshold cfg))"

definition tick_reading ::
    "kernel_write \<Rightarrow> governor \<times> governor_state \<times> ksm_world \<Rightarrow> reading \<Rightarrow> governor \<times> governor_state \<times> ksm_world" where
  "tick_reading kw x rd = tick_with_readings kw x (fst rd) (fst (snd rd)) (snd (snd rd))"

lemma tick_down_waits:
  assumes t: "tick_reading kw (g, st, w) rd = (g', st', w')" and profit: "0 \<le> general_profit (fst (snd rd))"
    and low: "reading_target (gov_config g) rd < current_level g"
    and h: "unat (hysteresis_count g) + 1 < unat (hysteresis_readings (gov_config g))"
  shows "current_level g' = current_level g" "gov_config g' = gov_config g"
    "unat (hysteresis_count g') \<le> unat (hysteresis_count g) + 1"
proof -
  from t have "tick_with_readings kw (g, st, w) (fst rd) (fst (snd rd)) (snd (snd rd)) = (g', st', w')"
    by (simp add: tick_reading_def)
  then obtain g2 r g3 st3 w3 st4 where
    c: "compute_transition (observe_psi_stability g (fst rd)) (reading_target (gov_config g) rd) (snd (snd rd)) = (g2, r)"
    and d: "damped_change kw (g2, st, w) r (snd (snd rd)) = (g3, st3, w3)"
    and p: "profit_check kw (g3, st3, w3) (fst (snd rd)) (snd (snd rd)) = (g', st4, w')"
    unfolding reading_target_def by (rule tick_stages)
  have r: "r = current_level g" "unat (hysteresis_count g2) \<le> unat (hysteresis_count g) + 1"
    using transition_down_waits[OF _ _ c] low h by simp_all
  note C = transition_result[OF c]
  have "g3 = g2" using d r C by (simp add: damped_change_def)
  moreover have "g' = g3" using profit by (cases rule: profit_check_cases[OF p]) simp_all
  ultimately show "current_level g' = current_level g" "gov_config g' = gov_config g"
    "unat (hysteresis_count g') \<le> unat (hysteresis_count g) + 1" using r C by simp_all
qed

lemma ticks_down_wait:
  assumes "\<forall>rd \<in> set rds. 0 \<le> general_profit (fst (snd rd)) \<and> reading_target (gov_config g) rd < current_level g"
    and "unat (hysteresis_count g) + length rds < unat (hysteresis_readings (gov_config g))"
  shows "current_level (fst (foldl (tick_reading kw) (g, st, w) rds)) = current_level g"
  using assms
proof (induction rds arbitrary: g st w)
  case (Cons rd rds)
  obtain g' st' w' where t: "tick_reading kw (g, st, w) rd = (g', st', w')"
    by (cases "tick_reading kw (g, st, w) rd") auto
  have h: "unat (hysteresis_count g) + 1 < unat (hysteresis_readings (gov_config g))"
    if "rds \<noteq> []" using Cons.prems(2) that by (cases rds) auto
  show ?case
  proof (cases "rds = []")
    case True
    have "unat (hysteresis_count g) + 1 < unat (hysteresis_readings (gov_config g))"
      using Cons.prems(2) True by simp
    with tick_down_waits[OF t] Cons.prems(1) True t show ?thesis by simp
  next
    case False
    note T = tick_down_waits[OF t _ _ h[OF False]]
    have "current_level (fst (foldl (tick_reading kw) (g', st', w') rds)) = current_level g'"
      using Cons.prems T by (intro Cons.IH) auto
    with T Cons.prems t show ?thesis by simp
  qed
qed simp

section \<open>A deferred change is lost\<close>

lemma deferred_change:
  assumes t: "tick_with_readings kw (g, st, w) psi ks now = (g', st', w')"
    and profit: "0 \<le> general_profit ks"
    and win: "now - last_governor_action st < unat (stabilization_secs (gov_config g)) * 1000"
    and c: "compute_transition (observe_psi_stability g psi)
       (pressure_to_level (classify psi (psi_some_threshold (gov_config g)) (psi_full_threshold (gov_config g)))) now = (g2, r)"
    and ch: "r \<noteq> current_level g"
  shows "current_level g' = current_level g" "hysteresis_count g' = 0" "ramp_up_count g' = 0"
    "level_entered_at g' = now" "w' = w"
proof -
  from t obtain g2' r' g3 st3 w3 st4 where
    c': "compute_transition (observe_psi_stability g psi)
       (pressure_to_level (classify psi (psi_some_threshold (gov_config g)) (psi_full_threshold (gov_config g)))) now = (g2', r')"
    and d: "damped_change kw (g2', st, w) r' now = (g3, st3, w3)"
    and p: "profit_check kw (g3, st3, w3) ks now = (g', st4, w')"
    by (rule tick_stages)
  from c c' have e: "g2' = g2" "r' = r" by simp_all
  note C = transition_result[OF c]
  have g3: "g3 = g2" "w3 = w" using d e win C by (auto simp: damped_change_def)
  have "g' = g3" "w' = w3" using profit by (cases rule: profit_check_cases[OF p]; simp)+
  moreover have "hysteresis_count g2 = 0 \<and> ramp_up_count g2 = 0 \<and> level_entered_at g2 = now"
    using c ch by (auto simp: compute_transition_def Let_def split: if_splits)
  ultimately show "current_level g' = current_level g" "hysteresis_count g' = 0" "ramp_up_count g' = 0"
    "level_entered_at g' = now" "w' = w" using g3 C by simp_all
qed

section \<open>The profit check\<close>

text \<open>
  The baseline \<open>full_scans_at_level\<close> is 0 in every reachable state, so once the machine has
  done more than ten full scans a negative profit costs a level at every tick: neither the
  cooldown nor the stabilization window applies.
\<close>

text \<open>The level after a tick: the damped transition, and then one step for a negative profit.\<close>

lemma tick_level:
  assumes t: "tick_with_readings kw (g, st, w) psi ks now = (g', st', w')" and scans: "full_scans_at_level g = 0"
    and r: "compute_transition (observe_psi_stability g psi)
       (pressure_to_level (classify psi (psi_some_threshold (gov_config g)) (psi_full_threshold (gov_config g)))) now = (g2, r)"
    and l: "l = (if unat (stabilization_secs (gov_config g)) * 1000 \<le> now - last_governor_action st
                 then r else current_level g)"
  shows "current_level g' = (if general_profit ks < 0 \<and> 10 < full_scans ks \<and> 1 < l then l - 1 else l)"
proof -
  obtain g3 st3 w3 st4 where
    d: "damped_change kw (g2, st, w) r now = (g3, st3, w3)"
    and p: "profit_check kw (g3, st3, w3) ks now = (g', st4, w')"
    using r by (rule_tac tick_stages[OF t]) auto
  note C = transition_result[OF r]
  have l': "l = (if r \<noteq> current_level g2 \<and> unat (stabilization_secs (gov_config g2)) * 1000 \<le> now - last_governor_action st
                 then r else current_level g2)"
    using l C(2,3) by auto
  have g3: "current_level g3 = l" "full_scans_at_level g3 = 0"
    using d C(5) scans l' by (auto simp: damped_change_def split: if_splits dest: apply_profile_fields(1))
  have "1 < l \<Longrightarrow> 0 < l" by (simp add: word_less_nat_alt)
  with p g3 show ?thesis
    by (auto simp: profit_check_def split: if_splits dest: apply_profile_fields(1))
qed

lemma tick_change:
  assumes t: "tick_with_readings kw (g, st, w) psi ks now = (g', st', w')" and ch: "current_level g' \<noteq> current_level g"
  shows "last_governor_action st' = now
    \<and> (\<exists>l. (l = current_level g
             \<or> unat (stabilization_secs (gov_config g)) * 1000 \<le> now - last_governor_action st
               \<and> (current_level g < reading_target (gov_config g) (psi, ks, now) \<and> l = reading_target (gov_config g) (psi, ks, now)
                  \<or> reading_target (gov_config g) (psi, ks, now) < current_level g \<and> l = current_level g - 1))
          \<and> (current_level g' = l \<or> general_profit ks < 0 \<and> 1 < l \<and> current_level g' = l - 1))"
proof -
  from t obtain g2 r g3 st3 w3 st4 where
    c: "compute_transition (observe_psi_stability g psi) (reading_target (gov_config g) (psi, ks, now)) now = (g2, r)"
    and d: "damped_change kw (g2, st, w) r now = (g3, st3, w3)"
    and p: "profit_check kw (g3, st3, w3) ks now = (g', st4, w')"
    and s: "last_governor_action st' = last_governor_action st4"
    unfolding reading_target_def fst_conv by (rule tick_stages)
  note C = transition_result[OF c]
  have g3: "current_level g3 = current_level g \<and> st3 = st
      \<or> current_level g3 = r \<and> r \<noteq> current_level g \<and> last_governor_action st3 = now
        \<and> unat (stabilization_secs (gov_config g)) * 1000 \<le> now - last_governor_action st"
    using C(2,3) by (cases rule: damped_change_cases[OF d]) (auto dest: apply_profile_fields)
  have g': "current_level g' = current_level g3 \<and> st4 = st3
      \<or> general_profit ks < 0 \<and> 1 < current_level g3 \<and> current_level g' = current_level g3 - 1
        \<and> last_governor_action st4 = now"
    by (cases rule: profit_check_cases[OF p]) (auto dest: apply_profile_fields)
  have "last_governor_action st' = now" using g3 g' s ch by auto
  moreover have "current_level g3 = current_level g
      \<or> unat (stabilization_secs (gov_config g)) * 1000 \<le> now - last_governor_action st
        \<and> (current_level g < reading_target (gov_config g) (psi, ks, now)
             \<and> current_level g3 = reading_target (gov_config g) (psi, ks, now)
           \<or> reading_target (gov_config g) (psi, ks, now) < current_level g \<and> current_level g3 = current_level g - 1)"
    using g3 C(1) by auto
  ultimately show ?thesis using g' by (intro conjI exI[of _ "current_level g3"]) auto
qed

section \<open>Whole runs\<close>

definition keeps :: "governor \<Rightarrow> ksm_world \<Rightarrow> governor \<Rightarrow> ksm_world \<Rightarrow> bool" where
  "keeps g w g' w' \<longleftrightarrow> gov_inv g' \<and> (1 \<le> current_level g \<longrightarrow> 1 \<le> current_level g')
    \<and> gov_config g' = gov_config g \<and> (safe_log w \<longrightarrow> safe_log w')
    \<and> (use_advisor (gov_config g) \<longrightarrow> advisor_respected w \<longrightarrow> advisor_respected w')"

lemma keeps_refl: "gov_inv g \<Longrightarrow> ksm_log w' = ksm_log w \<Longrightarrow> keeps g w g w'"
  by (simp add: keeps_def safe_log_def advisor_respected_def)

lemma keeps_trans: "keeps g w g1 w1 \<Longrightarrow> keeps g1 w1 g2 w2 \<Longrightarrow> keeps g w g2 w2"
  by (simp add: keeps_def)

lemma governor_tick_keeps:
  assumes "gov_inv g" "governor_tick kw (g, st, w) f now = (g', st', w')"
  shows "keeps g w g' w'"
proof (cases "psi_read_from ''/proc/pressure/memory'' f")
  case (Inl err)
  with assms show ?thesis by (simp add: governor_tick_def keeps_refl)
next
  case psi: (Inr psi)
  show ?thesis
  proof (cases "read_stats (ksm_files w)")
    case (Inl err)
    with psi assms show ?thesis by (simp add: governor_tick_def keeps_refl)
  next
    case (Inr ks)
    with psi assms(2) have "tick_with_readings kw (g, st, w) psi ks now = (g', st', w')"
      by (simp add: governor_tick_def)
    from tick_inv[OF assms(1) this] show ?thesis unfolding keeps_def by blast
  qed
qed

lemma governor_loop_keeps:
  assumes "gov_inv g" "governor_loop kw env (g, st, w) es = (g', st', w')"
    and env: "\<And>s v. ksm_log (snd (env (s, v))) = ksm_log v"
  shows "keeps g w g' w'"
  using assms(1,2)
proof (induction es arbitrary: g st w)
  case Nil
  then show ?case by (simp add: keeps_refl)
next
  case (Cons x es)
  show ?case
  proof (cases x)
    case (PollTick f now)
    obtain st1 w1 where e: "env (st, w) = (st1, w1)" by (cases "env (st, w)")
    obtain g2 st2 w2 where t: "governor_tick kw (g, st1, w1) f now = (g2, st2, w2)"
      by (cases "governor_tick kw (g, st1, w1) f now") auto
    have logs: "ksm_log w1 = ksm_log w" using env[of st w] e by simp
    have k: "keeps g w1 g2 w2" by (rule governor_tick_keeps[OF Cons.prems(1) t])
    have "governor_loop kw env (g2, st2, w2) es = (g', st', w')"
      using Cons.prems(2) PollTick e t by simp
    moreover have "gov_inv g2" using k by (simp add: keeps_def)
    ultimately have "keeps g2 w2 g' w'" by (intro Cons.IH)
    with keeps_trans[OF keeps_trans[OF keeps_refl[OF Cons.prems(1) logs] k]] show ?thesis .
  next
    case (ShutdownChanged b)
    with Cons show ?thesis by (cases b) (simp_all add: keeps_refl)
  qed
qed

lemma governor_start_safe:
  "safe_log w \<Longrightarrow> safe_log (governor_start kw g w)"
  "use_advisor (gov_config g) \<Longrightarrow> advisor_respected w \<Longrightarrow> advisor_respected (governor_start kw g w)"
  by (simp_all add: governor_start_def Let_def safe_setters safe_set_advisor_mode advisor_setters)

lemma governor_loop_inv: "gov_inv g \<Longrightarrow> governor_loop kw env (g, st, w) es = (g', st', w') \<Longrightarrow> gov_inv g'"
proof (induction es arbitrary: g st w)
  case (Cons x es)
  show ?case
  proof (cases x)
    case (PollTick f now)
    obtain st1 w1 where e: "env (st, w) = (st1, w1)" by fastforce
    obtain g2 st2 w2 where t: "governor_tick kw (g, st1, w1) f now = (g2, st2, w2)" by (metis prod.exhaust)
    have "gov_inv g2" using governor_tick_keeps[OF Cons.prems(1) t] by (simp add: keeps_def)
    from Cons.IH[OF this] Cons.prems(2) PollTick e t show ?thesis by simp
  qed (use Cons in \<open>auto split: if_splits\<close>)
qed simp

end
