(* ===== verification/Madvise_Laws.thy ===== *)
theory Madvise_Laws
  imports Madvise
begin

text \<open>
  Correctness of the injection of theory \<open>Madvise\<close>: the byte cap and the regions of a
  batch, the discipline of every ptrace session whatever the kernel answers (a process whose
  registers were changed gets its own registers back before it runs on, and every session
  that stopped a live process detaches from it), and the ranges passed to \<open>MADV_COLLAPSE\<close>.
\<close>

section \<open>Batches\<close>

lemma min_word_le: "min (a :: 'a::len word) b \<le> a" "min a b \<le> b"
  by simp_all

text \<open>Sums of lengths as natural numbers: nothing wraps.\<close>

definition batch_bytes :: "(u64 \<times> u64) list \<Rightarrow> nat" where
  "batch_bytes b = sum_list (map (unat \<circ> snd) b)"

lemma batch_bytes_simps [simp]: "batch_bytes [] = 0" "batch_bytes (x # b) = unat (snd x) + batch_bytes b"
  by (simp_all add: batch_bytes_def)

lemma build_batch_from_bound:
  "acc \<le> max_bytes \<Longrightarrow> unat acc + batch_bytes (build_batch_from rs max_bytes acc) \<le> unat max_bytes"
proof (induction rs max_bytes acc rule: build_batch_from.induct)
  case (2 r rs max_bytes acc)
  define len where "len = min (map_size r) (max_bytes - acc)"
  show ?case
  proof (cases "max_bytes \<le> acc \<or> len = 0")
    case True
    then show ?thesis using 2(2) by (auto simp: Let_def len_def word_le_nat_alt)
  next
    case False
    have le: "len \<le> max_bytes - acc" by (simp add: len_def)
    have "unat (max_bytes - acc) = unat max_bytes - unat acc" using 2(2) by (simp add: unat_sub)
    then have sum: "unat acc + unat len \<le> unat max_bytes"
      using le 2(2) by (simp add: word_le_nat_alt)
    then have add: "unat (acc + len) = unat acc + unat len"
      using unat_u64_less[of max_bytes] by (simp add: unat_word_ariths)
    then have "acc + len \<le> max_bytes" using sum by (simp add: word_le_nat_alt)
    with 2(1)[OF _ refl refl] False add show ?thesis by (simp add: Let_def len_def add.assoc)
  qed
qed (simp add: word_le_nat_alt)

text \<open>Every piece starts its region, is not empty, and is no longer than the region.\<close>

lemma build_batch_from_piece:
  "p \<in> set (build_batch_from rs max_bytes acc) \<Longrightarrow>
     \<exists>r \<in> set rs. fst p = map_start r \<and> 0 < snd p \<and> snd p \<le> map_size r"
proof (induction rs max_bytes acc rule: build_batch_from.induct)
  case (2 r rs max_bytes acc)
  then show ?case by (auto simp: Let_def word_neq_0_conv split: if_splits)
qed simp

lemma build_batch_from_starts:
  "\<exists>n. map fst (build_batch_from rs max_bytes acc) = take n (map map_start rs)"
proof (induction rs max_bytes acc rule: build_batch_from.induct)
  case (2 r rs max_bytes acc)
  show ?case
  proof (cases "max_bytes \<le> acc \<or> min (map_size r) (max_bytes - acc) = 0")
    case True
    then show ?thesis by (intro exI[of _ 0]) (auto simp: Let_def)
  next
    case False
    with 2[OF _ refl refl] obtain n where
      "map fst (build_batch_from rs max_bytes (acc + min (map_size r) (max_bytes - acc))) = take n (map map_start rs)"
      by auto
    with False show ?thesis by (intro exI[of _ "Suc n"]) (simp add: Let_def)
  qed
qed simp

section \<open>Ptrace sessions\<close>

lemma syscall_stop_cases:
  assumes "syscall_stop os orig step tr = (tr', r)"
  obtains (stopped) "r = Ok ()" "tr' = tr @ [PSyscall, PWait]"
  | (failed) e t where "r = Err e" "tr' = tr @ t @ [PSetRegs orig, PDetach]" "PDetach \<notin> set t"
  using assms that(1) that(2)[of _ "[PSyscall]"] that(2)[of _ "[PSyscall, PWait]"]
  by (auto simp: syscall_stop_def Let_def restore_detach_def split: if_splits option.splits)

text \<open>The calls up to and including the change of the registers, and a full session.\<close>

definition session_start :: "user_regs \<Rightarrow> u64 \<Rightarrow> u64 \<Rightarrow> u64 \<Rightarrow> ptrace_call list" where
  "session_start orig addr len sa = [PAttach, PWait, PGetRegs, PSetRegs (madvise_regs orig addr len sa)]"

definition session_regs :: "user_regs \<Rightarrow> u64 \<Rightarrow> u64 \<Rightarrow> u64 \<Rightarrow> ptrace_call list" where
  "session_regs orig addr len sa =
     session_start orig addr len sa @ [PSyscall, PWait, PSyscall, PWait, PGetRegs]"

text \<open>The last part of a session, from the changed registers on.\<close>

definition inject_tail ::
    "ptrace_os \<Rightarrow> user_regs \<Rightarrow> ptrace_call list \<Rightarrow> ptrace_call list \<times> (string + unit)" where
  "inject_tail os orig t4 =
     (case syscall_stop os orig ''entry'' t4 of
        (t5, Inl e) \<Rightarrow> (t5, Err e)
      | (t5, Inr _) \<Rightarrow>
          (case syscall_stop os orig ''exit'' t5 of
             (t6, Inl e) \<Rightarrow> (t6, Err e)
           | (t6, Inr _) \<Rightarrow>
               let t7 = t6 @ [PGetRegs] in
               case os_regs os t7 of
                 None \<Rightarrow> (restore_detach orig t7, Err ''getregs after syscall failed'')
               | Some after \<Rightarrow>
                   let t8 = t7 @ [PSetRegs orig]; t9 = t8 @ [PDetach] in
                   if \<not> os_ack os t8 then (t9, Err ''failed to restore registers after ptrace injection'')
                   else if \<not> os_ack os t9 then (t9, Err ''ptrace detach failed'')
                   else case syscall_errno after of
                          Some errno \<Rightarrow> (t9, Err (''madvise failed: errno='' @ show_nat errno @ '' ('' @ errno_to_str errno @ '')''))
                        | None \<Rightarrow> (t9, Ok ())))"

lemma inject_tail_cases:
  assumes "inject_tail os orig t4 = (tr, r)"
  obtains (failed) e t where "r = Err e" "tr = t4 @ t @ [PSetRegs orig, PDetach]" "PDetach \<notin> set t"
  | (finished) after where "r = Ok ()" "tr = t4 @ [PSyscall, PWait, PSyscall, PWait, PGetRegs, PSetRegs orig, PDetach]"
      "os_regs os (t4 @ [PSyscall, PWait, PSyscall, PWait, PGetRegs]) = Some after" "syscall_errno after = None"
      "os_ack os (t4 @ [PSyscall, PWait, PSyscall, PWait, PGetRegs, PSetRegs orig])"
proof -
  obtain t5 r5 where s5: "syscall_stop os orig ''entry'' t4 = (t5, r5)" by fastforce
  show thesis
  proof (cases rule: syscall_stop_cases[OF s5])
    case (2 e t)
    with assms s5 that(1)[of e t] show ?thesis by (simp add: inject_tail_def)
  next
    case 1
    obtain t6 r6 where s6: "syscall_stop os orig ''exit'' t5 = (t6, r6)" by fastforce
    show ?thesis
    proof (cases rule: syscall_stop_cases[OF s6])
      case (2 e t)
      with assms s5 1 s6 that(1)[of e "[PSyscall, PWait] @ t"] show ?thesis by (simp add: inject_tail_def)
    next
      case s: 1
      with assms s5 1 s6 that(1)[of _ "[PSyscall, PWait, PSyscall, PWait, PGetRegs]"] that(2) show ?thesis
        by (auto simp: inject_tail_def Let_def restore_detach_def split: option.splits if_splits)
    qed
  qed
qed

lemma ptrace_cases:
  assumes "madvise_via_ptrace os addr len sa = (tr, r)"
  obtains (refused) e where "tr = [PAttach]" "\<not> os_ack os tr" "r = Err e"
  | (lost) e st where "tr = [PAttach, PWait]" "os_wait os tr = Some st" "\<forall>sig. st \<noteq> Stopped sig" "r = Err e"
  | (untouched) e t where "tr = t @ [PDetach]" "t \<in> {[PAttach, PWait], [PAttach, PWait, PGetRegs]}" "r = Err e"
  | (unset) e orig where "os_regs os [PAttach, PWait, PGetRegs] = Some orig"
      "tr = session_start orig addr len sa @ [PDetach]" "\<not> os_ack os (session_start orig addr len sa)" "r = Err e"
  | (injected) orig where "os_regs os [PAttach, PWait, PGetRegs] = Some orig"
      "inject_tail os orig (session_start orig addr len sa) = (tr, r)"
proof -
  show thesis
  proof (cases "os_ack os [PAttach]")
    case False
    with assms that(1) show ?thesis by (auto simp: madvise_via_ptrace_def)
  next
    case ack: True
    show ?thesis
    proof (cases "os_wait os [PAttach, PWait]")
      case None
      with assms ack that(3)[of "[PAttach, PWait]"] show ?thesis by (auto simp add: madvise_via_ptrace_def)
    next
      case (Some st)
      show ?thesis
      proof (cases st)
        case (Stopped sig)
        with assms ack Some that(3)[of "[PAttach, PWait, PGetRegs]"] that(4,5) show ?thesis
          by (auto simp: madvise_via_ptrace_def session_start_def inject_tail_def Let_def
              split: option.splits if_splits)
      qed (use assms ack Some that(2)[of st] in \<open>auto simp: madvise_via_ptrace_def\<close>)
    qed
  qed
qed

text \<open>
  The discipline: a target that was resumed gets its own registers back right before the
  detach; a session never detaches twice; only a refused attach or a target reported as not
  stopped ends a session without a detach; success means that the whole sequence ran.
\<close>

lemma session_start_detach [simp]: "PDetach \<notin> set (session_start orig addr len sa)"
  "PSyscall \<notin> set (session_start orig addr len sa)"
  by (simp_all add: session_start_def)

lemma ptrace_restores:
  assumes "madvise_via_ptrace os addr len sa = (tr, r)" "PSyscall \<in> set tr"
  shows "\<exists>orig t. os_regs os [PAttach, PWait, PGetRegs] = Some orig \<and> tr = t @ [PSetRegs orig, PDetach]"
proof (cases rule: ptrace_cases[OF assms(1)])
  case (5 orig)
  show ?thesis
  proof (cases rule: inject_tail_cases[OF 5(2)])
    case (1 e t)
    with 5(1) show ?thesis by (intro exI[of _ orig] exI[of _ "session_start orig addr len sa @ t"]) simp
  next
    case (2 after)
    with 5(1) show ?thesis
      by (intro exI[of _ orig] exI[of _ "session_start orig addr len sa @ [PSyscall, PWait, PSyscall, PWait, PGetRegs]"]) simp
  qed
qed (use assms(2) in auto)

lemma count_list_zero: "x \<notin> set xs \<Longrightarrow> count_list xs x = 0"
  by (induction xs) auto

lemma ptrace_detaches:
  assumes "madvise_via_ptrace os addr len sa = (tr, r)"
  shows "count_list tr PDetach = 1 \<and> last tr = PDetach
    \<or> tr = [PAttach] \<and> \<not> os_ack os tr
    \<or> tr = [PAttach, PWait] \<and> (\<exists>st. os_wait os tr = Some st \<and> (\<forall>sig. st \<noteq> Stopped sig))"
proof (cases rule: ptrace_cases[OF assms])
  case (5 orig)
  show ?thesis
    by (cases rule: inject_tail_cases[OF 5(2)]) (simp_all add: count_list_append count_list_zero)
next
  case (4 e orig)
  then show ?thesis by (simp add: count_list_append count_list_zero)
qed auto

lemma ptrace_success:
  assumes "madvise_via_ptrace os addr len sa = (tr, Ok ())"
  shows "\<exists>orig after. os_regs os [PAttach, PWait, PGetRegs] = Some orig
    \<and> tr = session_regs orig addr len sa @ [PSetRegs orig, PDetach]
    \<and> os_regs os (session_regs orig addr len sa) = Some after \<and> syscall_errno after = None
    \<and> os_ack os (session_regs orig addr len sa @ [PSetRegs orig])"
proof (cases rule: ptrace_cases[OF assms])
  case (5 orig)
  show ?thesis
    by (cases rule: inject_tail_cases[OF 5(2)]) (use 5(1) in \<open>auto simp: session_regs_def\<close>)
qed auto

section \<open>Eligible regions\<close>

text \<open>The test for special mappings never decides: an anonymous mapping has no path.\<close>

lemma anon_not_special: "is_anon_rw m \<Longrightarrow> \<not> is_special m"
  by (auto simp: is_anon_rw_def is_special_def starts_with_def)

section \<open>Huge pages\<close>

lemma thp_mask: "NOT (THP_SIZE - 1) = NOT (mask 21 :: u64)"
  by (simp add: THP_SIZE_def mask_eq_decr_exp)

lemma unat_thp_floor: "unat ((x :: u64) AND NOT (THP_SIZE - 1)) = unat x - unat x mod 2 ^ 21"
proof -
  have t: "unat (take_bit 21 x) = unat x mod 2 ^ 21"
    by (simp only: unsigned_take_bit_eq flip: take_bit_eq_mod)
  have "x - take_bit 21 x = x AND NOT (take_bit 21 x)"
    by (rule disjunctive_diff_eq_and_not) (auto simp: bit_eq_iff bit_simps)
  moreover have "x AND NOT (take_bit 21 x) = x AND NOT (mask 21)"
    by (auto simp: bit_eq_iff bit_simps)
  ultimately have "x AND NOT (mask 21) = x - take_bit 21 x" by simp
  moreover have "take_bit 21 x \<le> x" by (simp add: word_le_nat_alt t)
  ultimately show ?thesis by (simp add: thp_mask unat_sub t)
qed

text \<open>
  The range lies inside the region and both of its ends are aligned, as long as rounding the
  start up does not leave the address space.
\<close>

lemma thp_range_inside:
  assumes "thp_range r = (start, stop)" "unat (map_start r) + 2 ^ 21 \<le> 2 ^ 64"
  shows "map_start r \<le> start" "stop \<le> map_end r" "unat start mod 2 ^ 21 = 0" "unat stop mod 2 ^ 21 = 0"
proof -
  let ?s = "unat (map_start r)"
  have eq: "map_start r + THP_SIZE - 1 = map_start r + 2097151" by (simp add: THP_SIZE_def)
  have "unat (map_start r + THP_SIZE - 1) = ?s + 2097151"
    unfolding eq using assms(2) by (simp add: unat_word_ariths)
  then have s: "unat start = (?s + 2097151) - (?s + 2097151) mod 2 ^ 21"
    using assms(1) unat_thp_floor[of "map_start r + THP_SIZE - 1"] by (auto simp: thp_range_def)
  have e: "unat stop = unat (map_end r) - unat (map_end r) mod 2 ^ 21"
    using assms(1) unat_thp_floor[of "map_end r"] by (auto simp add: thp_range_def)
  have "(?s + 2097151) mod 2 ^ 21 < 2 ^ 21" by (rule mod_less_divisor) simp
  then show "map_start r \<le> start" unfolding word_le_nat_alt s by simp
  show "stop \<le> map_end r" unfolding word_le_nat_alt e by simp
  show "unat start mod 2 ^ 21 = 0" unfolding s by (simp add: minus_mod_eq_mult_div)
  show "unat stop mod 2 ^ 21 = 0" unfolding e by (simp add: minus_mod_eq_mult_div)
qed

lemma collapse_loop_bound: "collapse_loop f rs n \<le> n + length rs"
proof (induction rs arbitrary: n)
  case (Cons r rs)
  obtain start stop where t: "thp_range r = (start, stop)" by fastforce
  have "collapse_loop f rs n \<le> n + length rs" "collapse_loop f rs (n + 1) \<le> n + 1 + length rs"
    by (rule Cons)+
  with t show ?case by (auto split: sum.split)
qed simp

section \<open>Results\<close>

lemma unat_add_le: "unat (a + b :: 'a::len word) \<le> unat a + unat b"
  by (simp add: unat_word_ariths)

lemma unat_sum_le: "unat (sum_list (map snd b) :: u64) \<le> batch_bytes b"
proof (induction b)
  case (Cons x b)
  with unat_add_le[of "snd x" "sum_list (map snd b)"] show ?case by simp
qed simp

definition accounted :: "madvise_result \<Rightarrow> nat" where
  "accounted res = regions_merged res + length (mr_errors res)"

lemma record_region_result:
  "accounted (record_region call msg res x) = accounted res + 1"
  "unat (total_bytes_marked (record_region call msg res x)) \<le> unat (total_bytes_marked res) + unat (snd x)"
  "mr_pid (record_region call msg res x) = mr_pid res"
  "regions_attempted (record_region call msg res x) = regions_attempted res"
  using unat_add_le[of "total_bytes_marked res" "snd x"]
  by (auto simp: record_region_def accounted_def split: prod.split sum.split)

lemma record_regions_result:
  "accounted (foldl (record_region call msg) res b) = accounted res + length b"
  "unat (total_bytes_marked (foldl (record_region call msg) res b))
     \<le> unat (total_bytes_marked res) + batch_bytes b"
  "mr_pid (foldl (record_region call msg) res b) = mr_pid res"
  "regions_attempted (foldl (record_region call msg) res b) = regions_attempted res"
proof -
  show "unat (total_bytes_marked (foldl (record_region call msg) res b))
     \<le> unat (total_bytes_marked res) + batch_bytes b"
  proof (induction b arbitrary: res)
    case (Cons x b)
    from Cons[of "record_region call msg res x"] record_region_result(2)[of call msg res x]
    show ?case by simp
  qed simp
qed (induction b arbitrary: res; simp add: record_region_result)+

lemma apply_mergeable_result:
  assumes res: "res = apply_mergeable inject vdso pid regions max_bytes dry"
  shows "total_bytes_marked res \<le> max_bytes" "accounted res = regions_attempted res" "mr_pid res = pid"
    "regions_attempted res \<le> length (filter eligible regions)"
proof -
  let ?b = "build_batch (filter eligible regions) max_bytes"
  have b: "batch_bytes ?b \<le> unat max_bytes"
    using build_batch_from_bound[of 0 max_bytes "filter eligible regions"] by (simp add: build_batch_def)
  obtain n where "map fst ?b = take n (map map_start (filter eligible regions))"
    using build_batch_from_starts[of "filter eligible regions" max_bytes 0] unfolding build_batch_def by blast
  then have len: "length ?b \<le> length (filter eligible regions)"
    by (metis length_map length_take min.cobounded1)
  have sum: "sum_list (map snd ?b) \<le> max_bytes"
    using unat_sum_le[of ?b] b by (simp add: word_le_nat_alt)
  have fold: "total_bytes_marked (foldl (record_region c m) (result_new pid\<lparr>regions_attempted := k\<rparr>) ?b) \<le> max_bytes" for c m k
    using record_regions_result(2)[of c m "result_new pid\<lparr>regions_attempted := k\<rparr>" ?b] b
    by (simp add: result_new_def word_le_nat_alt)
  show "total_bytes_marked res \<le> max_bytes" "accounted res = regions_attempted res" "mr_pid res = pid"
    "regions_attempted res \<le> length (filter eligible regions)"
    using sum fold len
    by (auto simp: res apply_mergeable_def Let_def record_regions_result split: sum.split)
       (auto simp: accounted_def result_new_def)
qed

section \<open>Batched calls\<close>

lemma concat_batch_chunks: "0 < n \<Longrightarrow> length xs \<le> k \<Longrightarrow> concat (batch_chunks k n xs) = xs"
  by (induction k arbitrary: xs) auto

lemma batch_chunks_length: "c \<in> set (batch_chunks k n xs) \<Longrightarrow> length c \<le> n"
  by (induction k arbitrary: xs) (auto split: if_splits)

lemma foldl_concat: "foldl (foldl f) a xss = foldl f a (concat xss)"
  by (induction xss arbitrary: a) auto

text \<open>When every batched call fails, the result is that of one call per region.\<close>

lemma batches_fall_back:
  assumes "\<And>c. isl (batch_call c)"
  shows "apply_madvise_batches batch_call single res b
    = foldl (record_region single ''process_madvise failed: '') res b"
proof -
  have "apply_chunk batch_call single = foldl (record_region single ''process_madvise failed: '')"
  proof (intro ext)
    fix r c
    show "apply_chunk batch_call single r c = foldl (record_region single ''process_madvise failed: '') r c"
      using assms[of c] by (cases "batch_call c") (simp_all add: apply_chunk_def)
  qed
  then show ?thesis
    by (simp add: apply_madvise_batches_def foldl_concat concat_batch_chunks MAX_IOV_BATCH_def)
qed

end
