(* ===== verification/Scanner_Laws.thy ===== *)
theory Scanner_Laws
  imports Scanner Madvise_Laws
begin

text \<open>
  Correctness of the scanner of theory \<open>Scanner\<close>: which processes become targets and in
  which order, what the counters mean, the stabilization window, and that a dry run never
  reaches the kernel.
\<close>

section \<open>The filter pipeline\<close>

definition survives :: "scan_env \<Rightarrow> candidate \<Rightarrow> bool" where
  "survives env c \<longleftrightarrow> passes_l2_already_merged_filter (env_ksm env (cand_pid c))
     \<and> passes_l25_profit_filter (env_ksm env (cand_pid c))"

definition merge_free :: "scan_env \<Rightarrow> candidate \<Rightarrow> bool" where
  "merge_free env c \<longleftrightarrow> passes_l2_already_merged_filter (env_ksm env (cand_pid c))"

lemma l25_fold:
  "foldl (l25_step env) (kept, p, n) cs =
     (kept @ filter (survives env) cs,
      p + word_of_nat (length (filter (merge_free env) cs)),
      n + word_of_nat (length (filter (\<lambda>c. merge_free env c \<and> \<not> survives env c) cs)))"
  by (induction cs arbitrary: kept p n)
     (auto simp: l25_step_def Let_def survives_def merge_free_def algebra_simps)

definition top_candidates :: "scanner_config \<Rightarrow> candidate list \<Rightarrow> candidate list" where
  "top_candidates cfg cs =
     take (unat (max_candidates_per_cycle cfg)) (sort_key (\<lambda>c. - int (unat (cand_anon_rss_mb c))) cs)"

text \<open>The targets as one expression.\<close>

lemma collect_targets:
  "snd (collect_scan_targets cfg env pids stats) =
     List.map_filter (target_of env) (top_candidates cfg (filter (survives env) (l1_candidates cfg env pids)))"
  by (auto simp: collect_scan_targets_def Let_def l25_fold top_candidates_def map_filter_simps
      split: prod.split)

lemma collect_stats:
  "processes_filtered_l1 (fst (collect_scan_targets cfg env pids stats)) =
     processes_filtered_l1 stats + word_of_nat (length (l1_candidates cfg env pids))"
  "madvise_calls (fst (collect_scan_targets cfg env pids stats)) = madvise_calls stats"
  "thp_collapsed (fst (collect_scan_targets cfg env pids stats)) = thp_collapsed stats"
  by (auto simp: collect_scan_targets_def Let_def split: prod.split)

section \<open>Selection\<close>

lemma take_sort_key_best:
  fixes f :: "'a \<Rightarrow> int"
  assumes "x \<in> set (take k (sort_key f xs))" "y \<in># mset xs - mset (take k (sort_key f xs))"
  shows "f x \<le> f y"
proof -
  have "mset xs = mset (take k (sort_key f xs)) + mset (drop k (sort_key f xs))"
    by (metis append_take_drop_id mset_append mset_sort)
  with assms(2) have y: "y \<in> set (drop k (sort_key f xs))" by simp
  have "sorted (map f (take k (sort_key f xs)) @ map f (drop k (sort_key f xs)))"
    by (metis append_take_drop_id map_append sorted_sort_key)
  with assms(1) y show ?thesis by (auto simp: sorted_append)
qed

lemma top_candidates_set: "set (top_candidates cfg cs) \<subseteq> set cs"
  using set_take_subset[of _ "sort_key (\<lambda>c. - int (unat (cand_anon_rss_mb c))) cs"]
  by (auto simp: top_candidates_def)

lemma top_candidates_length: "length (top_candidates cfg cs) \<le> unat (max_candidates_per_cycle cfg)"
  by (simp add: top_candidates_def)

lemma top_candidates_best:
  assumes "c \<in> set (top_candidates cfg cs)" "d \<in># mset cs - mset (top_candidates cfg cs)"
  shows "cand_anon_rss_mb d \<le> cand_anon_rss_mb c"
  using take_sort_key_best[of c "unat (max_candidates_per_cycle cfg)" "\<lambda>c. - int (unat (cand_anon_rss_mb c))" cs d] assms
  by (simp add: top_candidates_def word_le_def)

lemma top_candidates_sorted:
  "sorted_wrt (\<lambda>c d. cand_anon_rss_mb d \<le> cand_anon_rss_mb c) (top_candidates cfg cs)"
proof -
  let ?f = "\<lambda>c. - int (unat (cand_anon_rss_mb c))"
  have "sorted (map ?f (take k (sort_key ?f cs)))" for k
    by (metis sorted_sort_key sorted_wrt_take take_map)
  then have "sorted_wrt (\<lambda>c d. ?f c \<le> ?f d) (top_candidates cfg cs)"
    by (simp add: top_candidates_def sorted_map)
  then show ?thesis by (rule sorted_wrt_mono_rel[rotated]) (simp add: word_le_def)
qed

lemma length_map_filter: "length (List.map_filter f xs) \<le> length xs"
  by (induction xs) (auto simp: map_filter_simps split: option.split)

section \<open>What a target is\<close>

definition good_target :: "scanner_config \<Rightarrow> scan_env \<Rightarrow> u32 \<Rightarrow> maps_entry list \<Rightarrow> bool" where
  "good_target cfg env pid maps \<longleftrightarrow>
     (\<exists>p st. env_status env p = Some st \<and> ps_pid st = pid \<and> 2 < pid
        \<and> \<not> is_blocklisted (ps_name st) (blocklist cfg) \<and> min_anon_rss_mb cfg \<le> ps_anon_rss_kb st div 1024)
     \<and> (\<forall>s. env_ksm env pid = Some s \<longrightarrow> \<not> merge_any s \<and> 0 \<le> process_profit s)
     \<and> env_maps env pid = Some maps \<and> filter eligible maps \<noteq> []"

lemma l1_candidate_origin:
  assumes "c \<in> set (l1_candidates cfg env pids)"
  obtains p st where "p \<in> set pids" "env_status env p = Some st" "ps_pid st = cand_pid c" "2 < cand_pid c"
    "\<not> is_blocklisted (ps_name st) (blocklist cfg)" "min_anon_rss_mb cfg \<le> ps_anon_rss_kb st div 1024"
    "cand_anon_rss_mb c = ps_anon_rss_kb st div 1024"
proof -
  from assms obtain p st where p: "p \<in> set pids" "env_status env p = Some st"
    "l1_candidate_from_status st cfg = Some c"
    by (auto simp: l1_candidates_def map_filter_def split: option.splits)
  with that[of p st] show thesis
    by (auto simp: l1_candidate_from_status_def Let_def not_le not_less split: if_splits)
qed

lemma survives_stat:
  "survives env c \<Longrightarrow> env_ksm env (cand_pid c) = Some s \<Longrightarrow> \<not> merge_any s \<and> 0 \<le> process_profit s"
  by (simp add: survives_def passes_l2_already_merged_filter_def passes_l25_profit_filter_def)

lemma target_of_Some:
  "target_of env c = Some (pid, maps) \<Longrightarrow> pid = cand_pid c \<and> env_maps env pid = Some maps \<and> filter eligible maps \<noteq> []"
  by (auto simp: target_of_def eligible_anon_rw_summary_def Let_def eligible_def[abs_def] split: option.splits if_splits)

lemma targets_good:
  assumes "(pid, maps) \<in> set (snd (collect_scan_targets cfg env pids stats))"
  shows "good_target cfg env pid maps"
proof -
  from assms obtain c where c: "c \<in> set (top_candidates cfg (filter (survives env) (l1_candidates cfg env pids)))"
    "target_of env c = Some (pid, maps)"
    unfolding collect_targets by (auto simp: map_filter_def)
  then have m: "c \<in> set (l1_candidates cfg env pids)" "survives env c"
    using top_candidates_set by fastforce+
  from m(1) obtain p st where "env_status env p = Some st" "ps_pid st = cand_pid c" "2 < cand_pid c"
    "\<not> is_blocklisted (ps_name st) (blocklist cfg)" "min_anon_rss_mb cfg \<le> ps_anon_rss_kb st div 1024"
    by (rule l1_candidate_origin)
  with target_of_Some[OF c(2)] survives_stat[OF m(2)] show ?thesis
    unfolding good_target_def by blast
qed

lemma targets_length:
  "length (snd (collect_scan_targets cfg env pids stats)) \<le> unat (max_candidates_per_cycle cfg)"
  unfolding collect_targets using length_map_filter top_candidates_length le_trans by blast

section \<open>The cycle\<close>

text \<open>A dry run does not depend on what injection or promotion would do: it calls neither.\<close>

lemma apply_mergeable_dry:
  "apply_mergeable fi v pid rs m True = apply_mergeable fi' v' pid rs m True"
  by (simp add: apply_mergeable_def Let_def)

lemma batch_apply_dry:
  "batch_apply_mergeable fi v targets m True = batch_apply_mergeable fi' v' targets m True"
proof -
  have "AList.update p (apply_mergeable (fi p) (v p) p rs m True) res
      = AList.update p (apply_mergeable (fi' p) (v' p) p rs m True) res" for p rs res
    by (simp only: apply_mergeable_dry[of "fi p" "v p" p rs m "fi' p" "v' p"])
  then show ?thesis by (simp add: batch_apply_mergeable_def)
qed

lemma collapse_targets_dry [simp]: "collapse_targets k True targets s = s"
proof -
  have "foldl (\<lambda>s (pid, maps). s) s targets = s" by (induction targets) auto
  then show ?thesis by (simp add: collapse_targets_def split: option.split)
qed

lemma scan_cycle_dry:
  assumes "sc_dry_run sc"
  shows "scan_cycle (k\<lparr>k_inject := fi, k_vdso := v, k_collapse := col, k_pidfd := fd\<rparr>) now (sc, st)
    = scan_cycle k now (sc, st)"
  using assms batch_apply_dry[of fi v _ _ "k_inject k" "k_vdso k"]
  by (auto simp: scan_cycle_def Let_def split: option.split prod.split)

text \<open>The shared timestamps move only outside the scanner's own stabilization window.\<close>

lemma scan_cycle_window:
  assumes "scan_cycle k now (sc, st) = (sc', st')"
  shows "now - last_scanner_action st < unat (sc_stabilization_secs sc) * 1000 \<Longrightarrow>
      st' = st \<and> sc' = sc\<lparr>sc_stats := (sc_stats sc)\<lparr>skipped_stabilization := skipped_stabilization (sc_stats sc) + 1\<rparr>\<rparr>"
    "st' = st \<or> st' = st\<lparr>last_scanner_action := now, last_global_action := now\<rparr>"
    "sc_config sc' = sc_config sc" "sc_dry_run sc' = sc_dry_run sc"
    "sc_stabilization_secs sc' = sc_stabilization_secs sc"
  using assms by (auto simp: scan_cycle_def Let_def split: if_splits option.splits prod.splits)

lemma batch_results:
  assumes "(pid, r) \<in> set (batch_apply_mergeable fi v targets max_bytes dry)"
  shows "total_bytes_marked r \<le> max_bytes \<and> mr_pid r = pid \<and> pid \<in> fst ` set targets"
proof -
  let ?P = "\<lambda>x :: u32 \<times> madvise_result. total_bytes_marked (snd x) \<le> max_bytes \<and> mr_pid (snd x) = fst x \<and> fst x \<in> fst ` set targets"
  have upd: "set (AList.update k y al) \<subseteq> insert (k, y) (set al)" for k and y :: madvise_result and al
    by (induction al) auto
  let ?f = "\<lambda>res (pid, regions). AList.update pid (apply_mergeable (fi pid) (v pid) pid regions max_bytes dry) res"
  have "\<forall>x \<in> set (foldl ?f [] targets). ?P x"
  proof (rule foldl_pres[where P = "\<lambda>res. \<forall>x \<in> set res. ?P x"])
    fix res x assume x: "x \<in> set targets" and res: "\<forall>x \<in> set res. ?P x"
    obtain p rs where p: "x = (p, rs)" by (cases x)
    have "?P (p, apply_mergeable (fi p) (v p) p rs max_bytes dry)"
      using apply_mergeable_result[OF refl, of "fi p" "v p" p rs max_bytes dry] x p by force
    with subsetD[OF upd[of p "apply_mergeable (fi p) (v p) p rs max_bytes dry" res]] res
    have "?P y" if "y \<in> set (AList.update p (apply_mergeable (fi p) (v p) p rs max_bytes dry) res)" for y
      using that by blast
    then show "\<forall>x \<in> set (?f res x). ?P x" using p by simp
  qed simp
  from bspec[OF this assms[unfolded batch_apply_mergeable_def]] show ?thesis by simp
qed

end
