(* ===== verification/Daemon_Laws.thy ===== *)
theory Daemon_Laws
  imports Daemon Governor_Laws Scanner_Laws
begin

text \<open>
  Laws of the daemon's life cycle: what a sequence of controller writes can do to the KSM
  world (relation \<open>writes\<close>), that a dry run changes nothing, that every write of a run is
  within the safe ranges, and that a normal shutdown brings the initial configuration back.
\<close>

section \<open>Sequences of writes\<close>

inductive writes :: "kernel_write \<Rightarrow> ksm_controller \<Rightarrow> ksm_world \<Rightarrow> ksm_world \<Rightarrow> bool" for kw c where
  none: "writes kw c w w"
| sent: "writes kw c w w1 \<Longrightarrow> writes kw c w (fst (write_param kw c w1 p v))"

lemma writes_trans: "writes kw c w w1 \<Longrightarrow> writes kw c w1 w2 \<Longrightarrow> writes kw c w w2"
  by (rotate_tac, induction rule: writes.induct) (auto intro: writes.intros)

lemma writes_clock: "writes kw c w w' \<Longrightarrow> ksm_clock w \<le> ksm_clock w'"
  by (induction rule: writes.induct) (auto intro: write_param_clock order_trans)

lemma write_param_dry:
  assumes "dry_run c"
  shows "ksm_files (fst (write_param kw c w p v)) = ksm_files w" "ksm_log (fst (write_param kw c w p v)) = ksm_log w"
proof -
  obtain w1 t where n: "now_of w = (w1, t)" by fastforce
  with now_of_fields[OF n] assms
  show "ksm_files (fst (write_param kw c w p v)) = ksm_files w" "ksm_log (fst (write_param kw c w p v)) = ksm_log w"
    by (simp_all add: write_param_def)
qed

lemma writes_dry:
  "writes kw c w w' \<Longrightarrow> dry_run c \<Longrightarrow> ksm_files w' = ksm_files w \<and> ksm_log w' = ksm_log w"
  by (induction rule: writes.induct) (simp_all add: write_param_dry)

lemma writes_setters:
  assumes "writes kw c w w1"
  shows "writes kw c w (fst (set_run kw c w1 v))" "writes kw c w (fst (set_pages_to_scan kw c w1 v))"
    "writes kw c w (fst (set_sleep_millisecs kw c w1 v))" "writes kw c w (fst (set_max_page_sharing kw c w1 v))"
    "writes kw c w (fst (set_advisor_mode kw c w1 m))"
  using assms by (simp_all add: setter_defs set_advisor_mode_def write_string_def write_validated_def writes.sent)

lemma writes_start: "writes kw (gov_ksm g) w (governor_start kw g w)"
  by (simp add: governor_start_def Let_def writes_setters writes.none)

lemma writes_apply_profile:
  "writes kw (gov_ksm g) w (snd (snd (apply_profile kw g st w level now)))"
  by (simp add: apply_profile_def Let_def writes_setters writes.none)

lemma writes_tick:
  assumes t: "tick_with_readings kw (g, st, w) psi ks now = (g', st', w')"
  shows "writes kw (gov_ksm g) w w'" "gov_ksm g' = gov_ksm g"
proof -
  from t obtain g2 r g3 st3 w3 st4 where
    c: "compute_transition (observe_psi_stability g psi)
       (pressure_to_level (classify psi (psi_some_threshold (gov_config g)) (psi_full_threshold (gov_config g)))) now = (g2, r)"
    and d: "damped_change kw (g2, st, w) r now = (g3, st3, w3)"
    and p: "profit_check kw (g3, st3, w3) ks now = (g', st4, w')"
    by (rule tick_stages)
  have g2: "gov_ksm g2 = gov_ksm g" using transition_result(4)[OF c] by simp
  have g3: "gov_ksm g3 = gov_ksm g \<and> writes kw (gov_ksm g) w w3"
  proof (cases rule: damped_change_cases[OF d])
    case 2
    with apply_profile_fields(1)[OF 2(3)] g2 writes_apply_profile[of kw g2 w st r now] show ?thesis by simp
  qed (simp add: g2 writes.none)
  have "gov_ksm g' = gov_ksm g3 \<and> writes kw (gov_ksm g3) w3 w'"
  proof (cases rule: profit_check_cases[OF p])
    case 2
    with apply_profile_fields(1)[OF 2(4)] writes_apply_profile[of kw g3 w3 st3 "current_level g3 - 1" now]
    show ?thesis by simp
  qed (simp add: writes.none)
  with g3 show "writes kw (gov_ksm g) w w'" "gov_ksm g' = gov_ksm g" by (auto intro: writes_trans)
qed

lemma writes_governor_tick:
  assumes "governor_tick kw (g, st, w) f now = (g', st', w')"
  shows "writes kw (gov_ksm g) w w'" "gov_ksm g' = gov_ksm g"
proof -
  have "writes kw (gov_ksm g) w w' \<and> gov_ksm g' = gov_ksm g"
  proof (cases "psi_read_from ''/proc/pressure/memory'' f")
    case (Inl e)
    with assms show ?thesis by (simp add: governor_tick_def writes.none)
  next
    case psi: (Inr psi)
    show ?thesis
    proof (cases "read_stats (ksm_files w)")
      case (Inl e)
      with psi assms show ?thesis by (simp add: governor_tick_def writes.none)
    next
      case (Inr ks)
      with psi assms have "tick_with_readings kw (g, st, w) psi ks now = (g', st', w')"
        by (simp add: governor_tick_def)
      from writes_tick[OF this] show ?thesis by simp
    qed
  qed
  then show "writes kw (gov_ksm g) w w'" "gov_ksm g' = gov_ksm g" by simp_all
qed

section \<open>Tasks\<close>

text \<open>What every event keeps, relative to the tasks at the start.\<close>

definition tasks_keep :: "daemon_tasks \<Rightarrow> daemon_tasks \<Rightarrow> bool" where
  "tasks_keep t t' \<longleftrightarrow> ksm_clock (tk_ksm t) \<le> ksm_clock (tk_ksm t')
     \<and> (safe_log (tk_ksm t) \<longrightarrow> safe_log (tk_ksm t'))
     \<and> (case tk_governor t of
          None \<Rightarrow> tk_governor t' = None \<and> ksm_log (tk_ksm t') = ksm_log (tk_ksm t)
        | Some g \<Rightarrow> \<exists>g'. tk_governor t' = Some g' \<and> gov_ksm g' = gov_ksm g
            \<and> (gov_inv g \<longrightarrow> gov_inv g')
            \<and> (dry_run (gov_ksm g) \<longrightarrow> ksm_log (tk_ksm t') = ksm_log (tk_ksm t)))"

definition gov_ok :: "daemon_tasks \<Rightarrow> bool" where
  "gov_ok t \<longleftrightarrow> (case tk_governor t of None \<Rightarrow> True | Some g \<Rightarrow> gov_inv g)"

lemma tasks_keep_trans: "tasks_keep t t1 \<Longrightarrow> tasks_keep t1 t2 \<Longrightarrow> tasks_keep t t2"
  by (fastforce simp: tasks_keep_def split: option.splits)

lemma tasks_keep_same:
  "tk_governor t' = tk_governor t \<Longrightarrow> ksm_clock (tk_ksm t') = ksm_clock (tk_ksm t)
    \<Longrightarrow> ksm_log (tk_ksm t') = ksm_log (tk_ksm t) \<Longrightarrow> tasks_keep t t'"
  by (auto simp: tasks_keep_def safe_log_def split: option.split)

lemma daemon_step_keep:
  assumes "gov_ok t"
  shows "tasks_keep t (daemon_step kw t ev)"
proof (cases ev)
  case (GovernorTick f now)
  show ?thesis
  proof (cases "tk_governor t")
    case None
    with GovernorTick show ?thesis by (simp add: tasks_keep_same)
  next
    case (Some g)
    obtain g' st' w' where T: "governor_tick kw (g, tk_state t, tk_ksm t) f now = (g', st', w')"
      using prod_cases3 by blast
    have inv: "gov_inv g" using assms Some by (simp add: gov_ok_def)
    note W = writes_governor_tick[OF T]
    from governor_tick_keeps[OF inv T] writes_clock[OF W(1)] writes_dry[OF W(1)] W(2) GovernorTick Some T
    show ?thesis by (simp add: tasks_keep_def keeps_def)
  qed
qed (auto intro: tasks_keep_same split: option.split prod.split)

lemma gov_ok_keep: "tasks_keep t t' \<Longrightarrow> gov_ok t \<Longrightarrow> gov_ok t'"
  by (auto simp: tasks_keep_def gov_ok_def split: option.splits)

lemma daemon_steps_keep:
  "gov_ok t \<Longrightarrow> tasks_keep t (foldl (daemon_step kw) t evs)"
proof (induction evs arbitrary: t)
  case (Cons ev evs)
  note k = daemon_step_keep[OF Cons.prems, of kw ev]
  from tasks_keep_trans[OF k Cons.IH[OF gov_ok_keep[OF k Cons.prems]]] show ?case by simp
qed (simp add: tasks_keep_same)

text \<open>In a dry run the governor's controller is dry, and only the outside world changes sysfs.\<close>

definition dry_tasks :: "daemon_tasks \<Rightarrow> bool" where
  "dry_tasks t \<longleftrightarrow> (case tk_governor t of None \<Rightarrow> True | Some g \<Rightarrow> dry_run (gov_ksm g))"

primrec is_outside :: "daemon_event \<Rightarrow> bool" where
  "is_outside (GovernorTick f now) = False"
| "is_outside (ScannerTick k now) = False"
| "is_outside (ReportTick self) = False"
| "is_outside (Outside f) = True"

lemma daemon_step_dry:
  assumes "dry_tasks t"
  shows "dry_tasks (daemon_step kw t ev)" "ksm_log (tk_ksm (daemon_step kw t ev)) = ksm_log (tk_ksm t)"
    "\<not> is_outside ev \<Longrightarrow> ksm_files (tk_ksm (daemon_step kw t ev)) = ksm_files (tk_ksm t)"
proof -
  have "dry_tasks (daemon_step kw t ev) \<and> ksm_log (tk_ksm (daemon_step kw t ev)) = ksm_log (tk_ksm t)
    \<and> (\<not> is_outside ev \<longrightarrow> ksm_files (tk_ksm (daemon_step kw t ev)) = ksm_files (tk_ksm t))"
  proof (cases ev)
    case (GovernorTick f now)
    show ?thesis
    proof (cases "tk_governor t")
      case None
      with GovernorTick assms show ?thesis by simp
    next
      case (Some g)
      obtain g' st' w' where T: "governor_tick kw (g, tk_state t, tk_ksm t) f now = (g', st', w')"
        using prod_cases3 by blast
      from writes_governor_tick[OF T] writes_dry[of kw "gov_ksm g" "tk_ksm t" w'] assms Some T GovernorTick
      show ?thesis by (simp add: dry_tasks_def)
    qed
  qed (use assms in \<open>auto simp: dry_tasks_def split: option.splits prod.split\<close>)
  then show "dry_tasks (daemon_step kw t ev)" "ksm_log (tk_ksm (daemon_step kw t ev)) = ksm_log (tk_ksm t)"
    "\<not> is_outside ev \<Longrightarrow> ksm_files (tk_ksm (daemon_step kw t ev)) = ksm_files (tk_ksm t)" by simp_all
qed

lemma daemon_steps_dry:
  assumes "dry_tasks t"
  shows "dry_tasks (foldl (daemon_step kw) t evs) \<and> ksm_log (tk_ksm (foldl (daemon_step kw) t evs)) = ksm_log (tk_ksm t)
    \<and> (list_all (\<lambda>e. \<not> is_outside e) evs \<longrightarrow>
        ksm_files (tk_ksm (foldl (daemon_step kw) t evs)) = ksm_files (tk_ksm t))"
  using assms
proof (induction evs arbitrary: t)
  case (Cons ev evs)
  note D = daemon_step_dry[OF Cons.prems, where kw = kw and ev = ev]
  from Cons.IH[OF D(1)] D(2,3) show ?case by auto
qed simp

section \<open>Start and end\<close>

text \<open>Reading the clock aside, \<open>w'\<close> is \<open>w\<close> after safe writes; none of them in a dry run.\<close>

definition careful :: "bool \<Rightarrow> ksm_world \<Rightarrow> ksm_world \<Rightarrow> bool" where
  "careful dry w w' \<longleftrightarrow> ksm_clock w \<le> ksm_clock w' \<and> (safe_log w \<longrightarrow> safe_log w')
     \<and> (dry \<longrightarrow> ksm_files w' = ksm_files w \<and> ksm_log w' = ksm_log w)"

lemma careful_trans: "careful dry w w1 \<Longrightarrow> careful dry w1 w2 \<Longrightarrow> careful dry w w2"
  by (auto simp: careful_def)

lemma careful_refl: "careful dry w w"
  by (simp add: careful_def)

lemma controller_new_careful:
  assumes "controller_new w path ex = (w', r)"
  shows "careful dry w w'" "ksm_files w' = ksm_files w" "ksm_log w' = ksm_log w"
    "r = Ok c \<Longrightarrow> \<not> dry_run c \<and> ex \<and> (MIN_UPDATE_INTERVAL_MS \<le> ksm_clock w \<longrightarrow> unlimited c w')"
proof -
  obtain w1 t where n: "now_of w = (w1, t)" by fastforce
  from assms n now_of_fields[OF n]
  show "careful dry w w'" "ksm_files w' = ksm_files w" "ksm_log w' = ksm_log w"
    "r = Ok c \<Longrightarrow> \<not> dry_run c \<and> ex \<and> (MIN_UPDATE_INTERVAL_MS \<le> ksm_clock w \<longrightarrow> unlimited c w')"
    by (auto simp: controller_new_def careful_def safe_log_def unlimited_def split: if_splits)
qed

lemma governor_start_careful: "dry \<longrightarrow> dry_run (gov_ksm g) \<Longrightarrow> careful dry w (governor_start kw g w)"
  using writes_start[of kw g w] writes_clock writes_dry governor_start_safe(1)[of w kw g]
  by (auto simp: careful_def)

lemma governor_new_inv: "gov_inv (governor_new cfg c now)" "gov_ksm (governor_new cfg c now) = c"
  by (simp_all add: gov_inv_def governor_new_def)

lemma spawn_governor_careful:
  assumes "spawn_governor kw cfg ex dry now w = (w', r)"
  shows "careful dry w w'"
    "r = Ok (Some g) \<Longrightarrow> gov_inv g \<and> (dry \<longrightarrow> dry_run (gov_ksm g))"
proof -
  have "careful dry w w' \<and> (\<forall>g. r = Ok (Some g) \<longrightarrow> gov_inv g \<and> (dry \<longrightarrow> dry_run (gov_ksm g)))"
  proof (cases "gov_enabled cfg")
    case False
    with assms show ?thesis by (auto simp: spawn_governor_def careful_refl)
  next
    case en: True
    obtain w1 r1 where c1: "controller_new w (ksm_path cfg) (ex (ksm_path cfg)) = (w1, r1)" by fastforce
    obtain w2 r2 where c2: "controller_new w1 (ksm_path cfg) (ex (ksm_path cfg)) = (w2, r2)" by fastforce
    note C = controller_new_careful(1)[OF c1, of dry] careful_trans[OF controller_new_careful(1)[OF c1] controller_new_careful(1)[OF c2], of dry]
    have st: "careful dry v (governor_start kw (governor_new cfg c now) v)" if "dry \<longrightarrow> dry_run c" for v c
      using that by (intro governor_start_careful) (simp add: governor_new_inv)
    from assms en c1 c2 C careful_trans[OF C(1) st] careful_trans[OF C(2) st] governor_new_inv show ?thesis
      by (auto simp: spawn_governor_def set_dry_run_def Let_def split: sum.splits if_splits)
  qed
  then show "careful dry w w'" "r = Ok (Some g) \<Longrightarrow> gov_inv g \<and> (dry \<longrightarrow> dry_run (gov_ksm g))" by blast+
qed

lemma daemon_start_careful:
  assumes "daemon_start kw host cfg dry (w, d) = ((w', d'), r)"
  shows "careful dry w w'" "dry \<Longrightarrow> d' = d"
    "r = Ok t \<Longrightarrow> tk_ksm t = w' \<and> gov_ok t \<and> (dry \<longrightarrow> dry_tasks t)"
    "r = Ok t \<Longrightarrow> \<not> dry \<Longrightarrow> \<exists>kcfg json. read_config (ksm_files w) = Ok kcfg
        \<and> dh_encode host \<lparr>snap_config = kcfg, snap_timestamp = dh_chrono host\<rparr> = Some json
        \<and> snapshot_file d' = Some json"
proof -
  let ?path = "ksm_path (governor_cfg cfg)"
  obtain w1 r1 where c1: "controller_new w ?path (dh_ksm_exists host ?path) = (w1, r1)" by fastforce
  note C1 = controller_new_careful[OF c1]
  define snap where "snap = (if dry then (d, Ok ())
                   else ksm_take_snapshot (dh_encode host) (dh_chrono host) (dh_junk host) w1 d)"
  obtain d1 r2 where sn: "snap = (d1, r2)" by fastforce
  obtain w2 r3 where sp: "spawn_governor kw (governor_cfg cfg) (dh_ksm_exists host) dry (dh_now host) w1 = (w2, r3)"
    by fastforce
  note S = spawn_governor_careful[OF sp]
  obtain w3 r4 where c3: "controller_new w2 ?path (dh_ksm_exists host ?path) = (w3, r4)" by fastforce
  note C3 = controller_new_careful(1)[OF c3, of dry]
  have w2: "careful dry w w2" by (rule careful_trans[OF C1(1) S(1)])
  have "careful dry w w' \<and> (dry \<longrightarrow> d' = d)"
    using assms c1 sn[unfolded snap_def] sp c3 C1(1)[of dry] w2 careful_trans[OF w2 C3]
    by (auto simp: daemon_start_def Let_def split: sum.splits)
  then show "careful dry w w'" "dry \<Longrightarrow> d' = d" by simp_all
  assume r: "r = Ok t"
  have ok: "tk_ksm t = w'" "d' = d1" "r2 = Ok ()" "r3 = Ok (tk_governor t)"
    using assms r c1 sn[unfolded snap_def] sp c3 by (auto simp: daemon_start_def Let_def split: sum.splits)
  show "tk_ksm t = w' \<and> gov_ok t \<and> (dry \<longrightarrow> dry_tasks t)"
    using ok S(2) by (auto simp: gov_ok_def dry_tasks_def split: option.split)
  assume "\<not> dry"
  with sn have "ksm_take_snapshot (dh_encode host) (dh_chrono host) (dh_junk host) w1 d = (d1, r2)"
    by (simp add: snap_def)
  from snapshot_atomic[OF this] ok C1(2)
  show "\<exists>kcfg json. read_config (ksm_files w) = Ok kcfg
        \<and> dh_encode host \<lparr>snap_config = kcfg, snap_timestamp = dh_chrono host\<rparr> = Some json
        \<and> snapshot_file d' = Some json" by simp
qed

lemma daemon_stop_careful:
  assumes "daemon_stop kw host cfg dry w d = (w', r)"
  shows "safe_log w \<Longrightarrow> safe_log w'" "dry \<Longrightarrow> w' = w"
proof -
  let ?path = "ksm_path (governor_cfg cfg)"
  obtain w1 r1 where c1: "controller_new w ?path (dh_ksm_exists host ?path) = (w1, r1)" by fastforce
  have "safe_log w1" if "safe_log w" using controller_new_careful(1)[OF c1] that by (auto simp: careful_def)
  then show "safe_log w \<Longrightarrow> safe_log w'" "dry \<Longrightarrow> w' = w"
    using assms c1 safe_restore
    by (auto simp: daemon_stop_def ksm_restore_def split: if_splits sum.splits option.splits)
qed

section \<open>Whole runs\<close>

text \<open>The stages of a run that got as far as its tasks.\<close>

lemma daemon_run_cases:
  assumes "run_daemon_with_shutdown kw host dry (w, d) = ((w', d'), r)"
  obtains (no_config) e where "r = Err (BadConfig e)" "w' = w" "d' = d"
  | (no_start) cfg e where "load_config_or_default (dh_config_file host) (dh_parsed host) = Ok cfg"
      "daemon_start kw host cfg dry (w, d) = ((w', d'), Err e)" "r = Err e"
  | (no_signal) cfg w1 t e where "load_config_or_default (dh_config_file host) (dh_parsed host) = Ok cfg"
      "daemon_start kw host cfg dry (w, d) = ((w1, d'), Ok t)" "dh_signal host = Inl e"
      "w' = tk_ksm (foldl (daemon_step kw) t (dh_events host))" "r = Err (SignalFailed e)"
  | (stopped) cfg w1 w2 t where "load_config_or_default (dh_config_file host) (dh_parsed host) = Ok cfg"
      "daemon_start kw host cfg dry (w, d) = ((w1, d'), Ok t)"
      "daemon_stop kw host cfg dry (tk_ksm (foldl (daemon_step kw) t (dh_events host))) d' = (w2, r)"
      "w' = tk_ksm (foldl (daemon_step kw) ((foldl (daemon_step kw) t (dh_events host))\<lparr>tk_ksm := w2\<rparr>) (dh_late host))"
  using assms that
  by (cases "load_config_or_default (dh_config_file host) (dh_parsed host)")
     (auto simp: run_daemon_with_shutdown_def Let_def split: prod.splits sum.splits)

text \<open>A run with a controller, a writable state directory and a delivered signal ends well.\<close>

lemma controller_new_ok: "\<exists>w' c. controller_new w path True = (w', Ok c)"
  by (simp add: controller_new_def split: prod.split)

lemma spawn_governor_ok:
  assumes "ex (ksm_path cfg)"
  shows "\<exists>w' g. spawn_governor kw cfg ex dry now w = (w', Ok g)"
proof -
  obtain w1 c1 where c1: "controller_new w (ksm_path cfg) True = (w1, Ok c1)" using controller_new_ok by blast
  obtain w2 c2 where "controller_new w1 (ksm_path cfg) True = (w2, Ok c2)" using controller_new_ok by blast
  with c1 assms show ?thesis by (simp add: spawn_governor_def Let_def)
qed

lemma take_snapshot_ok:
  assumes "read_config (ksm_files w) = Ok k" "enc \<lparr>snap_config = k, snap_timestamp = now\<rparr> = Some json" "sd_plan d = []"
  shows "\<exists>d'. ksm_take_snapshot enc now junk w d = (d', Ok ())"
  using assms by (simp add: ksm_take_snapshot_def next_ok_def write_tmp_def rename_tmp_def)

lemma run_ok:
  assumes cfg: "load_config_or_default (dh_config_file host) (dh_parsed host) = Ok cfg"
    and ex: "dh_ksm_exists host (ksm_path (governor_cfg cfg))" and sig: "dh_signal host = Inr sg"
    and snap: "read_config (ksm_files w) = Ok k"
      "dh_encode host \<lparr>snap_config = k, snap_timestamp = dh_chrono host\<rparr> = Some json" "sd_plan d = []"
  shows "\<exists>w' d'. run_daemon_with_shutdown kw host False (w, d) = ((w', d'), Ok ())"
proof -
  let ?path = "ksm_path (governor_cfg cfg)"
  obtain w1 c1 where c1: "controller_new w ?path True = (w1, Ok c1)" using controller_new_ok by blast
  have "read_config (ksm_files w1) = Ok k" using controller_new_careful(2)[OF c1] snap(1) by simp
  then obtain d1 where d1: "ksm_take_snapshot (dh_encode host) (dh_chrono host) (dh_junk host) w1 d = (d1, Ok ())"
    using take_snapshot_ok snap(2,3) by blast
  obtain w2 g where g: "spawn_governor kw (governor_cfg cfg) (dh_ksm_exists host) False (dh_now host) w1 = (w2, Ok g)"
    using spawn_governor_ok[of "dh_ksm_exists host" "governor_cfg cfg" kw False "dh_now host" w1] ex by blast
  obtain w3 m where m: "controller_new w2 ?path True = (w3, m)" by fastforce
  obtain t where t: "daemon_start kw host cfg False (w, d) = ((w3, d1), Ok t)"
    using c1 d1 g m ex by (simp add: daemon_start_def Let_def)
  obtain w4 c4 where "controller_new (tk_ksm (foldl (daemon_step kw) t (dh_events host))) ?path True = (w4, Ok c4)"
    using controller_new_ok by blast
  with t cfg sig ex show ?thesis by (simp add: run_daemon_with_shutdown_def daemon_stop_def Let_def)
qed

text \<open>No write of a controller made by \<open>new\<close> is ever dropped by the rate limit.\<close>

lemma writes_unlimited: "writes kw c w w' \<Longrightarrow> unlimited c w \<Longrightarrow> unlimited c w'"
  by (induction rule: writes.induct) (simp_all add: unlimited_write)

lemma run_safe:
  assumes "run_daemon_with_shutdown kw host dry (w, d) = ((w', d'), r)" "safe_log w"
  shows "safe_log w'"
proof -
  have tasks: "safe_log (tk_ksm (foldl (daemon_step kw) t (dh_events host)))
      \<and> gov_ok (foldl (daemon_step kw) t (dh_events host))"
    if "daemon_start kw host cfg dry (w, d) = ((w1, d'), Ok t)" for cfg w1 t
  proof -
    note S = daemon_start_careful[OF that]
    have "gov_ok t" "safe_log (tk_ksm t)" using S(1) S(3)[OF refl] assms(2) by (auto simp: careful_def)
    with daemon_steps_keep[of t kw "dh_events host"] gov_ok_keep show ?thesis by (auto simp: tasks_keep_def)
  qed
  have late: "safe_log (tk_ksm (foldl (daemon_step kw) (t\<lparr>tk_ksm := w2\<rparr>) (dh_late host)))"
    if "gov_ok t" "safe_log w2" for t w2
  proof -
    have "gov_ok (t\<lparr>tk_ksm := w2\<rparr>)" using that(1) by (simp add: gov_ok_def)
    from daemon_steps_keep[OF this] that(2) show ?thesis by (simp add: tasks_keep_def)
  qed
  show ?thesis
  proof (cases rule: daemon_run_cases[OF assms(1)])
    case 1
    with assms(2) show ?thesis by simp
  next
    case (2 cfg e)
    with daemon_start_careful(1)[OF 2(2)] assms(2) show ?thesis by (simp add: careful_def)
  next
    case (3 cfg w1 t e)
    with tasks[OF 3(2)] show ?thesis by simp
  next
    case (4 cfg w1 w2 t)
    with daemon_stop_careful(1)[OF 4(3)] tasks[OF 4(2)] late show ?thesis by simp
  qed
qed

lemma run_dry:
  assumes "run_daemon_with_shutdown kw host True (w, d) = ((w', d'), r)"
  shows "d' = d" "ksm_log w' = ksm_log w"
    "list_all (\<lambda>e. \<not> is_outside e) (dh_events host @ dh_late host) \<Longrightarrow> ksm_files w' = ksm_files w"
proof -
  let ?quiet = "list_all (\<lambda>e. \<not> is_outside e) (dh_events host @ dh_late host)"
  have tasks: "d' = d \<and> ksm_log (tk_ksm (foldl (daemon_step kw) t (dh_events host))) = ksm_log w
      \<and> dry_tasks (foldl (daemon_step kw) t (dh_events host))
      \<and> (?quiet \<longrightarrow> ksm_files (tk_ksm (foldl (daemon_step kw) t (dh_events host))) = ksm_files w)"
    if "daemon_start kw host cfg True (w, d) = ((w1, d'), Ok t)" for cfg w1 t
    using daemon_start_careful(1,2)[OF that] daemon_start_careful(3)[OF that refl]
      daemon_steps_dry[of t kw "dh_events host"] by (auto simp: careful_def)
  have "d' = d \<and> ksm_log w' = ksm_log w \<and> (?quiet \<longrightarrow> ksm_files w' = ksm_files w)"
  proof (cases rule: daemon_run_cases[OF assms])
    case 1
    then show ?thesis by simp
  next
    case (2 cfg e)
    with daemon_start_careful(1,2)[OF 2(2)] show ?thesis by (simp add: careful_def)
  next
    case (3 cfg w1 t e)
    with tasks[OF 3(2)] show ?thesis by simp
  next
    case (4 cfg w1 w2 t)
    let ?t = "foldl (daemon_step kw) t (dh_events host)"
    have "w2 = tk_ksm ?t" using daemon_stop_careful(2)[OF 4(3)] by simp
    with 4(4) have "w' = tk_ksm (foldl (daemon_step kw) ?t (dh_late host))" by simp
    with tasks[OF 4(2)] daemon_steps_dry[of ?t kw "dh_late host"] show ?thesis by simp
  qed
  then show "d' = d" "ksm_log w' = ksm_log w" "?quiet \<Longrightarrow> ksm_files w' = ksm_files w" by simp_all
qed

text \<open>
  A normal shutdown restores the configuration found at the start, whatever the tasks and
  the outside world did to sysfs in between, up to the first number that the kernel refuses;
  only a task that outlives the timeout can change it again.
\<close>

context ksm_kernel
begin

lemma restore_outcome:
  assumes "unlimited c w" "\<not> dry_run c" "restorable cfg" "restore_config kw c w cfg = (w', r)"
  shows "restored cfg (ksm_files w')
    \<or> read_string (ksm_files w') ''advisor_mode'' = Ok ''none'' \<and> refused_at kw (ksm_files w') (saved_numbers cfg)"
proof (cases r)
  case (Inl e)
  with failed_restore_mode[OF assms(1-3)] failed_restore_refused[OF assms(1-3)] assms(4) show ?thesis by auto
next
  case (Inr u)
  with restore_restores[OF assms(1-3)] assms(4) show ?thesis by auto
qed

lemma run_restores:
  assumes clock: "MIN_UPDATE_INTERVAL_MS \<le> ksm_clock w"
    and codec: "\<And>s j. dh_encode host s = Some j \<Longrightarrow> dh_decode host j = Some s" and "dh_readable host"
    and cfg: "read_config (ksm_files w) = Ok kcfg" "restorable kcfg"
    and run: "run_daemon_with_shutdown kw host False (w, d) = ((w', d'), Ok ())"
  shows "\<exists>t. run_daemon_with_shutdown kw (host\<lparr>dh_late := []\<rparr>) False (w, d) = ((tk_ksm t, d'), Ok ())
    \<and> (restored kcfg (ksm_files (tk_ksm t))
       \<or> read_string (ksm_files (tk_ksm t)) ''advisor_mode'' = Ok ''none''
         \<and> refused_at kw (ksm_files (tk_ksm t)) (saved_numbers kcfg))
    \<and> w' = tk_ksm (foldl (daemon_step kw) t (dh_late host))"
proof (cases rule: daemon_run_cases[OF run])
  case (4 c w1 w4 t)
  note S = daemon_start_careful[OF 4(2)]
  let ?t = "foldl (daemon_step kw) t (dh_events host)"
  let ?path = "ksm_path (governor_cfg c)"
  have "ksm_clock w \<le> ksm_clock (tk_ksm ?t)"
    using S(1)[unfolded careful_def] S(3)[OF refl] daemon_steps_keep[of t kw "dh_events host"]
    by (auto simp: tasks_keep_def)
  with clock have clk: "MIN_UPDATE_INTERVAL_MS \<le> ksm_clock (tk_ksm ?t)" by simp
  obtain json where json: "dh_encode host \<lparr>snap_config = kcfg, snap_timestamp = dh_chrono host\<rparr> = Some json"
    "snapshot_file d' = Some json" using S(4)[OF refl] cfg(1) by auto
  obtain w3 r where c: "controller_new (tk_ksm ?t) ?path (dh_ksm_exists host ?path) = (w3, r)" by fastforce
  with 4(3) obtain k where k: "r = Ok k" "w4 = fst (restore_config kw k w3 kcfg)"
    using codec[OF json(1)] json(2) assms(3)
    by (auto simp: daemon_stop_def ksm_restore_def split: sum.splits)
  from controller_new_careful(4)[OF c k(1)] clk have un: "unlimited k w3" "\<not> dry_run k" by auto
  from restore_outcome[OF un cfg(2)] k(2) have out: "restored kcfg (ksm_files w4)
      \<or> read_string (ksm_files w4) ''advisor_mode'' = Ok ''none'' \<and> refused_at kw (ksm_files w4) (saved_numbers kcfg)"
    by (metis prod.collapse)
  have "daemon_start kw (host\<lparr>dh_late := []\<rparr>) = daemon_start kw host" "daemon_stop kw (host\<lparr>dh_late := []\<rparr>) = daemon_stop kw host"
    by (simp_all add: fun_eq_iff daemon_start_def daemon_stop_def Let_def split: prod.split sum.split)
  moreover obtain sg where "dh_signal host = Inr sg"
    using run 4(1,2) by (auto simp: run_daemon_with_shutdown_def Let_def split: sum.splits)
  ultimately have "run_daemon_with_shutdown kw (host\<lparr>dh_late := []\<rparr>) False (w, d) = ((w4, d'), Ok ())"
    using 4(1-3) by (simp add: run_daemon_with_shutdown_def Let_def)
  with 4(4) out show ?thesis by (intro exI[of _ "?t\<lparr>tk_ksm := w4\<rparr>"]) simp
qed auto

end

end
