(* ===== verification/Psi_Laws.thy ===== *)
theory Psi_Laws
  imports Psi
begin

text \<open>
  Laws of theory \<open>Psi\<close>: classification is monotone in the averages although every
  intermediate result is rounded, the thresholds it guarantees, and the lifecycle of a
  trigger's file descriptor.
\<close>

section \<open>Ordered floats\<close>

lemma fle_trans: "fle x y \<Longrightarrow> fle y z \<Longrightarrow> fle x z"
  by (cases x; cases y; cases z) auto

text \<open>Rounded sums and products of averages, which are not negative.\<close>

definition nonneg :: "float \<Rightarrow> bool" where
  "nonneg x \<longleftrightarrow> (case x of Finite a \<Rightarrow> 0 \<le> a | Infinite n \<Rightarrow> \<not> n | NaN \<Rightarrow> False)"

lemma nonneg_simps [simp]: "nonneg (Finite a) \<longleftrightarrow> 0 \<le> a" "nonneg (Infinite n) \<longleftrightarrow> \<not> n" "\<not> nonneg NaN"
  by (simp_all add: nonneg_def)

lemma f32_round_mono: "a \<le> b \<Longrightarrow> fle (f32_round a) (f32_round b)"
  by (simp add: f32_round_def fp_round_mono)

lemma fp_round_zero: "fp_round p emin emax 0 = Finite 0"
  by (simp add: fp_round_def round_mag_def Let_def not_le)

lemma f32_round_zero [simp]: "f32_round 0 = Finite 0"
  by (simp add: f32_round_def fp_round_zero)

lemma f32_round_nonneg: "0 \<le> a \<Longrightarrow> nonneg (f32_round a)"
  using f32_round_mono[of 0 a] by (cases "f32_round a") auto

lemma f32_mul_mono:
  assumes "0 < c" "nonneg x" "fle x y"
  shows "fle (f32_mul (Finite c) x) (f32_mul (Finite c) y)" "nonneg (f32_mul (Finite c) x)"
proof -
  have "fle (f32_round (c * a)) (f32_round (c * b))" if "a \<le> b" for a b
    using that assms(1) by (intro f32_round_mono) simp
  moreover have inf: "nonneg z \<Longrightarrow> fle z (Infinite False)" for z by (cases z) auto
  moreover have "nonneg (f32_round (c * a))" if "0 \<le> a" for a
    using that assms(1) by (intro f32_round_nonneg) simp
  ultimately show "fle (f32_mul (Finite c) x) (f32_mul (Finite c) y)" "nonneg (f32_mul (Finite c) x)"
    using assms by (cases x; cases y; auto)+
qed

lemma f32_add_mono:
  assumes "nonneg x" "nonneg x'" "fle x y" "fle x' y'"
  shows "fle (f32_add x x') (f32_add y y')"
proof -
  have "fle (f32_round (a + a')) (f32_round (b + b'))" if "a \<le> b" "a' \<le> b'" for a a' b b'
    using that by (intro f32_round_mono) simp
  moreover have "0 \<le> a \<Longrightarrow> fle (f32_round a) (Infinite False)" for a
    using f32_round_nonneg[of a] by (cases "f32_round a") auto
  ultimately show ?thesis
    using assms by (cases x; cases x'; cases y; cases y'; auto)
qed

text \<open>A rounded value stays between bounds that are exact.\<close>

lemma f32_between:
  assumes "a \<le> x" "x \<le> b" "f32_round a = Finite a" "f32_round b = Finite b"
  obtains y where "f32_round x = Finite y" "a \<le> y" "y \<le> b"
  using f32_round_mono[OF assms(1)] f32_round_mono[OF assms(2)] assms(3,4) that
  by (cases "f32_round x") auto

lemma f32_small: "f32_round 4 = Finite 4" "f32_round 10 = Finite 10" "f32_round 16 = Finite 16"
  by code_simp+

section \<open>Classification\<close>

definition no_pressure_less :: "psi_stats \<Rightarrow> psi_stats \<Rightarrow> bool" where
  "no_pressure_less s t \<longleftrightarrow> nonneg (avg10 (some_line s)) \<and> nonneg (avg10 (full_line s))
     \<and> fle (avg10 (some_line s)) (avg10 (some_line t)) \<and> fle (avg10 (full_line s)) (avg10 (full_line t))"

lemma weights:
  "f32_round (7 / 10) = Finite (11744051 / 16777216)" "f32_round (3 / 10) = Finite (5033165 / 16777216)"
  by code_simp+

lemma score_mono:
  assumes "no_pressure_less s t"
  shows "fle (psi_score s) (psi_score t)"
  using assms unfolding psi_score_def weights no_pressure_less_def
  by (intro f32_add_mono f32_mul_mono) auto

lemma classify_mono:
  assumes "no_pressure_less s t"
  shows "classify s st ft \<le> classify t st ft"
proof -
  have sc: "fle k (psi_score s) \<Longrightarrow> fle k (psi_score t)" for k
    using score_mono[OF assms] fle_trans by blast
  have "fle st (avg10 (some_line s)) \<Longrightarrow> fle st (avg10 (some_line t))"
    "fle (f32_mul ft (Finite 2)) (avg10 (full_line s)) \<Longrightarrow> fle (f32_mul ft (Finite 2)) (avg10 (full_line t))"
    using assms fle_trans by (auto simp: no_pressure_less_def)
  with sc show ?thesis
    by (auto simp: classify_def Let_def less_eq_pressure_level_def)
qed

lemma classify_default: "classify psi_stats_default (Finite 5) (Finite 2) = Idle"
  by code_simp

text \<open>NaN averages, which the parser accepts, never raise the level.\<close>

lemma classify_nan:
  assumes "avg10 (some_line s) = NaN"
  shows "classify s st ft = (if fle (f32_mul ft (Finite 2)) (avg10 (full_line s)) then High else Idle)"
proof -
  have "f32_mul x NaN = NaN" "f32_add x NaN = NaN" for x by (cases x; simp)+
  then have "psi_score s = NaN" by (simp add: psi_score_def assms)
  moreover have "\<not> fle x NaN" for x by (cases x) auto
  ultimately show ?thesis using assms by (simp add: classify_def)
qed

section \<open>Triggers\<close>

text \<open>A descriptor is open exactly as long as its trigger lives, unless the first write fails.\<close>

lemma trigger_new_fds:
  assumes "trigger_new w path op wr k th win = (w', r)" "next_fd w \<notin> set (open_fds w)"
  shows "(case r of
      Inr t \<Rightarrow> op \<and> wr \<and> open_fds w' = trigger_fd t # open_fds w \<and> trigger_fd t = next_fd w
        \<and> open_fds (trigger_drop w' t) = open_fds w \<and> fd_writes w' = fd_writes w @ [(trigger_fd t, trigger_str t)]
    | Inl _ \<Rightarrow> open_fds w' = (if op then next_fd w # open_fds w else open_fds w))"
  using assms by (auto simp: trigger_new_def write_trigger_to_path_def trigger_drop_def Let_def split: if_splits)

lemma rearm_same:
  assumes "trigger_new w path op wr k th win = (w', Ok t)"
  shows "trigger_rearm w2 t True = (w2\<lparr>fd_writes := fd_writes w2 @ [(trigger_fd t, trigger_string k th win)]\<rparr>, Ok ())"
  using assms by (auto simp: trigger_new_def trigger_rearm_def write_trigger_to_path_def Let_def split: if_splits)

end
