(* ===== verification/Governor_Progress.thy ===== *)
theory Governor_Progress
  imports Governor_Laws
begin

text \<open>
  Progress of the governor of theory \<open>Governor\<close>: under steady readings the level reaches the
  target of the pressure and stays there, although hysteresis, cooldown and the
  stabilization window each hold changes back and a change inside the window is lost.
\<close>

section \<open>One tick with a profit\<close>

lemma steady_tick:
  assumes "tick_reading kw (g, st, w) rd = (g', st', w')" "0 \<le> general_profit (fst (snd rd))"
  obtains g2 r where
    "compute_transition (observe_psi_stability g (fst rd)) (reading_target (gov_config g) rd) (snd (snd rd)) = (g2, r)"
    "g' = g2 \<and> last_governor_action st' = last_governor_action st
       \<and> (r = current_level g \<or> snd (snd rd) - last_governor_action st < unat (stabilization_secs (gov_config g)) * 1000)
     \<or> g' = g2\<lparr>current_level := r\<rparr> \<and> r \<noteq> current_level g"
proof -
  from assms(1) have "tick_with_readings kw (g, st, w) (fst rd) (fst (snd rd)) (snd (snd rd)) = (g', st', w')"
    by (simp add: tick_reading_def)
  then obtain g2 r g3 st3 w3 st4 where
    c: "compute_transition (observe_psi_stability g (fst rd)) (reading_target (gov_config g) rd) (snd (snd rd)) = (g2, r)"
    and d: "damped_change kw (g2, st, w) r (snd (snd rd)) = (g3, st3, w3)"
    and p: "profit_check kw (g3, st3, w3) (fst (snd rd)) (snd (snd rd)) = (g', st4, w')"
    and s: "last_governor_action st' = last_governor_action st4"
    unfolding reading_target_def by (rule tick_stages)
  note C = transition_result[OF c]
  have same: "g' = g3" "st4 = st3" using assms(2) by (cases rule: profit_check_cases[OF p]; simp)+
  let ?late = "unat (stabilization_secs (gov_config g2)) * 1000 \<le> snd (snd rd) - last_governor_action st"
  show thesis
  proof (cases "r \<noteq> current_level g2 \<and> ?late")
    case True
    with d have "apply_profile kw g2 st w r (snd (snd rd)) = (g3, st3, w3)" by (simp add: damped_change_def)
    from apply_profile_fields(1)[OF this] True C same show ?thesis by (intro that[OF c]) simp
  next
    case False
    with d have "g3 = g2" "st3 = st" by (auto simp: damped_change_def)
    with False C same s show ?thesis by (intro that[OF c]) (auto simp: not_le)
  qed
qed

lemma steady_tick_config:
  assumes "tick_reading kw (g, st, w) rd = (g', st', w')" "0 \<le> general_profit (fst (snd rd))"
  shows "gov_config g' = gov_config g"
proof -
  obtain g2 r where c: "compute_transition (observe_psi_stability g (fst rd)) (reading_target (gov_config g) rd) (snd (snd rd)) = (g2, r)"
    and "g' = g2 \<or> g' = g2\<lparr>current_level := r\<rparr>"
    by (rule steady_tick[OF assms]) blast
  with transition_result(3)[OF c] show ?thesis by auto
qed

section \<open>A counter that is never reset reaches its bound\<close>

lemma counter_reaches:
  fixes f :: "nat \<Rightarrow> u32"
  assumes "\<And>n. f (Suc n) = f n + 1" "\<And>n. f (Suc n) < bound"
  shows False
proof -
  have grow: "unat (f (Suc n)) = unat (f 1) + n" for n
  proof (induction n)
    case (Suc n)
    have "unat (f (Suc n) + 1) = unat (f (Suc n)) + 1" by (rule unat_plus1) (use assms(2) in \<open>simp add: word_less_nat_alt\<close>)
    with Suc assms(1)[of "Suc n"] show ?case by simp
  qed simp
  have "unat (f (Suc (2 ^ 32))) < 2 ^ 32" by (rule unat_u32_less)
  with grow[of "2 ^ 32"] show False by simp
qed

section \<open>Steady readings\<close>

text \<open>
  A run of ticks: the machine makes a profit, the target is always the same, time passes any
  bound, and between two ticks other tasks may change the shared state and sysfs, but not
  the time of the last action of the governor.
\<close>

definition steady_run ::
    "kernel_write \<Rightarrow> governor_config \<Rightarrow> u8 \<Rightarrow> (nat \<Rightarrow> governor \<times> governor_state \<times> ksm_world) \<Rightarrow> (nat \<Rightarrow> reading) \<Rightarrow> bool" where
  "steady_run kw cfg target x rd \<longleftrightarrow>
     gov_config (fst (x 0)) = cfg
     \<and> (\<forall>n. 0 \<le> general_profit (fst (snd (rd n))) \<and> reading_target cfg (rd n) = target)
     \<and> (\<forall>d. \<exists>n. \<forall>m. d \<le> snd (snd (rd (n + m))))
     \<and> (\<forall>n. \<exists>st w. last_governor_action st = last_governor_action (fst (snd (x n)))
          \<and> x (Suc n) = tick_reading kw (fst (x n), st, w) (rd n))"

lemma steady_run_config:
  assumes "steady_run kw cfg target x rd"
  shows "gov_config (fst (x n)) = cfg"
proof (induction n)
  case (Suc n)
  obtain st w where x: "x (Suc n) = tick_reading kw (fst (x n), st, w) (rd n)"
    using assms by (metis steady_run_def)
  obtain g' st' w' where t: "tick_reading kw (fst (x n), st, w) (rd n) = (g', st', w')" by (metis prod.exhaust)
  from steady_tick_config[OF t] assms Suc x t show ?case by (simp add: steady_run_def)
qed (use assms in \<open>simp add: steady_run_def\<close>)

text \<open>What one tick of the run does: the transition function decides, the window may object.\<close>

lemma steady_run_tick:
  assumes "steady_run kw cfg target x rd"
  obtains g2 r where
    "compute_transition (observe_psi_stability (fst (x n)) (fst (rd n))) target (snd (snd (rd n))) = (g2, r)"
    "fst (x (Suc n)) = g2 \<and> last_governor_action (fst (snd (x (Suc n)))) = last_governor_action (fst (snd (x n)))
       \<and> (r = current_level (fst (x n))
          \<or> snd (snd (rd n)) - last_governor_action (fst (snd (x n))) < unat (stabilization_secs cfg) * 1000)
     \<or> fst (x (Suc n)) = g2\<lparr>current_level := r\<rparr> \<and> r \<noteq> current_level (fst (x n))"
proof -
  obtain st w where st: "last_governor_action st = last_governor_action (fst (snd (x n)))"
    and x: "x (Suc n) = tick_reading kw (fst (x n), st, w) (rd n)"
    using assms by (metis steady_run_def)
  obtain g' st' w' where t: "tick_reading kw (fst (x n), st, w) (rd n) = (g', st', w')" by (metis prod.exhaust)
  have p: "0 \<le> general_profit (fst (snd (rd n)))" and target: "reading_target cfg (rd n) = target"
    using assms by (simp_all add: steady_run_def)
  note cfg = steady_run_config[OF assms, of n]
  show thesis
    by (rule steady_tick[OF t p]) (rule that; simp add: cfg target x t st)
qed

text \<open>A level that has been reached stays.\<close>

lemma steady_stays:
  assumes s: "steady_run kw cfg target x rd" and n: "current_level (fst (x n)) = target"
  shows "current_level (fst (x (n + m))) = target"
proof (induction m)
  case (Suc m)
  obtain g2 r where c: "compute_transition (observe_psi_stability (fst (x (n + m))) (fst (rd (n + m)))) target
      (snd (snd (rd (n + m)))) = (g2, r)"
    and x: "fst (x (Suc (n + m))) = g2 \<or> r \<noteq> current_level (fst (x (n + m)))"
    by (rule steady_run_tick[OF s, of "n + m"]) blast
  from transition_result(1,2)[OF c] Suc x show ?case by auto
qed (simp add: n)

text \<open>The level moves towards the target only.\<close>

lemma steady_moves:
  assumes s: "steady_run kw cfg target x rd" and ch: "current_level (fst (x (Suc n))) \<noteq> current_level (fst (x n))"
  shows "current_level (fst (x (Suc n))) = target
    \<or> target < current_level (fst (x n)) \<and> current_level (fst (x (Suc n))) = current_level (fst (x n)) - 1"
proof -
  obtain g2 r where c: "compute_transition (observe_psi_stability (fst (x n)) (fst (rd n))) target (snd (snd (rd n))) = (g2, r)"
    and x: "fst (x (Suc n)) = g2 \<or> fst (x (Suc n)) = g2\<lparr>current_level := r\<rparr>"
    by (rule steady_run_tick[OF s, of n]) blast
  from transition_result(1,2)[OF c] ch x show ?thesis by auto
qed

text \<open>A transition that keeps a level that is not the target only waits.\<close>

lemma transition_waits:
  assumes "compute_transition g target now = (g2, current_level g)" "current_level g \<noteq> target"
  shows "current_level g < target \<and> ramp_up_count g2 = ramp_up_count g + 1
      \<and> ramp_up_count g2 < hysteresis_readings (gov_config g)
    \<or> target < current_level g \<and> level_entered_at g2 = level_entered_at g
      \<and> (now - level_entered_at g < unat (min_level_duration_secs (gov_config g)) * 1000
         \<or> hysteresis_count g2 = hysteresis_count g + 1 \<and> hysteresis_count g2 < hysteresis_readings (gov_config g))"
proof -
  have "current_level g - 1 \<noteq> current_level g" by simp
  with assms show ?thesis
    by (auto simp: compute_transition_def Let_def not_le split: if_splits)
qed

text \<open>
  Once the stabilization window and the cooldown are over, every tick below or above the
  target counts a reading, so a level that never changes again is the target.
\<close>

lemma stuck_tick:
  assumes s: "steady_run kw cfg target x rd" and stuck: "\<And>m. current_level (fst (x m)) = l" and "l \<noteq> target"
    and over: "unat (stabilization_secs cfg) * 1000 \<le> snd (snd (rd n)) - last_governor_action (fst (snd (x n)))"
  shows "l < target \<and> ramp_up_count (fst (x (Suc n))) = ramp_up_count (fst (x n)) + 1
      \<and> ramp_up_count (fst (x (Suc n))) < hysteresis_readings cfg
    \<or> target < l \<and> level_entered_at (fst (x (Suc n))) = level_entered_at (fst (x n))
      \<and> (snd (snd (rd n)) - level_entered_at (fst (x n)) < unat (min_level_duration_secs cfg) * 1000
         \<or> hysteresis_count (fst (x (Suc n))) = hysteresis_count (fst (x n)) + 1
           \<and> hysteresis_count (fst (x (Suc n))) < hysteresis_readings cfg)"
proof -
  obtain g2 r where c: "compute_transition (observe_psi_stability (fst (x n)) (fst (rd n))) target (snd (snd (rd n))) = (g2, r)"
    and x: "fst (x (Suc n)) = g2 \<and> r = current_level (fst (x n)) \<or> fst (x (Suc n)) = g2\<lparr>current_level := r\<rparr> \<and> r \<noteq> current_level (fst (x n))"
    using over by (rule_tac steady_run_tick[OF s, of n]) auto
  have "current_level (fst (x n)) = l" "current_level (fst (x (Suc n))) = l" using stuck by simp_all
  with x have "fst (x (Suc n)) = g2" "r = l" by auto
  with transition_waits[of "observe_psi_stability (fst (x n)) (fst (rd n))" target _ g2] c
    steady_run_config[OF s, of n] stuck[of n] assms(3) show ?thesis by simp
qed

lemma stuck_action:
  assumes s: "steady_run kw cfg target x rd" and stuck: "\<And>m. current_level (fst (x m)) = l"
  shows "last_governor_action (fst (snd (x n))) = last_governor_action (fst (snd (x 0)))"
proof (induction n)
  case (Suc n)
  obtain g2 r where "last_governor_action (fst (snd (x (Suc n)))) = last_governor_action (fst (snd (x n)))
     \<or> fst (x (Suc n)) = g2\<lparr>current_level := r\<rparr> \<and> r \<noteq> current_level (fst (x n))"
    by (rule steady_run_tick[OF s, of n]) blast
  moreover have "current_level (fst (x n)) = current_level (fst (x (Suc n)))" using stuck by simp
  ultimately show ?case using Suc by auto
qed simp

text \<open>A run stays steady when its first ticks are cut off.\<close>

lemma steady_run_shift:
  assumes "steady_run kw cfg target x rd"
  shows "steady_run kw cfg target (\<lambda>m. x (n + m)) (\<lambda>m. rd (n + m))"
proof -
  have "\<exists>k. \<forall>m. d \<le> snd (snd (rd (n + (k + m))))" for d
  proof -
    obtain k where k: "\<And>m. d \<le> snd (snd (rd (k + m)))" using assms by (meson steady_run_def)
    have "d \<le> snd (snd (rd (n + (k + m))))" for m using k[of "n + m"] by (simp add: ac_simps)
    then show ?thesis by blast
  qed
  with assms steady_run_config[OF assms, of n] show ?thesis by (simp add: steady_run_def)
qed

lemma stuck_is_target:
  assumes s: "steady_run kw cfg target x rd" and stuck: "\<And>m. current_level (fst (x m)) = l"
  shows "l = target"
proof (rule ccontr)
  assume ne: "l \<noteq> target"
  let ?now = "\<lambda>k. snd (snd (rd k))" and ?e0 = "level_entered_at (fst (x 0))"
  obtain n where n: "\<And>m. last_governor_action (fst (snd (x 0))) + unat (stabilization_secs cfg) * 1000 \<le> ?now (n + m)"
    using s by (meson steady_run_def)
  have late: "unat (stabilization_secs cfg) * 1000 \<le> ?now (n + m) - last_governor_action (fst (snd (x (n + m))))" for m
    using n[of m] stuck_action[OF s stuck, of "n + m"] by simp
  note wait = stuck_tick[OF s stuck ne late]
  show False
  proof (cases "l < target")
    case True
    have "ramp_up_count (fst (x (n + Suc m))) = ramp_up_count (fst (x (n + m))) + 1"
      "ramp_up_count (fst (x (n + Suc m))) < hysteresis_readings cfg" for m
      using wait[of m] True by auto
    then show False by (rule counter_reaches[where f = "\<lambda>m. ramp_up_count (fst (x (n + m)))"])
  next
    case False
    have entered: "level_entered_at (fst (x (n + m))) = level_entered_at (fst (x n))" for m
    proof (induction m)
      case (Suc m)
      with wait[of m] False show ?case by simp
    qed simp
    obtain k where k: "\<And>m. level_entered_at (fst (x n)) + unat (min_level_duration_secs cfg) * 1000 \<le> ?now (k + m)"
      using s by (meson steady_run_def)
    have "hysteresis_count (fst (x (n + k + Suc m))) = hysteresis_count (fst (x (n + k + m))) + 1"
      "hysteresis_count (fst (x (n + k + Suc m))) < hysteresis_readings cfg" for m
      using wait[of "k + m"] k[of "n + m"] entered[of "k + m"] False by (auto simp: ac_simps)
    then show False by (rule counter_reaches[where f = "\<lambda>m. hysteresis_count (fst (x (n + k + m)))"])
  qed
qed

section \<open>Convergence\<close>

definition distance_to :: "u8 \<Rightarrow> u8 \<Rightarrow> nat" where
  "distance_to target l = (if l < target then 1 else unat l - unat target)"

lemma steady_reaches:
  assumes "steady_run kw cfg target x rd"
  shows "\<exists>n. \<forall>m. current_level (fst (x (n + m))) = target"
  using assms
proof (induction "distance_to target (current_level (fst (x 0)))" arbitrary: x rd rule: less_induct)
  case less
  note s = less.prems
  show ?case
  proof (cases "current_level (fst (x 0)) = target")
    case True
    from steady_stays[OF s this] show ?thesis by (intro exI[of _ 0]) blast
  next
    case False
    let ?l = "\<lambda>n. current_level (fst (x n))"
    have "\<exists>n. ?l n \<noteq> ?l 0" using stuck_is_target[OF s, of "?l 0"] False by blast
    define n where "n = (LEAST n. ?l n \<noteq> ?l 0)"
    have n: "?l n \<noteq> ?l 0" unfolding n_def by (rule LeastI_ex) fact
    then obtain k where k: "n = Suc k" by (cases n) auto
    have "\<not> (?l k \<noteq> ?l 0)" by (rule not_less_Least) (simp add: n_def[symmetric] k)
    then have l: "?l k = ?l 0" by simp
    with n k steady_moves[OF s, of k] have
      "?l n = target \<or> target < ?l 0 \<and> ?l n = ?l 0 - 1" by simp
    then have "distance_to target (?l n) < distance_to target (?l 0)"
      using False word_minus_one[of target "?l 0"]
      by (auto simp: distance_to_def word_less_nat_alt not_less word_unat_eq_iff)
    from less.hyps[of "\<lambda>m. x (n + m)", simplified, OF this steady_run_shift[OF s]]
    obtain j where "\<forall>m. ?l (n + (j + m)) = target" by blast
    then show ?thesis by (intro exI[of _ "n + j"]) (simp add: ac_simps)
  qed
qed

end
