(* ===== verification/Daemon_Properties.thy ===== *)
theory Daemon_Properties
  imports Daemon_Laws Psi_Laws Governor_Progress
begin

text \<open>
  The properties of the daemon: the KSM parameters over its whole life (snapshot, writes,
  restore, dry run), the governor's decisions, pressure classification, triggers and the
  configuration. The witnesses use a small sysfs directory and a host that codes snapshots.
\<close>

section \<open>A concrete machine for the witnesses\<close>

definition num_line :: "u64 \<Rightarrow> string" where
  "num_line n = show_nat (unat n) @ [newline]"

definition sys_files :: sysfs where
  "sys_files = map_of
     [(''run'', num_line 1), (''pages_to_scan'', num_line 500), (''sleep_millisecs'', num_line 100),
      (''max_page_sharing'', num_line 256), (''advisor_mode'', advisor_text ''scan-time''),
      (''advisor_target_scan_time'', num_line 200), (''advisor_max_cpu'', num_line 70),
      (''pages_shared'', num_line 12)]"

definition sys_config :: ksm_config where
  "sys_config =
     \<lparr>cfg_run = 1, cfg_pages_to_scan = 500, cfg_sleep_millisecs = 100, cfg_max_page_sharing = 256,
      cfg_smart_scan = 1, cfg_advisor_mode = ''scan-time'', cfg_advisor_target_scan_time = 200,
      cfg_advisor_max_cpu = 70, cfg_advisor_min_pages_to_scan = 500,
      cfg_advisor_max_pages_to_scan = 30000\<rparr>"

lemma read_sys_config: "read_config sys_files = Ok sys_config"
proof -
  have num: "read_u64 sys_files p = Ok n" if "sys_files p = Some (num_line n)" for p n
    using that by (simp add: num_line_def read_u64_line)
  have "read_u64 sys_files ''run'' = Ok 1" "read_u64 sys_files ''pages_to_scan'' = Ok 500"
    "read_u64 sys_files ''sleep_millisecs'' = Ok 100" "read_u64 sys_files ''max_page_sharing'' = Ok 256"
    "read_u64 sys_files ''advisor_target_scan_time'' = Ok 200" "read_u64 sys_files ''advisor_max_cpu'' = Ok 70"
    by (intro num, simp add: sys_files_def)+
  moreover have "read_u64 sys_files ''smart_scan'' = Err (SysfsError ''smart_scan'')"
    "read_u64 sys_files ''advisor_min_pages_to_scan'' = Err (SysfsError ''advisor_min_pages_to_scan'')"
    "read_u64 sys_files ''advisor_max_pages_to_scan'' = Err (SysfsError ''advisor_max_pages_to_scan'')"
    by (simp_all add: read_u64_def sys_files_def)
  moreover have "read_string sys_files ''advisor_mode'' = Ok ''scan-time''"
    by (rule read_advisor_text) (simp_all add: sys_files_def advisor_modes_def)
  ultimately show ?thesis by (simp add: read_config_def bind_def unwrap_or_def sys_config_def)
qed

lemma restorable_sys: "restorable sys_config"
  by (simp add: restorable_def sys_config_def advisor_modes_def in_range_def PARAM_RANGES_def)

definition sys_world :: ksm_world where
  "sys_world = \<lparr>ksm_files = sys_files, ksm_clock = 1000, clock_steps = [], ksm_log = []\<rparr>"

definition sys_snapshot :: ksm_snapshot where
  "sys_snapshot = \<lparr>snap_config = sys_config, snap_timestamp = ''now''\<rparr>"

definition sys_state :: state_files where
  "sys_state = \<lparr>snapshot_file = None, snapshot_tmp = None, sd_plan = []\<rparr>"

text \<open>The outside world stops KSM and turns the advisor off while the daemon runs.\<close>

definition sys_host :: daemon_host where
  "sys_host =
     \<lparr>dh_config_file = None, dh_parsed = (\<lambda>_. None), dh_ksm_exists = (\<lambda>_. True),
      dh_encode = (\<lambda>s. if s = sys_snapshot then Some ''json'' else None),
      dh_decode = (\<lambda>j. if j = ''json'' then Some sys_snapshot else None),
      dh_chrono = ''now'', dh_junk = [], dh_readable = True, dh_now = 0,
      dh_events = [GovernorTick (Some ''some avg10=50.00'') 60000,
        Outside (\<lambda>fs. fs(''run'' \<mapsto> num_line 0, ''advisor_mode'' \<mapsto> advisor_text ''none''))],
      dh_late = [],
      dh_signal = Ok ''SIGTERM''\<rparr>"

lemma sys_run: "\<exists>w' d'. run_daemon_with_shutdown kw sys_host False (sys_world, sys_state) = ((w', d'), Ok ())"
  by (rule run_ok[where cfg = animaksm_default and k = sys_config and json = "''json''" and sg = "''SIGTERM''"])
     (simp_all add: sys_host_def load_config_or_default_def sys_world_def read_sys_config sys_state_def sys_snapshot_def)

section \<open>KSM parameters over the life of the daemon\<close>

text \<open>
  C24: a daemon that shuts down normally gives the machine its KSM configuration back, as
  far as the kernel lets it. If the values found at the start are in the safe ranges and
  snapshots can be read back and survive coding, then after the restore, whatever the
  governor, the scanner and the outside world did before, either \<open>run\<close>, the sleep time, the
  sharing limit, the advisor and its two targets read as before the start (and
  \<open>pages_to_scan\<close> too unless the advisor owns it), or the kernel refuses one of the four
  numbers (such as a sharing limit while pages are shared): then those written before it
  read as at the start, and the advisor is left off. The state \<open>t\<close> is that at the restore,
  the last one of the run if every task ended within the timeout; else the tasks that
  outlive it continue from there.
\<close>

theorem daemon_restores:
  assumes "ksm_kernel kw" "MIN_UPDATE_INTERVAL_MS \<le> ksm_clock w"
    and "\<forall>s j. dh_encode host s = Some j \<longrightarrow> dh_decode host j = Some s" "dh_readable host"
    and "read_config (ksm_files w) = Ok kcfg" "restorable kcfg"
    and "run_daemon_with_shutdown kw host False (w, d) = ((w', d'), Ok ())"
  shows "\<exists>t. run_daemon_with_shutdown kw (host\<lparr>dh_late := []\<rparr>) False (w, d) = ((tk_ksm t, d'), Ok ())
    \<and> (restored kcfg (ksm_files (tk_ksm t))
       \<or> read_string (ksm_files (tk_ksm t)) ''advisor_mode'' = Ok ''none''
         \<and> refused_at kw (ksm_files (tk_ksm t)) (saved_numbers kcfg))
    \<and> w' = tk_ksm (foldl (daemon_step kw) t (dh_late host))"
  by (rule ksm_kernel.run_restores[OF assms(1,2) _ assms(4-7)]) (use assms(3) in blast)

text \<open>The kernel of the first witness refuses nothing, that of the second a sharing limit.\<close>

theorem daemon_restores_witness:
  "(\<exists>w' d'. run_daemon_with_shutdown sysfs_write sys_host False (sys_world, sys_state) = ((w', d'), Ok ())
      \<and> restored sys_config (ksm_files w'))
   \<and> (\<exists>w' d'. run_daemon_with_shutdown busy_write sys_host False (sys_world, sys_state) = ((w', d'), Ok ())
      \<and> (restored sys_config (ksm_files w') \<or> refused_at busy_write (ksm_files w') (saved_numbers sys_config)))"
proof -
  have out: "\<exists>w' d'. run_daemon_with_shutdown kw sys_host False (sys_world, sys_state) = ((w', d'), Ok ())
      \<and> (restored sys_config (ksm_files w') \<or> read_string (ksm_files w') ''advisor_mode'' = Ok ''none''
         \<and> refused_at kw (ksm_files w') (saved_numbers sys_config))" if kw: "ksm_kernel kw" for kw
  proof -
    obtain w' d' where r: "run_daemon_with_shutdown kw sys_host False (sys_world, sys_state) = ((w', d'), Ok ())"
      using sys_run by blast
    have host: "\<forall>s j. dh_encode sys_host s = Some j \<longrightarrow> dh_decode sys_host j = Some s"
      "dh_readable sys_host" "dh_late sys_host = []" by (simp_all add: sys_host_def)
    have world: "MIN_UPDATE_INTERVAL_MS \<le> ksm_clock sys_world" "read_config (ksm_files sys_world) = Ok sys_config"
      by (simp_all add: sys_world_def MIN_UPDATE_INTERVAL_MS_def read_sys_config)
    from daemon_restores[OF kw world(1) host(1,2) world(2) restorable_sys r, unfolded host(3)] r show ?thesis
      by (intro exI[of _ w'] exI[of _ d']) auto
  qed
  from out[OF sysfs.ksm_kernel_axioms] sysfs.never_refused[OF restorable_sys] out[OF busy.ksm_kernel_axioms]
  show ?thesis by blast
qed

text \<open>
  C25: a restore that fails leaves the advisor off, although the snapshot has it on: the
  advisor is switched to \<open>none\<close> first, and an error of one of the four writes that follow
  (such as EBUSY for \<open>max_page_sharing\<close>) returns before the saved mode is written back.
\<close>

theorem failed_restore_disables_advisor:
  assumes "ksm_kernel kw" "last_update c + MIN_UPDATE_INTERVAL_MS \<le> ksm_clock w" "\<not> dry_run c"
    and "restorable cfg" "restore_config kw c w cfg = (w', Err e)"
  shows "read_string (ksm_files w') ''advisor_mode'' = Ok ''none''"
  by (rule ksm_kernel.failed_restore_mode[OF assms(1) _ assms(3-5)]) (simp add: unlimited_def assms(2))

lemma busy_restore_fails: "isl (snd (restore_config busy_write \<lparr>last_update = 0, dry_run = False\<rparr> sys_world sys_config))"
  by code_simp

theorem failed_restore_disables_advisor_witness:
  "\<exists>w' e. restore_config busy_write \<lparr>last_update = 0, dry_run = False\<rparr> sys_world sys_config = (w', Err e)
    \<and> cfg_advisor_mode sys_config = ''scan-time'' \<and> read_string (ksm_files w') ''advisor_mode'' = Ok ''none''"
proof -
  obtain w' e where r: "restore_config busy_write \<lparr>last_update = 0, dry_run = False\<rparr> sys_world sys_config = (w', Err e)"
    using busy_restore_fails
    by (cases "restore_config busy_write \<lparr>last_update = 0, dry_run = False\<rparr> sys_world sys_config") (auto simp: isl_def)
  have "read_string (ksm_files w') ''advisor_mode'' = Ok ''none''"
    by (rule failed_restore_disables_advisor[OF busy.ksm_kernel_axioms _ _ restorable_sys r])
       (simp_all add: sys_world_def MIN_UPDATE_INTERVAL_MS_def)
  with r show ?thesis by (simp add: sys_config_def)
qed

text \<open>
  C26: every number that a run of the daemon writes to sysfs is within the safe range of
  its parameter: from the start through all ticks to the restore, whatever the pressure,
  the configuration, the snapshot file and the kernel say.
\<close>

theorem daemon_writes_safe:
  assumes "run_daemon_with_shutdown kw host dry (w, d) = ((w', d'), r)" "ksm_log w = []"
  shows "\<forall>(p, v) \<in> set (ksm_log w'). p = ''advisor_mode'' \<or> (\<exists>n. v = show_nat (unat n) \<and> in_range p n)"
proof -
  have "safe_log w" using assms(2) by (simp add: safe_log_def)
  from run_safe[OF assms(1) this] show ?thesis by (auto simp: safe_log_def safe_write_def)
qed

theorem daemon_writes_safe_witness:
  "list_all (\<lambda>(p, v). p = ''advisor_mode'' \<or> (\<exists>n. v = show_nat (unat n) \<and> in_range p n))
     (ksm_log (fst (fst (run_daemon_with_shutdown sysfs_write sys_host False (sys_world, sys_state)))))"
proof -
  obtain w' d' r where run: "run_daemon_with_shutdown sysfs_write sys_host False (sys_world, sys_state) = ((w', d'), r)"
    by (metis prod.exhaust)
  have "ksm_log sys_world = []" by (simp add: sys_world_def)
  from daemon_writes_safe[OF run this] run show ?thesis by (simp add: list_all_iff)
qed

text \<open>
  C27: a dry run of the daemon writes nothing to sysfs, takes no snapshot and restores
  none: only the outside world changes the files.
\<close>

theorem daemon_dry_run:
  assumes "run_daemon_with_shutdown kw host True (w, d) = ((w', d'), r)"
  shows "d' = d \<and> ksm_log w' = ksm_log w
    \<and> (list_all (\<lambda>e. \<not> is_outside e) (dh_events host @ dh_late host) \<longrightarrow> ksm_files w' = ksm_files w)"
  using run_dry[OF assms] by blast

theorem daemon_dry_run_witness:
  "ksm_log (fst (fst (run_daemon_with_shutdown sysfs_write sys_host True (sys_world, sys_state)))) = []"
proof -
  obtain w' d' r where run: "run_daemon_with_shutdown sysfs_write sys_host True (sys_world, sys_state) = ((w', d'), r)"
    by (metis prod.exhaust)
  from daemon_dry_run[OF run] run show ?thesis by (simp add: sys_world_def)
qed

section \<open>The controller\<close>

text \<open>
  C28: the snapshot file is replaced atomically: after \<open>take_snapshot\<close> it holds either the
  complete new snapshot of the present configuration (on success) or exactly what it held
  before (on any error), never a part of either.
\<close>

theorem snapshot_replaced_atomically:
  assumes "ksm_take_snapshot enc now junk w d = (d', r)"
  shows "if is_ok r
    then \<exists>cfg. read_config (ksm_files w) = Ok cfg
      \<and> snapshot_file d' = enc \<lparr>snap_config = cfg, snap_timestamp = now\<rparr> \<and> snapshot_file d' \<noteq> None
    else snapshot_file d' = snapshot_file d"
  using snapshot_atomic[OF assms] by (auto split: sum.splits)

theorem snapshot_replaced_atomically_witness:
  "\<exists>d' e. ksm_take_snapshot (\<lambda>_. Some ''new'') ''now'' ''ne'' sys_world
      \<lparr>snapshot_file = Some ''old'', snapshot_tmp = None, sd_plan = [True, False]\<rparr> = (d', Err e)
    \<and> snapshot_file d' = Some ''old''"
proof -
  let ?d = "\<lparr>snapshot_file = Some ''old'', snapshot_tmp = None, sd_plan = [True, False]\<rparr>"
  obtain d' e where t: "ksm_take_snapshot (\<lambda>_. Some ''new'') ''now'' ''ne'' sys_world ?d = (d', Err e)"
    by (simp add: ksm_take_snapshot_def sys_world_def read_sys_config next_ok_def write_tmp_def)
  from snapshot_replaced_atomically[OF t] t show ?thesis by simp
qed

text \<open>
  Beyond the properties: the rate limit of 500 milliseconds never applies. No method updates the time of the
  last write, so every write of a controller made by \<open>new\<close> goes to the kernel, however
  many writes came before it and however little time has passed.
\<close>

theorem rate_limit_never_applies:
  assumes "controller_new w path True = (w1, Ok c)" "MIN_UPDATE_INTERVAL_MS \<le> ksm_clock w"
    and "writes kw c w1 w2" "kw (ksm_files w2) p v = Some fs"
  shows "snd (write_param kw c w2 p v) = Ok () \<and> ksm_files (fst (write_param kw c w2 p v)) = fs
    \<and> ksm_log (fst (write_param kw c w2 p v)) = ksm_log w2 @ [(p, v)]"
proof -
  have c: "\<not> dry_run c" "unlimited c w1" using controller_new_careful(4)[OF assms(1) refl] assms(2) by simp_all
  have un: "unlimited c w2" by (rule writes_unlimited[OF assms(3) c(2)])
  obtain w3 t where n: "now_of w2 = (w3, t)" by fastforce
  have "\<not> t - last_update c < MIN_UPDATE_INTERVAL_MS"
    using un now_of_fields(4)[OF n] by (simp add: unlimited_def)
  with n now_of_fields[OF n] c(1) assms(4) show ?thesis by (simp add: write_param_def)
qed

theorem rate_limit_never_applies_witness:
  "ksm_log (fst (write_param dir_write \<lparr>last_update = 500, dry_run = False\<rparr>
      (fst (write_param dir_write \<lparr>last_update = 500, dry_run = False\<rparr> sys_world ''run'' ''0'')) ''run'' ''1''))
    = [(''run'', ''0''), (''run'', ''1'')]"
proof -
  let ?c = "\<lparr>last_update = 500, dry_run = False\<rparr>"
  let ?w = "fst (write_param dir_write ?c sys_world ''run'' ''0'')"
  have c: "controller_new sys_world ''ksm'' True = (sys_world, Ok ?c)"
    by (simp add: controller_new_def now_of_def sys_world_def MIN_UPDATE_INTERVAL_MS_def)
  have "writes dir_write ?c sys_world ?w" by (intro writes.intros)
  from rate_limit_never_applies[OF c _ this, of "''run''" "''1''"]
  have "ksm_log (fst (write_param dir_write ?c ?w ''run'' ''1'')) = ksm_log ?w @ [(''run'', ''1'')]"
    by (simp add: dir_write_def sys_world_def MIN_UPDATE_INTERVAL_MS_def)
  moreover have "ksm_log ?w = [(''run'', ''0'')]"
    by (simp add: write_param_def now_of_def sys_world_def MIN_UPDATE_INTERVAL_MS_def dir_write_def)
  ultimately show ?thesis by simp
qed

text \<open>
  Beyond the properties: a number that was written successfully is read back clamped into the safe range, and
  no other parameter has changed.
\<close>

theorem written_number_reads_back:
  assumes "ksm_kernel kw" "last_update c + MIN_UPDATE_INTERVAL_MS \<le> ksm_clock w" "\<not> dry_run c"
    and "p \<in> fst ` set PARAM_RANGES" "write_validated kw c w p n = (w', Ok u)"
  shows "read_u64 (ksm_files w') p = Ok (clamp_value p n) \<and> in_range p (clamp_value p n)
    \<and> (\<forall>q. q \<noteq> p \<longrightarrow> ksm_files w' q = ksm_files w q)"
proof -
  have un: "unlimited c w" by (simp add: unlimited_def assms(2))
  have "write_validated kw c w p (clamp_value p n) = (w', Ok u)"
    using assms(5) by (simp add: write_validated_def clamp_value_id)
  note N = ksm_kernel.set_num[OF assms(1) un assms(3,4) clamp_value_in_range this]
  show ?thesis using N(2,3) by auto
qed

theorem written_number_reads_back_witness:
  "\<exists>w'. write_validated sysfs_write \<lparr>last_update = 0, dry_run = False\<rparr> sys_world ''sleep_millisecs'' 1 = (w', Ok ())
    \<and> read_u64 (ksm_files w') ''sleep_millisecs'' = Ok 5"
proof -
  let ?c = "\<lparr>last_update = 0, dry_run = False\<rparr>"
  obtain w' where w: "write_validated sysfs_write ?c sys_world ''sleep_millisecs'' 1 = (w', Ok ())"
    by (simp add: write_validated_def write_param_def now_of_def sys_world_def MIN_UPDATE_INTERVAL_MS_def sysfs_write_def)
  have "clamp_value ''sleep_millisecs'' 1 = 5" by (simp add: clamp_value_def PARAM_RANGES_def clamp_def)
  with written_number_reads_back[OF sysfs.ksm_kernel_axioms _ _ _ w] w show ?thesis
    by (simp add: sys_world_def MIN_UPDATE_INTERVAL_MS_def)
qed

section \<open>The governor\<close>

text \<open>
  C29: in every run of the governor, whatever the kernel answers and other tasks do, the
  level stays within the profile table, never falls back to 0 once left, every number
  written is within the safe ranges, and with the advisor in charge the governor never
  writes \<open>pages_to_scan\<close> and never stops KSM.
\<close>

theorem governor_run_invariant:
  assumes "current_level g \<le> 5" "full_scans_at_level g = 0" "ksm_log w = []"
    and "\<forall>s v. ksm_log (snd (env (s, v))) = ksm_log v"
    and "governor_run kw env g st w es = (g', st', w')"
  shows "current_level g' \<le> 5 \<and> (1 \<le> current_level g \<longrightarrow> 1 \<le> current_level g') \<and> safe_log w'
    \<and> (use_advisor (gov_config g) \<longrightarrow>
         (\<forall>(p, v) \<in> set (ksm_log w'). p \<noteq> ''pages_to_scan'' \<and> (p = ''run'' \<longrightarrow> v \<noteq> ''0'')))"
proof -
  have inv: "gov_inv g" by (simp add: gov_inv_def assms(1,2))
  have w: "safe_log w" "advisor_respected w" by (simp_all add: safe_log_def advisor_respected_def assms(3))
  have "keeps g (governor_start kw g w) g' w'"
    using governor_loop_keeps[OF inv _ assms(4)[rule_format]] assms(5) by (simp add: governor_run_def)
  with governor_start_safe(1)[of w kw g] governor_start_safe(2)[of g w kw] w show ?thesis
    unfolding keeps_def gov_inv_def advisor_respected_def by blast
qed

definition calm_psi :: psi_stats where
  "calm_psi = psi_stats_default"

definition some_governor :: "u8 \<Rightarrow> governor" where
  "some_governor level = (governor_new governor_default \<lparr>last_update = 500, dry_run = False\<rparr> 0)\<lparr>current_level := level\<rparr>"

theorem governor_run_invariant_witness:
  "safe_log (snd (snd (governor_run sysfs_write id (some_governor 3) (governor_state_default 0) sys_world
      [PollTick (Some ''full avg10=90.00'') 60000, ShutdownChanged True])))"
proof -
  obtain g' st' w' where r: "governor_run sysfs_write id (some_governor 3) (governor_state_default 0) sys_world
      [PollTick (Some ''full avg10=90.00'') 60000, ShutdownChanged True] = (g', st', w')" by (metis prod.exhaust)
  have "safe_log w'"
    using governor_run_invariant[OF _ _ _ _ r]
    by (simp add: some_governor_def governor_new_def sys_world_def word_le_nat_alt)
  with r show ?thesis by simp
qed

text \<open>The readings of one tick: an average of 0 or of 50 percent, a profit, a scan count.\<close>

definition psi_of :: "rat \<Rightarrow> psi_stats" where
  "psi_of x = psi_stats_default\<lparr>some_line := psi_line_default\<lparr>avg10 := Finite x\<rparr>\<rparr>"

definition stats_of :: "int \<Rightarrow> u64 \<Rightarrow> ksm_stats" where
  "stats_of profit scans =
     \<lparr>pages_shared = 1, pages_sharing = 1, pages_unshared = 0, pages_volatile = 0, pages_scanned = 0,
      pages_skipped = 0, full_scans = scans, general_profit = profit, ksm_zero_pages = 0,
      stable_node_chains = 0, stable_node_dups = 0\<rparr>"

lemma classify_psi_of:
  "classify (psi_of 0) (Finite 5) (Finite 2) = Idle" "classify (psi_of 50) (Finite 5) (Finite 2) = High"
proof -
  have some: "avg10 (some_line (psi_of x)) = Finite x" "avg10 (full_line (psi_of x)) = Finite 0" for x
    by (simp_all add: psi_of_def psi_stats_default_def psi_line_default_def)
  show "classify (psi_of 0) (Finite 5) (Finite 2) = Idle"
    by (simp add: classify_def psi_score_def weights some f32_small)
  obtain y where y: "f32_round (251658250 / 16777216) = Finite y" "10 \<le> y" "y \<le> 16"
    by (rule f32_between[OF _ _ f32_small(2,3), of "251658250 / 16777216"]) simp_all
  obtain z where z: "f32_round y = Finite z" "10 \<le> z" "z \<le> 16"
    by (rule f32_between[OF y(2,3) f32_small(2,3)])
  from y z show "classify (psi_of 50) (Finite 5) (Finite 2) = High"
    by (simp add: classify_def psi_score_def weights some f32_small)
qed

lemma governor_thresholds: "psi_some_threshold governor_default = Finite 5" "psi_full_threshold governor_default = Finite 2"
  by (simp_all add: governor_default_def)

text \<open>
  C30: convergence: if every tick makes a profit, the pressure always asks for the same
  level and time goes on, the governor reaches that level and stays there, from whatever
  level and counters it starts, and although hysteresis, cooldown and the stabilization
  window hold changes back and lose some. Between two ticks other tasks may change the
  shared state and sysfs in any way that keeps the time of the governor's last action.
\<close>

theorem governor_converges:
  assumes "gov_config (fst (x 0)) = cfg"
    and "\<And>n. 0 \<le> general_profit (fst (snd (rd n)))"
    and "\<And>n. pressure_to_level (classify (fst (rd n)) (psi_some_threshold cfg) (psi_full_threshold cfg)) = target"
    and "\<And>d. \<exists>n. \<forall>m. d \<le> snd (snd (rd (n + m)))"
    and "\<And>n. \<exists>st w. last_governor_action st = last_governor_action (fst (snd (x n)))
      \<and> x (Suc n) = tick_reading kw (fst (x n), st, w) (rd n)"
  shows "\<exists>n. \<forall>m. current_level (fst (x (n + m))) = target"
  by (rule steady_reaches[of kw cfg target x rd]) (use assms in \<open>simp add: steady_run_def reading_target_def\<close>)

primrec busy_run :: "nat \<Rightarrow> governor \<times> governor_state \<times> ksm_world" where
  "busy_run 0 = (some_governor 1, governor_state_default 0, sys_world)"
| "busy_run (Suc n) = tick_reading sysfs_write (busy_run n) (psi_of 50, stats_of 0 0, n * 1000)"

theorem governor_converges_witness:
  "\<exists>n. \<forall>m. current_level (fst (busy_run (n + m))) = 4"
proof (rule governor_converges[of _ governor_default "\<lambda>n. (psi_of 50, stats_of 0 0, n * 1000)" 4 sysfs_write])
  show "gov_config (fst (busy_run 0)) = governor_default" by (simp add: some_governor_def governor_new_def)
  show "0 \<le> general_profit (fst (snd (psi_of 50, stats_of 0 0, n * 1000)))" for n :: nat
    by (simp add: stats_of_def)
  show "pressure_to_level (classify (fst (psi_of 50, stats_of 0 0, n * 1000)) (psi_some_threshold governor_default)
      (psi_full_threshold governor_default)) = 4" for n :: nat
    by (simp add: governor_thresholds classify_psi_of)
  show "\<exists>n. \<forall>m. d \<le> snd (snd (psi_of 50, stats_of 0 0, (n + m) * 1000))" for d :: nat
    by (intro exI[of _ d]) simp
  show "\<exists>st w. last_governor_action st = last_governor_action (fst (snd (busy_run n)))
      \<and> busy_run (Suc n) = tick_reading sysfs_write (fst (busy_run n), st, w) (psi_of 50, stats_of 0 0, n * 1000)" for n
    by (intro exI[of _ "fst (snd (busy_run n))"] exI[of _ "snd (snd (busy_run n))"]) simp
qed

text \<open>
  C31: whatever the profit, a tick changes the level in at most two parts. One follows the
  pressure, only when the last action of the governor is at least \<open>stabilization_secs\<close> ago:
  to the target when rising, one down when falling. The other is one step down for a
  negative profit, and it does not wait. So a level that rises, and any change without a
  loss, has waited; every change is recorded as the last action.
\<close>

theorem level_changes_damped:
  assumes "tick_with_readings kw (g, st, w) psi ks now = (g', st', w')" "current_level g' \<noteq> current_level g"
    and "target = pressure_to_level (classify psi (psi_some_threshold (gov_config g)) (psi_full_threshold (gov_config g)))"
  shows "last_governor_action st' = now
    \<and> (\<exists>l. (l = current_level g
             \<or> unat (stabilization_secs (gov_config g)) * 1000 \<le> now - last_governor_action st
               \<and> (current_level g < target \<and> l = target \<or> target < current_level g \<and> l = current_level g - 1))
          \<and> (current_level g' = l \<or> general_profit ks < 0 \<and> 1 < l \<and> current_level g' = l - 1))"
  using tick_change[OF assms(1,2)] by (simp add: assms(3) reading_target_def)

lemma rising_tick:
  "current_level (fst (tick_with_readings kw (some_governor 1, governor_state_default 0, w) (psi_of 50) (stats_of 0 0) 30000)) = 4"
  by (simp add: tick_with_readings_def some_governor_def governor_new_def observe_psi_stability_def Let_def
      governor_thresholds classify_psi_of compute_transition_def saturating_add_u8_def damped_change_def
      profit_check_def apply_profile_def governor_state_default_def stats_of_def split: prod.split)
     (simp add: governor_default_def)

theorem level_changes_damped_witness:
  "\<exists>g' st' w'. tick_with_readings sysfs_write (some_governor 1, governor_state_default 0, sys_world) (psi_of 50)
      (stats_of 0 0) 30000 = (g', st', w') \<and> current_level g' = 4 \<and> last_governor_action st' = 30000"
proof -
  obtain g' st' w' where t: "tick_with_readings sysfs_write (some_governor 1, governor_state_default 0, sys_world)
      (psi_of 50) (stats_of 0 0) 30000 = (g', st', w')" by (metis prod.exhaust)
  have l: "current_level g' = 4" using rising_tick[of sysfs_write sys_world] t by simp
  have c: "current_level (some_governor 1) = 1" by (simp add: some_governor_def)
  with level_changes_damped[OF t _ refl] l t show ?thesis by simp
qed

text \<open>
  Beyond the properties: hysteresis: as long as fewer than \<open>hysteresis_readings\<close> readings below the level have
  been taken, no run of such readings, however low, lowers the level.
\<close>

theorem falling_needs_readings:
  assumes "\<forall>rd \<in> set rds. 0 \<le> general_profit (fst (snd rd))
      \<and> reading_target (gov_config g) rd < current_level g"
    and "unat (hysteresis_count g) + length rds < unat (hysteresis_readings (gov_config g))"
  shows "current_level (fst (foldl (tick_reading kw) (g, st, w) rds)) = current_level g"
  by (rule ticks_down_wait[OF assms])

theorem falling_needs_readings_witness:
  "current_level (fst (foldl (tick_reading sysfs_write) (some_governor 3, governor_state_default 0, sys_world)
     [(psi_of 0, stats_of 0 0, 60000), (psi_of 0, stats_of 0 0, 62000), (psi_of 0, stats_of 0 0, 64000)])) = 3"
  using falling_needs_readings[of "[(psi_of 0, stats_of 0 0, 60000), (psi_of 0, stats_of 0 0, 62000),
      (psi_of 0, stats_of 0 0, 64000)]" "some_governor 3" sysfs_write "governor_state_default 0" sys_world]
  by (simp add: some_governor_def governor_new_def reading_target_def governor_thresholds classify_psi_of stats_of_def)
     (simp add: governor_default_def)

text \<open>
  C32: a change of level that falls into the stabilization window is not postponed but
  lost: the level stays, yet the transition function has already reset its counters and the
  time the level was entered, so hysteresis and cooldown start over.
\<close>

theorem deferred_change_lost:
  assumes "tick_with_readings kw (g, st, w) psi ks now = (g', st', w')" "0 \<le> general_profit ks"
    and "now - last_governor_action st < unat (stabilization_secs (gov_config g)) * 1000"
    and "snd (compute_transition (observe_psi_stability g psi) (pressure_to_level
       (classify psi (psi_some_threshold (gov_config g)) (psi_full_threshold (gov_config g)))) now) \<noteq> current_level g"
  shows "current_level g' = current_level g \<and> hysteresis_count g' = 0 \<and> ramp_up_count g' = 0
    \<and> level_entered_at g' = now \<and> w' = w"
proof -
  obtain g2 r where c: "compute_transition (observe_psi_stability g psi) (pressure_to_level
       (classify psi (psi_some_threshold (gov_config g)) (psi_full_threshold (gov_config g)))) now = (g2, r)"
    by fastforce
  have "r \<noteq> current_level g" using assms(4) c by simp
  from deferred_change[OF assms(1-3) c this] show ?thesis by blast
qed

theorem deferred_change_lost_witness:
  "level_entered_at (fst (tick_with_readings sysfs_write (some_governor 1, governor_state_default 0, sys_world)
     (psi_of 50) (stats_of 0 0) 20000)) = 20000
   \<and> current_level (fst (tick_with_readings sysfs_write (some_governor 1, governor_state_default 0, sys_world)
     (psi_of 50) (stats_of 0 0) 20000)) = 1"
proof -
  obtain g' st' w' where t: "tick_with_readings sysfs_write (some_governor 1, governor_state_default 0, sys_world)
      (psi_of 50) (stats_of 0 0) 20000 = (g', st', w')" by (metis prod.exhaust)
  have cfg: "gov_config (some_governor 1) = governor_default" "current_level (some_governor 1) = 1"
    by (simp_all add: some_governor_def governor_new_def)
  have "snd (compute_transition (observe_psi_stability (some_governor 1) (psi_of 50)) 4 20000) = 4"
    by (simp add: compute_transition_def cfg saturating_add_u8_def)
  moreover have "stabilization_secs governor_default = 30" by (simp add: governor_default_def)
  ultimately show ?thesis
    using deferred_change_lost[OF t] t
    by (simp add: cfg governor_thresholds classify_psi_of stats_of_def governor_state_default_def)
qed

text \<open>
  C33: the level after a tick of a governor that has been running, for every pressure and
  profit. The pressure gives the level \<open>l\<close>: the result of hysteresis and cooldown if the
  stabilization window is over, and the old level if not. If the profit is negative and the
  machine has done more than ten full scans since it started, the level is then \<open>l - 1\<close>, but
  never below 1: this step asks neither the window nor how long the level has been held,
  since the count of scans at the level is 0 in every state of a run.
\<close>

theorem negative_profit_reduces:
  assumes "governor_run kw env (governor_new cfg c t0) st0 w0 es = (g, st1, w1)"
    and "tick_with_readings kw (g, st, w) psi ks now = (g', st', w')"
    and "compute_transition (observe_psi_stability g psi) (pressure_to_level
       (classify psi (psi_some_threshold (gov_config g)) (psi_full_threshold (gov_config g)))) now = (g2, r)"
    and "l = (if unat (stabilization_secs (gov_config g)) * 1000 \<le> now - last_governor_action st
              then r else current_level g)"
  shows "current_level g' = (if general_profit ks < 0 \<and> 10 < full_scans ks \<and> 1 < l then l - 1 else l)"
proof -
  have "gov_inv g"
    using governor_loop_inv[OF _ assms(1)[unfolded governor_run_def]] by (simp add: gov_inv_def governor_new_def)
  then show ?thesis by (intro tick_level[OF assms(2) _ assms(3,4)]) (simp add: gov_inv_def)
qed

text \<open>High pressure lifts a new governor to level 4, and the loss takes it to 3 in the same tick.\<close>

theorem negative_profit_reduces_witness:
  "current_level (fst (tick_with_readings sysfs_write (some_governor 0, governor_state_default 0, sys_world)
     (psi_of 50) (stats_of (- 1) 11) 30000)) = 3"
proof -
  let ?c = "\<lparr>last_update = 500, dry_run = False\<rparr>"
  have g: "some_governor 0 = governor_new governor_default ?c 0"
    by (simp add: some_governor_def governor_new_def)
  have f: "gov_config (some_governor 0) = governor_default" "current_level (some_governor 0) = 0"
    by (simp_all add: g governor_new_def)
  obtain st1 w1 where run: "governor_run sysfs_write id (governor_new governor_default ?c 0)
      (governor_state_default 0) sys_world [] = (some_governor 0, st1, w1)" by (simp add: governor_run_def g)
  obtain g' st' w' where t: "tick_with_readings sysfs_write (some_governor 0, governor_state_default 0, sys_world)
      (psi_of 50) (stats_of (- 1) 11) 30000 = (g', st', w')" by (metis prod.exhaust)
  obtain g2 r where tr: "compute_transition (observe_psi_stability (some_governor 0) (psi_of 50)) 4 30000 = (g2, r)"
    by fastforce
  then have "r = 4" by (simp add: compute_transition_def f saturating_add_u8_def)
  moreover have "stabilization_secs governor_default = 30" by (simp add: governor_default_def)
  ultimately have "current_level g' = 4 - 1"
    using negative_profit_reduces[OF run t _ refl, of g2 r] tr
    by (simp add: f governor_thresholds classify_psi_of stats_of_def governor_state_default_def)
  with t show ?thesis by simp
qed

section \<open>Pressure and configuration\<close>

text \<open>
  C34: classification is monotone: if both ten-second averages of one reading are at most
  those of another, its level is at most that of the other, for all thresholds, although
  the weights and every product and sum are rounded to 24 bits.
\<close>

theorem classify_monotone:
  assumes "nonneg (avg10 (some_line s))" "nonneg (avg10 (full_line s))"
    and "fle (avg10 (some_line s)) (avg10 (some_line t))" "fle (avg10 (full_line s)) (avg10 (full_line t))"
  shows "classify s some_threshold full_threshold \<le> classify t some_threshold full_threshold"
  by (rule classify_mono) (simp add: no_pressure_less_def assms)

theorem classify_monotone_witness:
  "classify (psi_of 0) (Finite 5) (Finite 2) \<le> classify (psi_of 50) (Finite 5) (Finite 2)"
  by (rule classify_monotone) (simp_all add: psi_of_def psi_stats_default_def psi_line_default_def)

text \<open>
  C35: file descriptors of triggers: a trigger that was created owns one open descriptor,
  which its drop closes; a failed open leaves the table alone; but when the first write of
  the trigger string fails, the descriptor stays open although no trigger exists.
\<close>

theorem trigger_descriptors:
  assumes "trigger_new w path open_ok write_ok k threshold window = (w', r)" "next_fd w \<notin> set (open_fds w)"
  shows "case r of
      Inr t \<Rightarrow> open_fds w' = trigger_fd t # open_fds w \<and> open_fds (trigger_drop w' t) = open_fds w
        \<and> fd_writes w' = fd_writes w @ [(trigger_fd t, trigger_string k threshold window)]
    | Inl _ \<Rightarrow> open_fds w' = (if open_ok then next_fd w # open_fds w else open_fds w)"
proof (cases r)
  case (Inl e)
  with trigger_new_fds[OF assms] show ?thesis by simp
next
  case (Inr t)
  then have "trigger_str t = trigger_string k threshold window"
    using assms(1) by (auto simp: trigger_new_def write_trigger_to_path_def Let_def split: if_splits)
  with Inr trigger_new_fds[OF assms] show ?thesis by simp
qed

theorem trigger_descriptors_witness:
  "\<exists>w' e. trigger_new \<lparr>open_fds = [0, 1, 2], next_fd = 3, fd_writes = []\<rparr> ''memory'' True False TriggerSome 150000 1000000
      = (w', Err e) \<and> open_fds w' = [3, 0, 1, 2]"
proof -
  let ?w = "\<lparr>open_fds = [0, 1, 2], next_fd = 3, fd_writes = []\<rparr>"
  obtain w' e where t: "trigger_new ?w ''memory'' True False TriggerSome 150000 1000000 = (w', Err e)"
    by (simp add: trigger_new_def write_trigger_to_path_def)
  from trigger_descriptors[OF t] t show ?thesis by simp
qed

text \<open>
  Beyond the properties: a loaded configuration has thresholds between 0 and 100, a ratio in (0, 1], ordered
  ranges and positive sizes, or a threshold or the ratio is NaN: a comparison with NaN is
  false, so validation accepts it.
\<close>

theorem loaded_config_ranges:
  assumes "config_load file parsed = Ok c"
  shows "(psi_some_threshold (governor_cfg c) = NaN
        \<or> fle (Finite 0) (psi_some_threshold (governor_cfg c)) \<and> fle (psi_some_threshold (governor_cfg c)) (Finite 100))
    \<and> (psi_full_threshold (governor_cfg c) = NaN
        \<or> fle (Finite 0) (psi_full_threshold (governor_cfg c)) \<and> fle (psi_full_threshold (governor_cfg c)) (Finite 100))
    \<and> (duplicate_ratio_threshold (scanner_cfg c) = NaN
        \<or> flt (Finite 0) (duplicate_ratio_threshold (scanner_cfg c)) \<and> fle (duplicate_ratio_threshold (scanner_cfg c)) (Finite 1))
    \<and> fst (advisor_scan_time_range (governor_cfg c)) < snd (advisor_scan_time_range (governor_cfg c))
    \<and> fst (max_page_sharing_range (governor_cfg c)) < snd (max_page_sharing_range (governor_cfg c))
    \<and> min_anon_rss_mb (scanner_cfg c) \<noteq> 0 \<and> device_size_gb (swap_proxy c) \<noteq> 0
    \<and> dedup_table_max_entries (swap_proxy c) \<noteq> 0"
proof -
  have not_flt: "\<not> flt x y \<longleftrightarrow> x = NaN \<or> y = NaN \<or> fle y x" "\<not> fle x y \<longleftrightarrow> x = NaN \<or> y = NaN \<or> flt y x" for x y
    by (cases x; cases y; auto)+
  have "validate c = Ok ()"
    using assms by (auto simp: config_load_def split: option.splits sum.splits)
  then show ?thesis
    by (auto simp: validate_def Let_def not_flt not_le split: if_splits)
qed

text \<open>The witness is a configuration whose first threshold is NaN.\<close>

definition nan_config :: animaksm_config where
  "nan_config = animaksm_default\<lparr>governor_cfg := governor_default\<lparr>psi_some_threshold := NaN\<rparr>\<rparr>"

lemma load_nan: "config_load (Some ''nan'') (\<lambda>_. Some nan_config) = Ok nan_config"
proof -
  have "f32_round (15 / 100) = Finite (5033165 / 33554432)" by code_simp
  then show ?thesis
    by (simp add: config_load_def validate_def nan_config_def animaksm_default_def governor_default_def
        scanner_default_def swap_proxy_default_def Let_def)
qed

theorem loaded_config_ranges_witness:
  "config_load (Some ''nan'') (\<lambda>_. Some nan_config) = Ok nan_config
    \<and> psi_some_threshold (governor_cfg nan_config) = NaN
    \<and> fle (psi_full_threshold (governor_cfg nan_config)) (Finite 100)"
  using load_nan loaded_config_ranges[OF load_nan]
  by (simp add: nan_config_def animaksm_default_def governor_default_def)

end
