(* ===== verification/Procfs_Laws.thy ===== *)
theory Procfs_Laws
  imports Procfs
begin

text \<open>
  The parser of \<open>/proc/PID/maps\<close> against the format that the kernel prints: hexadecimal
  addresses padded to eight digits, fields separated by single spaces, and the path after
  any number of spaces. What is printed is read back, for whole files.
\<close>

section \<open>Words and pieces\<close>

definition is_word :: "string \<Rightarrow> bool" where
  "is_word w \<longleftrightarrow> w \<noteq> [] \<and> list_all (\<lambda>c. \<not> is_space c) w"

lemma space_is_space [simp]: "is_space CHR '' ''" "is_space newline" "is_space carriage"
  by (simp_all add: is_space_def newline_def carriage_def)

lemma words_of_nonspace:
  "list_all (\<lambda>c. \<not> is_space c) s \<Longrightarrow> words_of acc (s @ t) = words_of (rev s @ acc) t"
  by (induction s arbitrary: acc) auto

lemma split_word_space:
  assumes "is_word w" "is_space c"
  shows "split_whitespace (w @ c # t) = w # split_whitespace t"
  using assms words_of_nonspace[of w "[]" "c # t"] by (simp add: split_whitespace_def is_word_def)

lemma split_word [simp]: "is_word w \<Longrightarrow> split_whitespace w = [w]"
  using words_of_nonspace[of w "[]" "[]"] by (simp add: split_whitespace_def is_word_def)

lemma split_spaces [simp]: "split_whitespace (replicate n CHR '' '' @ t) = split_whitespace t"
  by (induction n) (simp_all add: split_whitespace_def)

lemma words_are_words:
  "list_all (\<lambda>c. \<not> is_space c) acc \<Longrightarrow> list_all is_word (words_of acc s)"
  by (induction s arbitrary: acc) (auto simp: is_word_def)

lemma split_char_at: "c \<notin> set s \<Longrightarrow> split_char c (s @ c # t) = s # split_char c t"
  by (induction s) auto

text \<open>A file of lines that end with a newline is split into these lines.\<close>

lemma split_char_lines:
  "list_all (\<lambda>l. newline \<notin> set l) ls \<Longrightarrow> split_char newline (concat (map (\<lambda>l. l @ [newline]) ls)) = ls @ [[]]"
  by (induction ls) (auto simp: split_char_at)

lemma rust_lines_file:
  assumes "list_all (\<lambda>l. newline \<notin> set l \<and> (l \<noteq> [] \<longrightarrow> last l \<noteq> carriage)) ls"
  shows "rust_lines (concat (map (\<lambda>l. l @ [newline]) ls)) = ls"
proof -
  have "list_all (\<lambda>l. newline \<notin> set l) ls" using assms by (auto simp: list_all_iff)
  moreover have "map strip_cr ls = ls" using assms by (induction ls) (auto simp: strip_cr_def)
  ultimately show ?thesis by (simp add: rust_lines_def split_char_lines Let_def)
qed

section \<open>Hexadecimal numbers\<close>

definition hex_char :: "nat \<Rightarrow> char" where
  "hex_char d = char_of (if d < 10 then 48 + d else 87 + d)"

fun show_hex :: "nat \<Rightarrow> string" where
  "show_hex n = (if n < 16 then [hex_char n] else show_hex (n div 16) @ [hex_char (n mod 16)])"

declare show_hex.simps [simp del]

text \<open>\<open>%08lx\<close>.\<close>

definition show_hex8 :: "u64 \<Rightarrow> string" where
  "show_hex8 w = (let s = show_hex (unat w) in replicate (8 - length s) (hex_char 0) @ s)"

lemma of_hex_char: "d < 16 \<Longrightarrow> of_char (hex_char d) = (if d < 10 then 48 + d else 87 + d)"
  by (simp add: hex_char_def of_char_of take_bit_nat_eq_self)

lemma digit_val_hex: "d < 16 \<Longrightarrow> digit_val 16 (hex_char d) = Some d"
  by (simp add: digit_val_def of_hex_char)

lemma hex_char_plain:
  assumes "d < 16"
  shows "\<not> is_space (hex_char d)" "hex_char d \<noteq> CHR ''+''" "hex_char d \<noteq> CHR ''-''"
  using of_hex_char[OF assms] by (auto simp: is_space_def split: if_splits)

lemma digits_val_show_hex: "digits_val 16 0 (show_hex n) = Some n"
proof (induction n rule: show_hex.induct)
  case (1 n)
  then show ?case
    by (subst show_hex.simps) (auto simp: digits_val_append digit_val_hex div_mult_mod_eq)
qed

lemma show_hex_chars: "list_all (\<lambda>c. \<exists>d < 16. c = hex_char d) (show_hex n)"
proof (induction n rule: show_hex.induct)
  case (1 n)
  have m: "n mod 16 < 16" by simp
  show ?case
  proof (cases "n < 16")
    case True
    then show ?thesis by (subst show_hex.simps) auto
  next
    case False
    from 1[OF False] False m show ?thesis by (subst show_hex.simps) (auto simp del: mod_less_divisor)
  qed
qed

lemma show_hex8_chars: "list_all (\<lambda>c. \<exists>d < 16. c = hex_char d) (show_hex8 w)"
proof -
  have "(0 :: nat) < 16" by simp
  then have "\<exists>d < 16. hex_char 0 = hex_char d" by blast
  with show_hex_chars[of "unat w"] show ?thesis by (auto simp: show_hex8_def Let_def list_all_iff)
qed

lemma show_hex8_nonempty: "show_hex8 w \<noteq> []"
  by (simp add: show_hex8_def Let_def show_hex.simps[of "unat w"])

lemma show_hex8_word: "is_word (show_hex8 w)" "CHR ''-'' \<notin> set (show_hex8 w)" "strip_plus (show_hex8 w) = show_hex8 w"
proof -
  have c: "\<not> is_space c \<and> c \<noteq> CHR ''+'' \<and> c \<noteq> CHR ''-''" if "c \<in> set (show_hex8 w)" for c
  proof -
    from that show_hex8_chars[of w] obtain d where "d < 16" "c = hex_char d" by (auto simp: list_all_iff)
    with hex_char_plain[of d] show ?thesis by simp
  qed
  then show "is_word (show_hex8 w)" "CHR ''-'' \<notin> set (show_hex8 w)"
    using show_hex8_nonempty[of w] by (auto simp: is_word_def list_all_iff)
  show "strip_plus (show_hex8 w) = show_hex8 w"
    using c by (auto simp: strip_plus_def split: list.split)
qed

lemma digits_val_zeros: "digits_val 16 0 (replicate k (hex_char 0) @ s) = digits_val 16 0 s"
  by (induction k) (simp_all add: digit_val_hex)

lemma parse_show_hex8: "parse_hex_u64 (show_hex8 w) = Some w"
proof -
  have "digits_val 16 0 (show_hex8 w) = Some (unat w)"
    by (simp add: show_hex8_def Let_def digits_val_zeros digits_val_show_hex)
  then show ?thesis
    using unat_u64_less[of w] show_hex8_nonempty
    by (simp add: parse_hex_u64_def parse_nat_def show_hex8_word(3) Let_def)
qed

section \<open>Lines of a maps file\<close>

text \<open>The kernel separates the inode from the path by one space and some padding.\<close>

definition maps_line :: "nat \<Rightarrow> maps_entry \<Rightarrow> string" where
  "maps_line pad m =
     (show_hex8 (map_start m) @ ''-'' @ show_hex8 (map_end m)) @ '' '' @ perms m @ '' ''
       @ show_hex8 (map_offset m) @ '' '' @ dev m @ '' '' @ show_nat (unat (inode m)) @ '' ''
       @ replicate pad CHR '' '' @ pathname m"

text \<open>Fields without white space, and a path without runs of spaces or spaces at its ends.\<close>

definition printable_entry :: "maps_entry \<Rightarrow> bool" where
  "printable_entry m \<longleftrightarrow> is_word (perms m) \<and> is_word (dev m)
     \<and> join_space (split_whitespace (pathname m)) = pathname m"

lemma show_nat_word: "is_word (show_nat n)"
  using show_nat_digits[of _ n] digit_char_neq by (auto simp: is_word_def list_all_iff)

lemma range_word: "is_word (show_hex8 a @ CHR ''-'' # show_hex8 b)"
  using show_hex8_word(1) by (auto simp: is_word_def is_space_def)

lemma maps_line_words:
  assumes "printable_entry m"
  shows "split_whitespace (maps_line pad m) =
    [show_hex8 (map_start m) @ CHR ''-'' # show_hex8 (map_end m), perms m, show_hex8 (map_offset m), dev m,
     show_nat (unat (inode m))] @ split_whitespace (pathname m)"
  using assms split_word_space[OF range_word] split_word_space[OF show_hex8_word(1)] split_word_space[OF show_nat_word]
  by (simp add: maps_line_def printable_entry_def split_word_space)

lemma parse_maps_line_print:
  assumes "printable_entry m"
  shows "parse_maps_line (maps_line pad m) = Some m"
proof -
  have "split_char CHR ''-'' (show_hex8 a @ CHR ''-'' # show_hex8 b) = [show_hex8 a, show_hex8 b]" for a b
    by (simp add: split_char_at split_char_none show_hex8_word(2))
  moreover have "split_whitespace (pathname m) = [] \<Longrightarrow> [] = pathname m" "join_space (split_whitespace (pathname m)) = pathname m"
    using assms by (auto simp: printable_entry_def join_space_def)
  ultimately show ?thesis
    using assms by (cases m) (simp add: parse_maps_line_def maps_line_words parse_show_hex8 parse_show_u64)
qed

lemma word_no_newline: "is_word w \<Longrightarrow> newline \<notin> set w \<and> carriage \<notin> set w"
  by (auto simp: is_word_def list_all_iff)

lemma join_words_no_newline:
  assumes "list_all is_word ws"
  shows "newline \<notin> set (join_space ws) \<and> carriage \<notin> set (join_space ws)"
proof -
  have "\<forall>w \<in> set ws. newline \<notin> set w \<and> carriage \<notin> set w"
    using assms word_no_newline by (auto simp: list_all_iff)
  moreover have "newline \<noteq> CHR '' ''" "carriage \<noteq> CHR '' ''" by (simp_all add: newline_def carriage_def)
  ultimately show ?thesis by (cases ws) (auto simp: join_space_def)
qed

lemma maps_line_plain:
  assumes "printable_entry m"
  shows "newline \<notin> set (maps_line pad m)" "carriage \<notin> set (maps_line pad m)"
proof -
  have "list_all is_word (split_whitespace (pathname m))"
    unfolding split_whitespace_def by (rule words_are_words) simp
  from join_words_no_newline[OF this] assms have "newline \<notin> set (pathname m)" "carriage \<notin> set (pathname m)"
    by (simp_all add: printable_entry_def)
  then show "newline \<notin> set (maps_line pad m)" "carriage \<notin> set (maps_line pad m)"
    using assms word_no_newline[OF show_hex8_word(1)] word_no_newline[OF show_nat_word] word_no_newline[of "perms m"]
      word_no_newline[of "dev m"]
    by (auto simp: maps_line_def printable_entry_def newline_def carriage_def)
qed

lemma rust_lines_maps:
  assumes "list_all printable_entry ms"
  shows "rust_lines (concat (map (\<lambda>m. maps_line (pad m) m @ [newline]) ms)) = map (\<lambda>m. maps_line (pad m) m) ms"
proof -
  have "list_all (\<lambda>l. newline \<notin> set l \<and> (l \<noteq> [] \<longrightarrow> last l \<noteq> carriage)) (map (\<lambda>m. maps_line (pad m) m) ms)"
    using assms maps_line_plain last_in_set by (fastforce simp: list_all_iff)
  from rust_lines_file[OF this] show ?thesis by (simp add: comp_def)
qed

end
