(* ===== verification/Scan_Properties.thy ===== *)
theory Scan_Properties
  imports Scanner_Laws Procfs_Laws
begin

text \<open>
  The properties of the scanner and of the injection of \<open>madvise\<close> into other processes: the
  discipline of a ptrace session, the byte cap, the choice of the processes of a cycle, dry
  runs and huge-page ranges.
\<close>

section \<open>Ptrace sessions\<close>

text \<open>
  C36: whatever the kernel answers, a target whose registers may have been used gets them
  back: a session that resumed the target ends with its original registers being set and
  the detach, and a session detaches exactly once, at its end, unless the attach was
  refused or the target was reported as not stopped.
\<close>

theorem ptrace_session_safe:
  assumes "madvise_via_ptrace os addr len syscall_addr = (tr, r)"
  shows "(PSyscall \<in> set tr \<longrightarrow> (\<exists>orig t. os_regs os [PAttach, PWait, PGetRegs] = Some orig
        \<and> tr = t @ [PSetRegs orig, PDetach]))
    \<and> (count_list tr PDetach = 1 \<and> last tr = PDetach
       \<or> tr = [PAttach] \<and> \<not> os_ack os tr
       \<or> tr = [PAttach, PWait] \<and> (\<exists>st. os_wait os tr = Some st \<and> (\<forall>sig. st \<noteq> Stopped sig)))"
  using ptrace_restores[OF assms] ptrace_detaches[OF assms] by blast

text \<open>A kernel that answers every call; the registers read last report what the call returned.\<close>

definition regs_of :: "u64 \<Rightarrow> user_regs" where
  "regs_of a = \<lparr>rip = 4096, rax = a, rdi = 1, rsi = 2, rdx = 3, other_regs = [4]\<rparr>"

definition kind_os :: ptrace_os where
  "kind_os = \<lparr>os_ack = \<lambda>_. True, os_wait = \<lambda>_. Some (Stopped SIGTRAP), os_regs = \<lambda>_. Some (regs_of 0)\<rparr>"

lemma kind_session:
  "madvise_via_ptrace kind_os 65536 8192 7000 = (session_regs (regs_of 0) 65536 8192 7000 @ [PSetRegs (regs_of 0), PDetach], Ok ())"
  by (simp add: madvise_via_ptrace_def kind_os_def syscall_stop_def syscall_errno_def regs_of_def
      session_regs_def session_start_def Let_def)

theorem ptrace_session_safe_witness:
  "\<exists>tr. madvise_via_ptrace (kind_os\<lparr>os_wait := \<lambda>tr. if PSyscall \<in> set tr then None else Some (Stopped 19)\<rparr>) 65536 8192 7000
      = (tr, Err ''waitpid at syscall entry failed'') \<and> last tr = PDetach"
proof -
  let ?os = "kind_os\<lparr>os_wait := \<lambda>tr. if PSyscall \<in> set tr then None else Some (Stopped 19)\<rparr>"
  obtain tr where t: "madvise_via_ptrace ?os 65536 8192 7000 = (tr, Err ''waitpid at syscall entry failed'')"
    and p: "PSyscall \<in> set tr"
    by (simp add: madvise_via_ptrace_def kind_os_def syscall_stop_def Let_def restore_detach_def)
  from ptrace_session_safe[OF t] p t show ?thesis by auto
qed

text \<open>
  C37: a session that reports success went through the whole sequence: the target entered
  and left one system call with the arguments of \<open>madvise(addr, len, MADV_MERGEABLE)\<close>, the
  kernel returned no error code, and the registers were restored and acknowledged.
\<close>

theorem ptrace_success_complete:
  assumes "madvise_via_ptrace os addr len syscall_addr = (tr, Ok ())"
  shows "\<exists>orig after. os_regs os [PAttach, PWait, PGetRegs] = Some orig
    \<and> tr = [PAttach, PWait, PGetRegs, PSetRegs (orig\<lparr>rip := syscall_addr, rax := SYS_MADVISE, rdi := addr, rsi := len,
            rdx := MADV_MERGEABLE\<rparr>), PSyscall, PWait, PSyscall, PWait, PGetRegs, PSetRegs orig, PDetach]
    \<and> os_regs os (take 9 tr) = Some after \<and> syscall_errno after = None \<and> os_ack os (take 10 tr)"
proof -
  obtain orig after where o: "os_regs os [PAttach, PWait, PGetRegs] = Some orig"
    "tr = session_regs orig addr len syscall_addr @ [PSetRegs orig, PDetach]"
    "os_regs os (session_regs orig addr len syscall_addr) = Some after" "syscall_errno after = None"
    "os_ack os (session_regs orig addr len syscall_addr @ [PSetRegs orig])"
    using ptrace_success[OF assms] by blast
  then show ?thesis
    by (intro exI[of _ orig] exI[of _ after]) (simp add: session_regs_def session_start_def madvise_regs_def)
qed

theorem ptrace_success_complete_witness:
  "\<exists>tr. madvise_via_ptrace kind_os 65536 8192 7000 = (tr, Ok ()) \<and> length tr = 11 \<and> syscall_errno (regs_of 0) = None"
  using ptrace_success_complete[OF kind_session] kind_session by (auto simp: kind_os_def)

section \<open>The byte cap\<close>

text \<open>
  C38: marking a process never exceeds the cap: the bytes reported as marked are at most
  \<open>max_bytes\<close>, whatever the regions and the answers of the kernel; every attempted region is
  either merged or has an error entry; and no more regions are attempted than are eligible.
\<close>

theorem mergeable_within_cap:
  assumes "res = apply_mergeable inject vdso pid regions max_bytes dry"
  shows "total_bytes_marked res \<le> max_bytes
    \<and> regions_merged res + length (mr_errors res) = regions_attempted res
    \<and> regions_attempted res \<le> length (filter eligible regions)"
  using apply_mergeable_result[OF assms] by (simp add: accounted_def)

definition anon_region :: "u64 \<Rightarrow> u64 \<Rightarrow> maps_entry" where
  "anon_region a b = \<lparr>map_start = a, map_end = b, perms = ''rw-p'', map_offset = 0, dev = ''00:00'', inode = 0, pathname = []\<rparr>"

theorem mergeable_within_cap_witness:
  "\<exists>res. res = apply_mergeable (\<lambda>addr len sa. if addr = 0 then Err ''no'' else Ok ()) (Ok 7000) 99
      [anon_region 0 4096, anon_region 8192 16384] 10000 False
    \<and> regions_merged res + length (mr_errors res) = regions_attempted res \<and> total_bytes_marked res \<le> 10000"
  using mergeable_within_cap[OF refl] by blast

section \<open>The choice of the processes\<close>

text \<open>
  C39: every target of a cycle passed all levels of the filter: its pid is above 2, it is
  not blocklisted, its anonymous memory reaches the minimum, it does not merge already, its
  KSM profit is not negative and it has an eligible region; there are at most
  \<open>max_candidates_per_cycle\<close> of them.
\<close>

theorem scan_targets_filtered:
  assumes "collect_scan_targets cfg env pids stats = (stats', targets)"
  shows "length targets \<le> unat (max_candidates_per_cycle cfg) \<and> (\<forall>(pid, maps) \<in> set targets.
      (\<exists>p st. env_status env p = Some st \<and> ps_pid st = pid \<and> 2 < pid
         \<and> \<not> is_blocklisted (ps_name st) (blocklist cfg) \<and> min_anon_rss_mb cfg \<le> ps_anon_rss_kb st div 1024)
      \<and> (\<forall>s. env_ksm env pid = Some s \<longrightarrow> \<not> merge_any s \<and> 0 \<le> process_profit s)
      \<and> env_maps env pid = Some maps \<and> filter eligible maps \<noteq> [])"
  using targets_length[of cfg env pids stats] targets_good[of _ _ cfg env pids stats]
  by (auto simp: assms good_target_def)

definition one_env :: scan_env where
  "one_env =
     \<lparr>env_status = \<lambda>p. Some \<lparr>ps_pid = p, ps_name = ''qemu'', vm_rss_kb = 300000, ps_anon_rss_kb = 204800, vm_swap_kb = 0\<rparr>,
      env_ksm = \<lambda>p. None, env_maps = \<lambda>p. Some [anon_region 0 4096]\<rparr>"

lemma one_collect:
  "\<exists>stats'. collect_scan_targets scanner_default one_env [1, 42] scanner_stats_default = (stats', [(42, [anon_region 0 4096])])"
proof -
  have "snd (collect_scan_targets scanner_default one_env [1, 42] scanner_stats_default) = [(42, [anon_region 0 4096])]"
    by code_simp
  then show ?thesis by (metis prod.collapse)
qed

theorem scan_targets_filtered_witness:
  "\<exists>stats'. collect_scan_targets scanner_default one_env [1, 42] scanner_stats_default = (stats', [(42, [anon_region 0 4096])])
    \<and> filter eligible [anon_region 0 4096] \<noteq> []"
proof -
  obtain stats' where c: "collect_scan_targets scanner_default one_env [1, 42] scanner_stats_default = (stats', [(42, [anon_region 0 4096])])"
    using one_collect by blast
  from scan_targets_filtered[OF c] c show ?thesis by auto
qed

text \<open>
  Beyond the properties: a dry run of the scanner cannot tell two kernels apart by their ptrace, vDSO and
  huge-page calls: the result of a cycle does not depend on them, since it makes none.
\<close>

theorem dry_scan_makes_no_calls:
  assumes "sc_dry_run sc"
  shows "scan_cycle (k\<lparr>k_inject := inj1, k_vdso := vd1, k_collapse := col1, k_pidfd := fd1\<rparr>) now (sc, st)
    = scan_cycle (k\<lparr>k_inject := inj2, k_vdso := vd2, k_collapse := col2, k_pidfd := fd2\<rparr>) now (sc, st)"
  unfolding scan_cycle_dry[OF assms] ..

definition one_kernel :: scan_kernel where
  "one_kernel = \<lparr>k_pids = Some [1, 42], k_env = one_env, k_inject = \<lambda>_ _ _ _. Ok (), k_vdso = \<lambda>_. Ok 7000,
     k_ksm_stats = None, k_pidfd = \<lambda>_. True, k_collapse = \<lambda>_ _ _. Ok ()\<rparr>"

theorem dry_scan_makes_no_calls_witness:
  "scan_cycle one_kernel 60000 (scanner_new scanner_default True 30, governor_state_default 0)
    = scan_cycle (one_kernel\<lparr>k_inject := \<lambda>_ _ _ _. Err ''no''\<rparr>) 60000 (scanner_new scanner_default True 30, governor_state_default 0)"
  using dry_scan_makes_no_calls[where k = one_kernel and sc = "scanner_new scanner_default True 30"
      and ?inj1.0 = "k_inject one_kernel" and ?inj2.0 = "\<lambda>_ _ _ _. Err ''no''" and ?vd1.0 = "k_vdso one_kernel"
      and ?vd2.0 = "k_vdso one_kernel" and ?col1.0 = "k_collapse one_kernel" and ?col2.0 = "k_collapse one_kernel"
      and ?fd1.0 = "k_pidfd one_kernel" and ?fd2.0 = "k_pidfd one_kernel"]
  by (simp add: scanner_new_def)

text \<open>
  Beyond the properties: the range passed to \<open>MADV_COLLAPSE\<close> lies inside the region and both of its ends are
  multiples of two megabytes, as long as the start can be rounded up without leaving the
  64-bit address space.
\<close>

theorem huge_range_inside:
  assumes "thp_range r = (start, stop)" "unat (map_start r) + 2 ^ 21 \<le> 2 ^ 64"
  shows "map_start r \<le> start \<and> stop \<le> map_end r \<and> 2 ^ 21 dvd unat start \<and> 2 ^ 21 dvd unat stop"
  using thp_range_inside[OF assms] by (simp only: mod_eq_0_iff_dvd)

theorem huge_range_inside_witness:
  "\<exists>start stop. thp_range (anon_region 4096 8388608) = (start, stop) \<and> 4096 \<le> start \<and> stop \<le> 8388608
    \<and> 2 ^ 21 dvd unat start"
proof -
  obtain start stop where t: "thp_range (anon_region 4096 8388608) = (start, stop)" by fastforce
  from huge_range_inside[OF t] t show ?thesis by (simp add: anon_region_def)
qed

section \<open>Reading the kernel's files\<close>

text \<open>
  C40: a maps file is read back entry by entry: for every list of mappings, printed in the
  format of the kernel with any padding before the paths, \<open>read_process_maps\<close> returns this
  list. Fields must not contain white space, nor a path runs of spaces.
\<close>

theorem maps_file_read_back:
  assumes "list_all printable_entry ms"
    and "fs (proc_path pid ''maps'') = Some (concat (map (\<lambda>m. maps_line (pad m) m @ [newline]) ms))"
  shows "read_process_maps fs pid = Ok ms"
proof -
  have "List.map_filter parse_maps_line (map (\<lambda>m. maps_line (pad m) m) ms) = ms"
    using assms(1) by (induction ms) (simp_all add: parse_maps_line_print)
  with assms show ?thesis by (simp add: read_process_maps_def proc_read_def rust_lines_maps)
qed

lemma hex_chars:
  "hex_char 0 = CHR ''0''" "hex_char (Suc 0) = CHR ''1''" "hex_char 2 = CHR ''2''" "hex_char 4 = CHR ''4''"
  "hex_char 7 = CHR ''7''" "hex_char 15 = CHR ''f''"
  "digit_char (Suc 0) = CHR ''1''" "digit_char 3 = CHR ''3''" "digit_char 0 = CHR ''0''"
  by code_simp+

lemma replicate_small: "replicate 2 c = [c, c]" "replicate 4 c = [c, c, c, c]" "replicate 7 c = [c, c, c, c, c, c, c]"
  by (simp_all add: eval_nat_numeral)

lemma printed_numbers:
  "show_hex8 0x400000 = ''00400000''" "show_hex8 0x47f000 = ''0047f000''" "show_hex8 0x1000 = ''00001000''"
  "show_hex8 0x7f0000000000 = ''7f0000000000''" "show_hex8 0x7f0000200000 = ''7f0000200000''"
  "show_hex8 0 = ''00000000''" "show_nat 131 = ''131''" "show_nat 0 = ''0''"
  by (simp_all add: show_hex8_def Let_def show_hex.simps show_nat.simps hex_chars replicate_small)

theorem maps_file_read_back_witness:
  "read_process_maps (\<lambda>_. Some (''00400000-0047f000 r-xp 00001000 08:01 131 /usr/bin/my app'' @ [newline]
       @ ''7f0000000000-7f0000200000 rw-p 00000000 00:00 0 '' @ [newline])) 7
   = Ok [\<lparr>map_start = 0x400000, map_end = 0x47f000, perms = ''r-xp'', map_offset = 0x1000, dev = ''08:01'',
          inode = 131, pathname = ''/usr/bin/my app''\<rparr>,
         \<lparr>map_start = 0x7f0000000000, map_end = 0x7f0000200000, perms = ''rw-p'', map_offset = 0, dev = ''00:00'',
          inode = 0, pathname = []\<rparr>]"
  (is "read_process_maps ?fs 7 = Ok ?ms")
proof (rule maps_file_read_back[where pad = "\<lambda>_. 0"])
  show "list_all printable_entry ?ms" by code_simp
  show "?fs (proc_path 7 ''maps'') = Some (concat (map (\<lambda>m. maps_line 0 m @ [newline]) ?ms))"
    by (simp add: maps_line_def printed_numbers)
qed

end
