(* ===== verification/Spec2Isabelle.thy ===== *)
theory Spec2Isabelle
  imports Swap_Properties Concurrent_Properties Daemon_Properties Scan_Properties
begin

text \<open>
  Verification of animaksm, three Rust crates that save memory on Linux.

  \<^bold>\<open>The program.\<close> \<open>crates/swap-proxy\<close> is a user-space swap device: the kernel sends page
  requests over ublk, \<open>ublk_frontend.rs\<close> decodes them, \<open>ProxyEngine\<close> in \<open>main.rs\<close> executes
  them on a page store with a slot allocator and a translation table (\<open>backend.rs\<close>) and,
  outside passthrough mode, on a deduplication table (\<open>dedup.rs\<close>, \<open>fingerprint.rs\<close>).
  \<open>crates/daemon\<close> tunes kernel same-page merging: \<open>governor.rs\<close> turns pressure readings
  into a level and writes the profile of that level to sysfs, \<open>scanner.rs\<close> picks processes
  and \<open>madvise.rs\<close> marks their memory as mergeable by injecting system calls, \<open>metrics.rs\<close>
  reports, and \<open>main.rs\<close> starts the tasks, takes a snapshot of the KSM parameters and
  restores it at the end. \<open>crates/common\<close> has what both share: \<open>psi.rs\<close>, \<open>config.rs\<close>,
  \<open>ksm.rs\<close>, \<open>procfs.rs\<close>, \<open>lib.rs\<close> and \<open>error.rs\<close>.

  \<^bold>\<open>Theories.\<close> Operations keep the names of the Rust functions; a struct is a record and an
  enum a datatype of the same name.
  \<^item> \<open>Prelude\<close>: words \<open>u8\<close> to \<open>u64\<close>, \<open>Ok\<close> and \<open>Err\<close>, association lists, multisets.
  \<^item> \<open>Fingerprint\<close>, \<open>Dedup\<close>, \<open>Backend\<close>: the files of the same names. State: \<open>dedup_table\<close>
    (map, Bloom filter, LRU list, counters), \<open>page_store\<close> (file, slots, counters),
    \<open>slot_allocator\<close>, \<open>translation_table\<close>.
  \<^item> \<open>Engine\<close>: \<open>ProxyEngine\<close>, with \<open>handle_write\<close>, \<open>handle_read\<close>, \<open>handle_discard\<close> as atomic
    operations. \<open>Interleave\<close>: the same methods cut into single accesses of the locked fields
    (\<open>request_step\<close>), as the parallel queues of the device execute them. \<open>Concurrent\<close>: the
    system of any number of such requests. \<open>Dedup_Steps\<close> and \<open>Dedup_Overlap\<close> do the same
    for the methods of \<open>DedupTable\<close> (\<open>call_step\<close>) and for threads that share one table.
    \<open>Fine_Steps\<close> and \<open>Fine_System\<close> combine the two (\<open>fine_step\<close>): requests whose calls of the
    table are cut into accesses, any number of them.
  \<^item> \<open>Ublk\<close>: \<open>ublk_frontend.rs\<close>. \<open>Swap_Main\<close>: the commands of the proxy's \<open>main.rs\<close>; here a
    real run serves its requests one after the other, while the queues of the program run in
    parallel, which is what \<open>Concurrent\<close> and \<open>Fine_System\<close> are about.
  \<^item> \<open>Rust_Text\<close>, \<open>Float\<close>: the parts of \<open>str\<close>, \<open>f32\<close> and \<open>f64\<close> that the sources use.
  \<^item> \<open>Psi\<close>, \<open>Config\<close>, \<open>Ksm\<close>, \<open>Procfs\<close>, \<open>Governor\<close>, \<open>Madvise\<close>, \<open>Scanner\<close>, \<open>Metrics\<close>: the files
    of the same names. \<open>Daemon\<close>: the daemon's \<open>main.rs\<close>.

  \<^bold>\<open>What is proved.\<close>
  \<^item> \<open>Backend_Laws\<close>: the store is an array of pages and the allocator a pool of slots,
    whatever system calls fail. \<open>Dedup_Laws\<close>: the table is a partial map from fingerprints to
    counted slots; a lookup never misses a tracked page because of the Bloom filter.
  \<^item> \<open>Ownership\<close>, \<open>Engine_Laws\<close>: the books of slots and references balance (\<open>eng_inv\<close>), and
    each operation has the effect of an ideal device (\<open>disk\<close>). \<open>Engine_Device\<close>,
    \<open>Engine_Run\<close>: the conditions under which this holds for whole runs, and the two ways the
    code leaves them: metadata eviction and a full store.
  \<^item> \<open>Block_Device\<close>, \<open>Ublk_Laws\<close>: loops over the pages of one request. \<open>Swap_Laws\<close>,
    \<open>Dry_Run\<close>: real runs serve any sequence of requests; the dry run is followed to its end.
  \<^item> \<open>Interleave_Laws\<close>, \<open>Concurrent\<close>: with overlapping requests in passthrough mode every slot
    has one owner and writes are linearizable; reads are not, unless the mapping stays.
    \<open>Stale_Duplicate\<close>: in deduplicating mode writes are not, the duplicate path can be
    overtaken between its lookup and its reference.
    \<open>Fine_Steps\<close>: at the finest level a request that runs alone is still atomic, and every
    request finishes whatever the others do. \<open>Fine_System\<close>: in both modes no slot, page or
    Bloom bit is out of range, and with \<open>k\<close> requests under way at a time (\<open>fine_limited\<close>) the
    table holds at most \<open>k - 1\<close> entries beyond its capacity; in passthrough mode the finest level adds nothing to the runs of \<open>Concurrent\<close>.
    \<open>Dedup_Overlap\<close>: what a shared table keeps under every interleaving, and the insertion
    race that it does not survive.
  \<^item> \<open>Ksm_Laws\<close>, \<open>Daemon_Laws\<close>: written values are in range, a restore brings the snapshot
    back up to the first number the kernel refuses, a dry run writes nothing. \<open>Governor_Laws\<close>, \<open>Psi_Laws\<close>: levels, hysteresis, classification.
    \<open>Governor_Progress\<close>: under steady pressure the level reaches its target and stays.
    \<open>Madvise_Laws\<close>, \<open>Scanner_Laws\<close>: byte cap, injection sequence, filters.
  \<^item> \<open>Proxy_Properties\<close>, \<open>Concurrent_Properties\<close>, \<open>Swap_Properties\<close>, \<open>Daemon_Properties\<close> and
    \<open>Scan_Properties\<close> state the properties, each with a witness on concrete data.

  \<^bold>\<open>Interfaces.\<close> \<open>ref_table\<close> (interpreted as \<open>rt\<close> by the deduplication table), \<open>page_array\<close>
  (\<open>pages\<close>, the page store), \<open>slot_pool\<close> (\<open>slots\<close>, the allocator), \<open>page_device\<close> (\<open>dev\<close>, the
  engine as the ublk loops see it) and \<open>ksm_kernel\<close> with its extension
  \<open>ksm_kernel_accepting\<close>: what a kernel does with a write to a KSM file. The kernel is not
  part of the repository; the three instances are a plain directory (\<open>plain\<close>), a kernel
  whose advisor sets \<open>pages_to_scan\<close> itself (\<open>sysfs\<close>), and one that also refuses to change
  \<open>max_page_sharing\<close> while pages are shared (\<open>busy\<close>). The properties assume \<open>ksm_kernel\<close>
  only, in which any write of a number may be refused but those of the two advisor targets.

  \<^bold>\<open>Conventions.\<close> Integers keep their width and wrap, as in a release build. Byte offsets in
  files and durations are natural numbers where the code converts checked or small values.
  \<open>HashMap\<close> and \<open>DashMap\<close> are association lists with distinct keys, where the order of
  iteration is not observed. A failing method returns the changed state with its error.
  Floats are rationals with infinities and NaN, rounded to nearest even after each operation.
  The hash \<open>h\<close>, the TOML and JSON codecs, the kernel and spawned processes are parameters
  or lists of outcomes (oracles), so that every theorem holds for every behaviour of them
  except where a hypothesis says otherwise (\<open>healthy\<close>: no system call fails).

  \<^bold>\<open>Bounds and fuel.\<close> \<open>run_alone\<close> takes ten steps, the longest path of a request, and
  \<open>run_call\<close> the length of the LRU list and eleven, the longest path of an insertion. For
  \<open>run_fine\<close> a number of steps after which the result stays is shown to exist.
  \<open>apply_madvise_batches\<close> recurses on the batch length, and each chunk removes at least one
  region. Runs of the engine assume fewer than \<open>2 ^ 32\<close> pages in use, since reference counts
  have 32 bits, and in deduplicating mode a table with room for them (\<open>table_fits\<close>); without
  that the orphan property shows what goes wrong. The dry run needs more than its 10000
  offsets in slots and entries. Endless loops (governor, scanner, metrics, the queue
  handler) run over a finite list of events of any length.

  \<^bold>\<open>Not modelled.\<close> Argument parsing with clap and the log lines of tracing, on which no state
  depends; packaging; memory ordering, since every access is a step of one global sequence; the read
  guard that \<open>add_reference\<close> holds across two steps, which only excludes interleavings; the
  tests. Tasks of the daemon interleave tick by tick; those that outlive the five seconds of
  the shutdown act after the restore as a whole (\<open>dh_late\<close>), not between its writes.
\<close>

end
